(* ===== verification/Go_Prelude.thy ===== *)
theory Go_Prelude
  imports Complex_Main "HOL-Library.Monad_Syntax" "HOL-Library.Word" "HOL-Library.Multiset"
begin

text \<open>
  What the components share: the fragments of Go's language and standard library that the
  repository uses (truncating division, \<^verbatim>\<open>int32\<close> ranges, \<^verbatim>\<open>strconv\<close>'s integer parsing,
  \<^verbatim>\<open>big.Int\<close>'s decimal text form, string search), and the generic lemmas about digits,
  lists and sums that the component theories use through the named collections below.
\<close>

named_theorems go_eval \<open>rules that evaluate closed terms of the text functions by \<open>simp\<close>\<close>
named_theorems digit_simps \<open>facts about decimal digits and their text\<close>

subsection \<open>Integers\<close>

text \<open>Go's \<^verbatim>\<open>/\<close> on integers and \<^verbatim>\<open>big.Int.Quo\<close> truncate towards zero.\<close>

definition go_quo :: "int \<Rightarrow> int \<Rightarrow> int" where
  "go_quo a b = sgn a * sgn b * (\<bar>a\<bar> div \<bar>b\<bar>)"

text \<open>The remainder that goes with it (\<^verbatim>\<open>%\<close>, \<^verbatim>\<open>big.Int.QuoRem\<close>): it has the sign of the dividend.\<close>

definition go_rem :: "int \<Rightarrow> int \<Rightarrow> int" where
  "go_rem a b = a - b * go_quo a b"

definition int32_range :: "int \<Rightarrow> bool" where
  "int32_range x \<longleftrightarrow> - (2 ^ 31) \<le> x \<and> x < 2 ^ 31"

text \<open>The wrap-around of \<^verbatim>\<open>int32\<close> arithmetic.\<close>

definition wrap32 :: "int \<Rightarrow> int" where
  "wrap32 x = (x + 2 ^ 31) mod 2 ^ 32 - 2 ^ 31"

lemma wrap32_range [simp, intro]: "int32_range (wrap32 x)"
  by (simp add: wrap32_def int32_range_def)

lemma wrap32_id: "int32_range x \<Longrightarrow> wrap32 x = x"
  by (simp add: wrap32_def int32_range_def)

lemma go_quo_nonneg: "0 \<le> a \<Longrightarrow> 0 < b \<Longrightarrow> go_quo a b = a div b"
  by (cases "a = 0") (auto simp: go_quo_def sgn_if)

lemma go_quo_minus: "go_quo (- a) b = - go_quo a b"
  by (simp add: go_quo_def)

lemma go_quo_rem: "a = b * go_quo a b + go_rem a b"
  by (simp add: go_rem_def)

subsection \<open>Decimal digits and their text\<close>

definition digit_char :: "nat \<Rightarrow> char" where
  "digit_char d = char_of (48 + d)"

definition digit_val :: "char \<Rightarrow> nat option" where
  "digit_val c = (let n = of_char c :: nat in if 48 \<le> n \<and> n \<le> 57 then Some (n - 48) else None)"

text \<open>\<^verbatim>\<open>big.Int.String\<close> (base 10) of a number that is not negative, and of any number.\<close>

fun nat_str :: "nat \<Rightarrow> string" where
  "nat_str n = (if n < 10 then [digit_char n] else nat_str (n div 10) @ [digit_char (n mod 10)])"

declare nat_str.simps [simp del]

definition int_str :: "int \<Rightarrow> string" where
  "int_str i = (if i < 0 then ''-'' @ nat_str (nat (- i)) else nat_str (nat i))"

text \<open>The value of a string of digits, read from the left onto an accumulator.\<close>

fun digits_val :: "nat \<Rightarrow> string \<Rightarrow> nat option" where
  "digits_val n [] = Some n"
| "digits_val n (c # cs) =
     (case digit_val c of None \<Rightarrow> None | Some d \<Rightarrow> digits_val (10 * n + d) cs)"

lemma digit_val_char [digit_simps]: "d < 10 \<Longrightarrow> digit_val (digit_char d) = Some d"
  by (simp add: digit_val_def digit_char_def)

lemma digit_char_eval [go_eval]:
  "digit_char 0 = CHR ''0''" "digit_char (Suc 0) = CHR ''1''" "digit_char 2 = CHR ''2''"
  "digit_char 3 = CHR ''3''" "digit_char 4 = CHR ''4''" "digit_char 5 = CHR ''5''"
  "digit_char 6 = CHR ''6''" "digit_char 7 = CHR ''7''" "digit_char 8 = CHR ''8''"
  "digit_char 9 = CHR ''9''"
  by (simp_all add: digit_char_def char_of_def bit_0)

lemma replicate_eval [go_eval]: "replicate (numeral k) x = x # replicate (pred_numeral k) x"
  by (simp add: numeral_eq_Suc)

lemma digit_val_bound: "digit_val c = Some d \<Longrightarrow> d < 10"
  by (auto simp: digit_val_def Let_def split: if_splits)

lemma digits_val_append [digit_simps]:
  "digits_val n (xs @ ys) = Option.bind (digits_val n xs) (\<lambda>m. digits_val m ys)"
  by (induction n xs rule: digits_val.induct) (auto split: option.splits)

lemma digits_val_nat_str [digit_simps]: "digits_val 0 (nat_str n) = Some n"
proof (induction n rule: nat_str.induct)
  case (1 n)
  then show ?case
    by (cases "n < 10") (simp_all add: nat_str.simps [of n] digit_simps)
qed

lemma digits_val_zeros [digit_simps]:
  "digits_val 0 (replicate k (CHR ''0'') @ cs) = digits_val 0 cs"
  by (induction k) (simp_all add: digit_val_def)

lemma digits_val_zero_Cons [digit_simps]: "digits_val 0 (CHR ''0'' # cs) = digits_val 0 cs"
  by (simp add: digit_val_def)

lemma nat_str_not_Nil [simp]: "nat_str n \<noteq> []"
  by (simp add: nat_str.simps)

lemma nat_str_digits: "c \<in> set (nat_str n) \<Longrightarrow> \<exists>d < 10. c = digit_char d"
proof (induction n rule: nat_str.induct)
  case (1 n)
  show ?case
  proof (cases "n < 10")
    case True
    with "1.prems" show ?thesis by (auto simp: nat_str.simps [of n])
  next
    case False
    with "1.prems" have "c \<in> set (nat_str (n div 10)) \<or> c = digit_char (n mod 10)"
      by (auto simp: nat_str.simps [of n])
    then show ?thesis
    proof
      assume "c \<in> set (nat_str (n div 10))"
      with "1.IH" False show ?thesis by blast
    next
      assume "c = digit_char (n mod 10)"
      then show ?thesis by (intro exI [of _ "n mod 10"]) simp
    qed
  qed
qed

lemma digit_char_neq [digit_simps]:
  assumes "d < 10"
  shows "digit_char d \<noteq> CHR ''-''" and "digit_char d \<noteq> CHR ''+''" and "digit_char d \<noteq> CHR ''.''"
    and "digit_char d \<noteq> CHR ''e''" and "digit_char d \<noteq> CHR ''E''"
  using digit_val_char [OF assms] by (auto simp: digit_val_def)

lemma nat_str_no_special [digit_simps]:
  "CHR ''-'' \<notin> set (nat_str n)" "CHR ''+'' \<notin> set (nat_str n)" "CHR ''.'' \<notin> set (nat_str n)"
  "CHR ''e'' \<notin> set (nat_str n)" "CHR ''E'' \<notin> set (nat_str n)"
  by (metis digit_char_neq nat_str_digits)+

lemma length_nat_str: "n < 10 ^ k \<Longrightarrow> 0 < k \<Longrightarrow> length (nat_str n) \<le> k"
proof (induction n arbitrary: k rule: nat_str.induct)
  case (1 n)
  show ?case
  proof (cases "n < 10")
    case True
    with 1 show ?thesis by (simp add: nat_str.simps [of n])
  next
    case False
    with "1.prems" have "k \<noteq> 1" by auto
    with "1.prems" obtain j where k: "k = Suc j" "0 < j"
      by (cases k) auto
    with "1.prems" have "n div 10 < 10 ^ j" by auto
    with 1 False k have "length (nat_str (n div 10)) \<le> j" by simp
    with False k show ?thesis by (simp add: nat_str.simps [of n])
  qed
qed

lemma digits_val_less: "digits_val n cs = Some m \<Longrightarrow> m < (n + 1) * 10 ^ length cs"
proof (induction n cs rule: digits_val.induct)
  case (2 n c cs)
  then obtain d where d: "digit_val c = Some d" "digits_val (10 * n + d) cs = Some m"
    by (auto split: option.splits)
  with 2 have "m < (10 * n + d + 1) * 10 ^ length cs" by simp
  also have "\<dots> \<le> (10 * n + 10) * 10 ^ length cs"
    using digit_val_bound [OF d(1)] by (intro mult_right_mono) auto
  finally show ?case by (simp add: algebra_simps)
qed auto

subsection \<open>strconv and big.Int parsing\<close>

datatype num_error = ErrSyntax | ErrRange

text \<open>
  \<^verbatim>\<open>strconv.ParseUint(s, 10, bits)\<close> past its empty-string check: the range error is raised at
  the first digit that takes the value above \<open>mx\<close>, before later characters are looked at.
\<close>

fun ParseUint_loop :: "nat \<Rightarrow> nat \<Rightarrow> string \<Rightarrow> num_error + nat" where
  "ParseUint_loop mx n [] = Inr n"
| "ParseUint_loop mx n (c # cs) =
     (case digit_val c of
        None \<Rightarrow> Inl ErrSyntax
      | Some d \<Rightarrow> if 10 * n + d > mx then Inl ErrRange else ParseUint_loop mx (10 * n + d) cs)"

definition ParseUint :: "string \<Rightarrow> nat \<Rightarrow> num_error + nat" where
  "ParseUint s bits = (if s = [] then Inl ErrSyntax else ParseUint_loop (2 ^ bits - 1) 0 s)"

text \<open>An optional sign in front, as \<^verbatim>\<open>strconv.ParseInt\<close> and \<^verbatim>\<open>big.Int.SetString\<close> take it.\<close>

definition split_sign :: "string \<Rightarrow> bool \<times> string" where
  "split_sign s =
     (case s of
        [] \<Rightarrow> (False, [])
      | c # cs \<Rightarrow> if c = CHR ''+'' then (False, cs) else if c = CHR ''-'' then (True, cs) else (False, s))"

definition ParseInt :: "string \<Rightarrow> nat \<Rightarrow> num_error + int" where
  "ParseInt s bits =
     (if s = [] then Inl ErrSyntax
      else case split_sign s of (neg, ds) \<Rightarrow>
        (case ParseUint ds bits of
           Inl e \<Rightarrow> Inl e
         | Inr un \<Rightarrow>
             if \<not> neg \<and> 2 ^ (bits - 1) \<le> un then Inl ErrRange
             else if neg \<and> 2 ^ (bits - 1) < un then Inl ErrRange
             else Inr (if neg then - int un else int un)))"

text \<open>\<^verbatim>\<open>strconv.Atoi\<close> on a 64-bit machine: the fast path for short strings has the same results.\<close>

definition Atoi :: "string \<Rightarrow> num_error + int" where
  "Atoi s = ParseInt s 64"

text \<open>\<^verbatim>\<open>big.Int.SetString(s, 10)\<close>: \<open>None\<close> is its \<open>ok = false\<close>.\<close>

definition SetString10 :: "string \<Rightarrow> int option" where
  "SetString10 s =
     (case split_sign s of (neg, ds) \<Rightarrow>
        if ds = [] then None
        else map_option (\<lambda>n. if neg then - int n else int n) (digits_val 0 ds))"

text \<open>\<^verbatim>\<open>strings.IndexAny\<close> as an option: the position of the first character of \<open>s\<close> that is in \<open>cs\<close>.\<close>

fun IndexAny :: "string \<Rightarrow> string \<Rightarrow> nat option" where
  "IndexAny [] cs = None"
| "IndexAny (c # s) cs = (if c \<in> set cs then Some 0 else map_option Suc (IndexAny s cs))"

text \<open>
  On a string of digits whose value fits, \<^verbatim>\<open>ParseUint\<close> is the value of the digits: the range
  test of the loop never fires, because partial values only grow.
\<close>

lemma digits_val_mono: "digits_val n cs = Some m \<Longrightarrow> n \<le> m"
proof (induction n cs rule: digits_val.induct)
  case (2 n c cs)
  then obtain d where "digit_val c = Some d" "digits_val (10 * n + d) cs = Some m"
    by (auto split: option.splits)
  with 2 show ?case by fastforce
qed simp

lemma ParseUint_loop_digits:
  "digits_val n cs = Some m \<Longrightarrow> m \<le> mx \<Longrightarrow> ParseUint_loop mx n cs = Inr m"
proof (induction n cs rule: digits_val.induct)
  case (2 n c cs)
  then obtain d where d: "digit_val c = Some d" "digits_val (10 * n + d) cs = Some m"
    by (auto split: option.splits)
  with 2 digits_val_mono [OF d(2)] show ?case by simp
qed simp

lemma ParseUint_loop_Inr:
  "ParseUint_loop mx n cs = Inr m \<Longrightarrow> digits_val n cs = Some m \<and> (m \<le> mx \<or> cs = [])"
  by (induction n cs rule: digits_val.induct) (auto split: option.splits if_splits)

text \<open>A signed run of digits without a leading sign character, as \<^verbatim>\<open>big.Int.String\<close> prints it.\<close>

definition sign_str :: "bool \<Rightarrow> string" where
  "sign_str neg = (if neg then ''-'' else [])"

lemma split_sign_str:
  "CHR ''+'' \<notin> set ds \<Longrightarrow> CHR ''-'' \<notin> set ds \<Longrightarrow> split_sign (sign_str neg @ ds) = (neg, ds)"
  by (cases ds) (auto simp: split_sign_def sign_str_def)

lemma SetString10_digits:
  assumes "digits_val 0 ds = Some n" "ds \<noteq> []" "CHR ''+'' \<notin> set ds" "CHR ''-'' \<notin> set ds"
  shows "SetString10 (sign_str neg @ ds) = Some (if neg then - int n else int n)"
  using assms by (simp add: SetString10_def split_sign_str)

lemma ParseInt_digits:
  assumes "digits_val 0 ds = Some n" "ds \<noteq> []" "CHR ''+'' \<notin> set ds" "CHR ''-'' \<notin> set ds"
    and "n < 2 ^ (bits - 1)"
  shows "ParseInt (sign_str neg @ ds) bits = Inr (if neg then - int n else int n)"
proof -
  have "(2::nat) ^ (bits - 1) \<le> 2 ^ bits" by simp
  with assms(5) have "n \<le> 2 ^ bits - 1" by linarith
  then have "ParseUint ds bits = Inr n"
    using assms by (simp add: ParseUint_def ParseUint_loop_digits)
  moreover have "sign_str neg @ ds \<noteq> []" using assms by simp
  ultimately show ?thesis
    using assms by (simp add: ParseInt_def split_sign_str)
qed

lemmas number_eval [go_eval] =
  nat_str.simps int_str_def digit_val_def ParseInt_def ParseUint_def split_sign_def SetString10_def

lemma IndexAny_None: "IndexAny s cs = None \<longleftrightarrow> set s \<inter> set cs = {}"
  by (induction s) auto

lemma ParseInt_range:
  assumes "ParseInt s bits = Inr i" "0 < bits"
  shows "- (2 ^ (bits - 1)) \<le> i \<and> i < 2 ^ (bits - 1)"
proof -
  from assms obtain neg ds un where un: "split_sign s = (neg, ds)"
      "\<not> (\<not> neg \<and> 2 ^ (bits - 1) \<le> un)" "\<not> (neg \<and> 2 ^ (bits - 1) < un)"
      "i = (if neg then - int un else int un)"
    by (auto simp: ParseInt_def split: if_splits sum.splits prod.splits)
  define B where "B = (2::int) ^ (bits - 1)"
  have "0 < B" by (simp add: B_def)
  have "neg \<Longrightarrow> int un \<le> B" "\<not> neg \<Longrightarrow> int un < B"
    using un(2,3) of_nat_le_iff [where 'a = int, of un "2 ^ (bits - 1)"]
      of_nat_less_iff [where 'a = int, of un "2 ^ (bits - 1)"] by (auto simp: B_def)
  with \<open>0 < B\<close> un(4) have "- B \<le> i \<and> i < B" by (cases neg) auto
  then show ?thesis by (simp add: B_def)
qed

end
