(* ===== verification/Decimal.thy ===== *)
theory Decimal
  imports Go_Prelude
begin

text \<open>
  The vendored package \<^verbatim>\<open>vendor/github.com/shopspring/decimal\<close> (\<^verbatim>\<open>decimal.go\<close>): a decimal is a
  big integer and an \<^verbatim>\<open>int32\<close> exponent. The operations here are the ones package \<^verbatim>\<open>money\<close>
  and the store call, and what those call. A nil \<^verbatim>\<open>*big.Int\<close> is \<open>None\<close>; a function that
  would dereference it returns an option. Lemmas: rounding is half away from zero on the
  rational value, addition and comparison are exact, and the text form parses back.
\<close>

subsection \<open>The data type and its operations\<close>

record Decimal =
  dvalue :: "int option"
  dexp :: int

definition Decimal_New :: "int \<Rightarrow> int \<Rightarrow> Decimal" where
  "Decimal_New v e = \<lparr>dvalue = Some v, dexp = e\<rparr>"

definition Decimal_NewFromInt :: "int \<Rightarrow> Decimal" where
  "Decimal_NewFromInt v = \<lparr>dvalue = Some v, dexp = 0\<rparr>"

definition Decimal_Zero :: Decimal where
  "Decimal_Zero = Decimal_New 0 1"

text \<open>The zero value of the struct: a nil pointer and exponent 0.\<close>

definition Decimal_nil :: Decimal where
  "Decimal_nil = \<lparr>dvalue = None, dexp = 0\<rparr>"

text \<open>The integer behind the pointer, once \<^verbatim>\<open>ensureInitialized\<close> has run.\<close>

definition bigval :: "Decimal \<Rightarrow> int" where
  "bigval d = (case dvalue d of None \<Rightarrow> 0 | Some v \<Rightarrow> v)"

definition ensureInitialized :: "Decimal \<Rightarrow> Decimal" where
  "ensureInitialized d = (case dvalue d of None \<Rightarrow> d\<lparr>dvalue := Some 0\<rparr> | Some _ \<Rightarrow> d)"

definition rescale :: "Decimal \<Rightarrow> int \<Rightarrow> Decimal" where
  "rescale d0 e =
     (let d = ensureInitialized d0 in
      if dexp d = e then \<lparr>dvalue = Some (bigval d), dexp = dexp d\<rparr>
      else
        let diff = nat \<bar>e - dexp d\<bar>;
            expScale = 10 ^ diff;
            value = (if dexp d < e then go_quo (bigval d) expScale
                     else if e < dexp d then bigval d * expScale
                     else bigval d)
        in \<lparr>dvalue = Some value, dexp = e\<rparr>)"

definition RescalePair :: "Decimal \<Rightarrow> Decimal \<Rightarrow> Decimal \<times> Decimal" where
  "RescalePair d1' d2' =
     (let d1 = ensureInitialized d1'; d2 = ensureInitialized d2' in
      if dexp d1 < dexp d2 then (d1, rescale d2 (dexp d1))
      else if dexp d2 < dexp d1 then (rescale d1 (dexp d2), d2)
      else (d1, d2))"

definition Decimal_Add :: "Decimal \<Rightarrow> Decimal \<Rightarrow> Decimal" where
  "Decimal_Add d d2 =
     (case RescalePair d d2 of (rd, rd2) \<Rightarrow>
        \<lparr>dvalue = Some (bigval rd + bigval rd2), dexp = dexp rd\<rparr>)"

definition Decimal_Sub :: "Decimal \<Rightarrow> Decimal \<Rightarrow> Decimal" where
  "Decimal_Sub d d2 =
     (case RescalePair d d2 of (rd, rd2) \<Rightarrow>
        \<lparr>dvalue = Some (bigval rd - bigval rd2), dexp = dexp rd\<rparr>)"

definition Decimal_Neg :: "Decimal \<Rightarrow> Decimal" where
  "Decimal_Neg d = \<lparr>dvalue = Some (- bigval (ensureInitialized d)), dexp = dexp d\<rparr>"

text \<open>\<^verbatim>\<open>big.Int.Cmp\<close>: -1, 0 or 1.\<close>

definition big_cmp :: "int \<Rightarrow> int \<Rightarrow> int" where
  "big_cmp a b = (if a < b then -1 else if a = b then 0 else 1)"

definition Decimal_Cmp :: "Decimal \<Rightarrow> Decimal \<Rightarrow> int" where
  "Decimal_Cmp d' d2' =
     (let d = ensureInitialized d'; d2 = ensureInitialized d2' in
      if dexp d = dexp d2 then big_cmp (bigval d) (bigval d2)
      else case RescalePair d d2 of (rd, rd2) \<Rightarrow> big_cmp (bigval rd) (bigval rd2))"

definition Decimal_Equal :: "Decimal \<Rightarrow> Decimal \<Rightarrow> bool" where
  "Decimal_Equal d d2 \<longleftrightarrow> Decimal_Cmp d d2 = 0"

definition Decimal_LessThan :: "Decimal \<Rightarrow> Decimal \<Rightarrow> bool" where
  "Decimal_LessThan d d2 \<longleftrightarrow> Decimal_Cmp d d2 = -1"

definition Decimal_Sign :: "Decimal \<Rightarrow> int" where
  "Decimal_Sign d = (case dvalue d of None \<Rightarrow> 0 | Some v \<Rightarrow> sgn v)"

definition Decimal_IsPositive :: "Decimal \<Rightarrow> bool" where
  "Decimal_IsPositive d \<longleftrightarrow> Decimal_Sign d = 1"

definition Decimal_IsZero :: "Decimal \<Rightarrow> bool" where
  "Decimal_IsZero d \<longleftrightarrow> Decimal_Sign d = 0"

text \<open>
  \<^verbatim>\<open>Round\<close>: truncate to one digit more, add five in the direction of the sign, and divide by
  ten with \<^verbatim>\<open>DivMod\<close> (Euclidean, so a floor here), correcting a negative inexact quotient.
\<close>

definition Decimal_Round :: "Decimal \<Rightarrow> int \<Rightarrow> Decimal" where
  "Decimal_Round d places =
     (if dexp d = wrap32 (- places) then d
      else
        let ret = rescale d (wrap32 (wrap32 (- places) - 1));
            v = (if bigval ret < 0 then bigval ret - 5 else bigval ret + 5);
            q = v div 10; m = v mod 10
        in \<lparr>dvalue = Some (if q < 0 \<and> m \<noteq> 0 then q + 1 else q), dexp = wrap32 (dexp ret + 1)\<rparr>)"

subsection \<open>Text\<close>

datatype dec_error =
    FractionTooLong string
  | ExponentNotNumeric string
  | TooManyDots string
  | CannotConvert string

text \<open>The scan for the decimal point: \<open>Inl\<close> at the second one, else its position.\<close>

fun find_point :: "nat \<Rightarrow> nat option \<Rightarrow> string \<Rightarrow> unit + nat option" where
  "find_point i p [] = Inr p"
| "find_point i p (c # cs) =
     (if c = CHR ''.'' then
        (case p of Some _ \<Rightarrow> Inl () | None \<Rightarrow> find_point (Suc i) (Some i) cs)
      else find_point (Suc i) p cs)"

text \<open>The scientific-notation prefix of \<^verbatim>\<open>NewFromString\<close>: the mantissa text and the exponent.\<close>

definition split_exponent :: "string \<Rightarrow> dec_error + string \<times> int" where
  "split_exponent value =
     (case IndexAny value ''Ee'' of
        None \<Rightarrow> Inr (value, 0)
      | Some eIndex \<Rightarrow>
          (case ParseInt (drop (eIndex + 1) value) 32 of
             Inl ErrRange \<Rightarrow> Inl (FractionTooLong value)
           | Inl ErrSyntax \<Rightarrow> Inl (ExponentNotNumeric value)
           | Inr expInt \<Rightarrow> Inr (take eIndex value, expInt)))"

text \<open>The digits of the coefficient: up to 18 characters by \<^verbatim>\<open>strconv.ParseInt\<close>, else by \<^verbatim>\<open>SetString\<close>.\<close>

definition parse_coefficient :: "string \<Rightarrow> int option" where
  "parse_coefficient intString =
     (if length intString \<le> 18
      then (case ParseInt intString 64 of Inl _ \<Rightarrow> None | Inr parsed64 \<Rightarrow> Some parsed64)
      else SetString10 intString)"

definition Decimal_NewFromString :: "string \<Rightarrow> dec_error + Decimal" where
  "Decimal_NewFromString originalInput =
     (case split_exponent originalInput of
        Inl e \<Rightarrow> Inl e
      | Inr (value, exp0) \<Rightarrow>
          (case find_point 0 None value of
             Inl _ \<Rightarrow> Inl (TooManyDots value)
           | Inr pIndex \<Rightarrow>
               (let intString =
                      (case pIndex of
                         None \<Rightarrow> value
                       | Some p \<Rightarrow> if p + 1 < length value then take p value @ drop (p + 1) value
                                   else take p value);
                    exp = (case pIndex of
                             None \<Rightarrow> exp0
                           | Some p \<Rightarrow> exp0 + - int (length (drop (p + 1) value)))
                in case parse_coefficient intString of
                     None \<Rightarrow> Inl (CannotConvert value)
                   | Some dValue \<Rightarrow>
                       if exp < - (2 ^ 31) \<or> exp > 2 ^ 31 - 1 then Inl (FractionTooLong originalInput)
                       else Inr \<lparr>dvalue = Some dValue, dexp = exp\<rparr>)))"

text \<open>The loop that drops trailing zeros from the fractional part.\<close>

definition trim_zeros :: "string \<Rightarrow> string" where
  "trim_zeros s = rev (dropWhile (\<lambda>c. c = CHR ''0'') (rev s))"

text \<open>
  The digits before and after the point for a coefficient \<open>n\<close> at \<open>k\<close> places, padded with zeros
  when the coefficient has too few.
\<close>

definition int_digits :: "nat \<Rightarrow> nat \<Rightarrow> string" where
  "int_digits k n = (let str = nat_str n in
     if k < length str then take (length str - k) str else ''0'')"

definition frac_digits :: "nat \<Rightarrow> nat \<Rightarrow> string" where
  "frac_digits k n = (let str = nat_str n in
     if k < length str then drop (length str - k) str
     else replicate (k - length str) (CHR ''0'') @ str)"

text \<open>Method \<^verbatim>\<open>string\<close>: \<open>None\<close> is the nil dereference of \<^verbatim>\<open>d.value\<close>.\<close>

definition Decimal_string :: "bool \<Rightarrow> Decimal \<Rightarrow> string option" where
  "Decimal_string trimTrailingZeros d =
     (if 0 \<le> dexp d then Some (int_str (bigval (rescale d 0)))
      else case dvalue d of
        None \<Rightarrow> None
      | Some v \<Rightarrow>
          (let n = nat \<bar>v\<bar>;
               k = nat (- dexp d);
               intPart = int_digits k n;
               fractionalPart = (if trimTrailingZeros then trim_zeros (frac_digits k n) else frac_digits k n);
               number = (if fractionalPart \<noteq> [] then intPart @ ''.'' @ fractionalPart else intPart)
           in Some (if v < 0 then ''-'' @ number else number)))"

definition Decimal_String :: "Decimal \<Rightarrow> string option" where
  "Decimal_String d = Decimal_string True d"

definition Decimal_StringFixed :: "Decimal \<Rightarrow> int \<Rightarrow> string option" where
  "Decimal_StringFixed d places = Decimal_string False (Decimal_Round d places)"

text \<open>
  The \<^verbatim>\<open>driver.Valuer\<close> and \<^verbatim>\<open>sql.Scanner\<close> methods. The database driver passes numeric columns as
  strings, so only the default branch of \<^verbatim>\<open>Scan\<close> is reached.
\<close>

definition unquoteIfQuoted :: "string \<Rightarrow> string" where
  "unquoteIfQuoted bytes =
     (if 2 < length bytes \<and> bytes ! 0 = CHR 0x22 \<and> bytes ! (length bytes - 1) = CHR 0x22
      then drop 1 (take (length bytes - 1) bytes) else bytes)"

definition Decimal_Value :: "Decimal \<Rightarrow> string option" where
  "Decimal_Value d = Decimal_String d"

definition Decimal_Scan :: "string \<Rightarrow> dec_error + Decimal" where
  "Decimal_Scan v = Decimal_NewFromString (unquoteIfQuoted v)"

subsection \<open>The rational value and well-formedness\<close>

text \<open>What the struct's comment says: number = value * 10 ^ exp.\<close>

definition dec_val :: "Decimal \<Rightarrow> rat" where
  "dec_val d = of_int (bigval d) * 10 powi dexp d"

text \<open>The exponent is an \<^verbatim>\<open>int32\<close>.\<close>

definition wf_decimal :: "Decimal \<Rightarrow> bool" where
  "wf_decimal d \<longleftrightarrow> int32_range (dexp d)"

lemma bigval_simps [simp]:
  "bigval \<lparr>dvalue = Some v, dexp = e\<rparr> = v" "bigval \<lparr>dvalue = None, dexp = e\<rparr> = 0"
  by (simp_all add: bigval_def)

lemma bigval_ensure [simp]: "bigval (ensureInitialized d) = bigval d"
  by (auto simp: bigval_def ensureInitialized_def split: option.splits)

lemma dexp_ensure [simp]: "dexp (ensureInitialized d) = dexp d"
  by (auto simp: ensureInitialized_def split: option.splits)

lemma dvalue_ensure [simp]: "dvalue (ensureInitialized d) = Some (bigval d)"
  by (auto simp: ensureInitialized_def bigval_def split: option.splits)

lemma dexp_rescale [simp]: "dexp (rescale d e) = e"
  by (simp add: rescale_def Let_def)

lemma dvalue_rescale [simp]: "dvalue (rescale d e) = Some (bigval (rescale d e))"
  by (simp add: rescale_def Let_def)

lemma bigval_rescale:
  "bigval (rescale d e) =
     (if dexp d < e then go_quo (bigval d) (10 ^ nat (e - dexp d))
      else bigval d * 10 ^ nat (dexp d - e))"
  by (auto simp: rescale_def Let_def)

text \<open>Rescaling to a smaller exponent is exact.\<close>

lemma dec_val_rescale: "e \<le> dexp d \<Longrightarrow> dec_val (rescale d e) = dec_val d"
proof -
  assume e: "e \<le> dexp d"
  have "(10::rat) powi dexp d = 10 ^ nat (dexp d - e) * 10 powi e"
  proof -
    have "(10::rat) powi dexp d = 10 powi (int (nat (dexp d - e)) + e)"
      using e by simp
    also have "\<dots> = 10 powi int (nat (dexp d - e)) * 10 powi e"
      by (rule power_int_add) simp
    also have "\<dots> = 10 ^ nat (dexp d - e) * 10 powi e"
      by (simp only: power_int_of_nat)
    finally show ?thesis .
  qed
  with e show ?thesis
    by (simp add: dec_val_def bigval_rescale)
qed

subsection \<open>Arithmetic and comparison are exact\<close>

lemma RescalePair_exact:
  assumes "RescalePair d d2 = (r, r2)"
  shows "dexp r = dexp r2" "dec_val r = dec_val d" "dec_val r2 = dec_val d2"
    "dexp r = min (dexp d) (dexp d2)"
proof -
  have ens: "dec_val (ensureInitialized x) = dec_val x" for x
    by (simp add: dec_val_def)
  show "dexp r = dexp r2" "dexp r = min (dexp d) (dexp d2)"
    using assms by (auto simp: RescalePair_def Let_def split: if_splits)
  show "dec_val r = dec_val d"
    using assms dec_val_rescale [of "dexp d2" "ensureInitialized d"]
    by (auto simp: RescalePair_def Let_def ens split: if_splits)
  show "dec_val r2 = dec_val d2"
    using assms dec_val_rescale [of "dexp d" "ensureInitialized d2"]
    by (auto simp: RescalePair_def Let_def ens split: if_splits)
qed

lemma dec_val_Add: "dec_val (Decimal_Add d d2) = dec_val d + dec_val d2"
proof -
  obtain r r2 where r: "RescalePair d d2 = (r, r2)" by force
  have "dec_val (Decimal_Add d d2) = dec_val r + dec_val r2"
    using RescalePair_exact(1) [OF r] by (simp add: Decimal_Add_def r dec_val_def algebra_simps)
  then show ?thesis by (simp add: RescalePair_exact(2,3) [OF r])
qed

lemma dec_val_Sub: "dec_val (Decimal_Sub d d2) = dec_val d - dec_val d2"
proof -
  obtain r r2 where r: "RescalePair d d2 = (r, r2)" by force
  have "dec_val (Decimal_Sub d d2) = dec_val r - dec_val r2"
    using RescalePair_exact(1) [OF r] by (simp add: Decimal_Sub_def r dec_val_def algebra_simps)
  then show ?thesis by (simp add: RescalePair_exact(2,3) [OF r])
qed

lemma dec_val_Neg: "dec_val (Decimal_Neg d) = - dec_val d"
  by (simp add: Decimal_Neg_def dec_val_def)

lemma dexp_Add_Sub: "dexp (Decimal_Add d d2) = min (dexp d) (dexp d2)"
    "dexp (Decimal_Sub d d2) = min (dexp d) (dexp d2)"
proof -
  obtain r r2 where r: "RescalePair d d2 = (r, r2)" by force
  show "dexp (Decimal_Add d d2) = min (dexp d) (dexp d2)" "dexp (Decimal_Sub d d2) = min (dexp d) (dexp d2)"
    by (simp_all add: Decimal_Add_def Decimal_Sub_def r RescalePair_exact(4) [OF r])
qed

lemma big_cmp_cases:
  "big_cmp a b = -1 \<longleftrightarrow> a < b" "big_cmp a b = 0 \<longleftrightarrow> a = b" "big_cmp a b = 1 \<longleftrightarrow> b < a"
  by (auto simp: big_cmp_def)

lemma dec_val_same_exp:
  assumes "dexp a = dexp b"
  shows "dec_val a < dec_val b \<longleftrightarrow> bigval a < bigval b" "dec_val a = dec_val b \<longleftrightarrow> bigval a = bigval b"
  using assms by (simp_all add: dec_val_def)

lemma Decimal_Cmp_exact:
  "Decimal_Cmp d d2 = -1 \<longleftrightarrow> dec_val d < dec_val d2"
  "Decimal_Cmp d d2 = 0 \<longleftrightarrow> dec_val d = dec_val d2"
proof -
  obtain r r2 where r: "RescalePair (ensureInitialized d) (ensureInitialized d2) = (r, r2)" by force
  have ens: "dec_val (ensureInitialized x) = dec_val x" for x
    by (simp add: dec_val_def)
  note R = RescalePair_exact [OF r, unfolded ens]
  show "Decimal_Cmp d d2 = -1 \<longleftrightarrow> dec_val d < dec_val d2"
    using dec_val_same_exp(1) [of d d2] dec_val_same_exp(1) [of r r2] R
    by (simp add: Decimal_Cmp_def Let_def r big_cmp_cases)
  show "Decimal_Cmp d d2 = 0 \<longleftrightarrow> dec_val d = dec_val d2"
    using dec_val_same_exp(2) [of d d2] dec_val_same_exp(2) [of r r2] R
    by (simp add: Decimal_Cmp_def Let_def r big_cmp_cases)
qed

lemma Decimal_IsPositive_val: "Decimal_IsPositive d \<longleftrightarrow> 0 < dec_val d"
proof -
  have "\<not> (10::rat) powi dexp d < 0" by (simp add: not_less)
  then show ?thesis
    by (auto simp: Decimal_IsPositive_def Decimal_Sign_def dec_val_def bigval_def sgn_if
        zero_less_mult_iff simp del: not_less split: option.splits)
qed

lemma Decimal_IsZero_val: "Decimal_IsZero d \<longleftrightarrow> dec_val d = 0"
  by (auto simp: Decimal_IsZero_def Decimal_Sign_def dec_val_def bigval_def sgn_if
      split: option.splits)

subsection \<open>Rounding\<close>

text \<open>Division of \<open>v\<close> by \<open>s\<close> to the nearest integer, ties away from zero.\<close>

definition half_away :: "int \<Rightarrow> int \<Rightarrow> int" where
  "half_away v s = sgn v * ((2 * \<bar>v\<bar> + s) div (2 * s))"

lemma half_away_minus: "half_away (- v) s = - half_away v s"
  by (simp add: half_away_def)

lemma half_away_nonneg: "0 \<le> v \<Longrightarrow> 0 < s \<Longrightarrow> half_away v s = (2 * v + s) div (2 * s)"
  by (cases "v = 0") (auto simp: half_away_def sgn_if)

lemma half_away_one [simp]: "half_away v 1 = v"
  by (auto simp: half_away_def sgn_if)

text \<open>Truncating to one more digit first does not change the result.\<close>

lemma half_away_via_tenths:
  assumes "0 \<le> v" "0 < s"
  shows "(v div s + 5) div 10 = half_away v (10 * s)"
proof -
  have "(v div s + 5) div 10 = (v + 5 * s) div s div 10"
    using assms by simp
  also have "\<dots> = (v + 5 * s) div (s * 10)"
    using assms by (simp add: zdiv_zmult2_eq)
  also have "\<dots> = (2 * (v + 5 * s)) div (2 * (s * 10))"
    by (rule div_mult_mult1 [symmetric]) simp
  also have "\<dots> = (2 * v + 10 * s) div (2 * (10 * s))"
    by (simp add: ac_simps)
  also have "\<dots> = half_away v (10 * s)"
    using assms by (intro half_away_nonneg [symmetric]) simp_all
  finally show ?thesis .
qed

text \<open>The body of \<^verbatim>\<open>Round\<close> after \<^verbatim>\<open>rescale\<close>, on the truncated coefficient \<open>t\<close>.\<close>

definition round_last :: "int \<Rightarrow> int" where
  "round_last t =
     (let v = (if t < 0 then t - 5 else t + 5); q = v div 10; m = v mod 10
      in if q < 0 \<and> m \<noteq> 0 then q + 1 else q)"

lemma round_last_nonneg: "0 \<le> t \<Longrightarrow> round_last t = (t + 5) div 10"
  by (auto simp: round_last_def Let_def)

lemma round_last_minus: "round_last (- t) = - round_last t"
proof -
  have pos: "round_last (- u) = - round_last u" if "0 < u" for u
  proof -
    have "(- u - 5) div 10 = (if (u + 5) mod 10 = 0 then - ((u + 5) div 10) else - ((u + 5) div 10) - 1)"
      "(- u - 5) mod 10 = (if (u + 5) mod 10 = 0 then 0 else 10 - (u + 5) mod 10)"
      using zdiv_zminus1_eq_if [of 10 "u + 5"] zmod_zminus1_eq_if [of "u + 5" 10] by simp_all
    moreover have "0 \<le> (u + 5) div 10" using that by simp
    moreover have "(u + 5) mod 10 \<noteq> 10" using pos_mod_bound [of 10 "u + 5"] by linarith
    ultimately show ?thesis using that by (simp add: round_last_def Let_def)
  qed
  show ?thesis
    using pos [of t] pos [of "- t"]
    by (cases t "0::int" rule: linorder_cases) (auto simp: round_last_def)
qed

lemma round_last_quo:
  assumes "0 < s"
  shows "round_last (go_quo v s) = half_away v (10 * s)"
proof -
  have nonneg: "round_last (go_quo u s) = half_away u (10 * s)" if "0 \<le> u" for u
    using that assms
    by (simp add: go_quo_nonneg round_last_nonneg pos_imp_zdiv_nonneg_iff half_away_via_tenths)
  show ?thesis
    using nonneg [of v] nonneg [of "- v"]
    by (cases "0 \<le> v") (auto simp: go_quo_minus round_last_minus half_away_minus)
qed

lemma round_last_mult10: "round_last (10 * v) = v"
proof -
  have "round_last (10 * u) = u" if "0 \<le> u" for u
    using that by (simp add: round_last_nonneg)
  from this [of v] this [of "- v"] round_last_minus [of "10 * v"] show ?thesis
    by (cases "0 \<le> v") auto
qed

text \<open>The places whose negation, and the one below it, are \<^verbatim>\<open>int32\<close> values.\<close>

definition places_ok :: "int \<Rightarrow> bool" where
  "places_ok p \<longleftrightarrow> - (2 ^ 31) < p \<and> p < 2 ^ 31 - 1"

lemma Decimal_Round_eq:
  assumes "places_ok p"
  shows "Decimal_Round d p =
     (if dexp d = - p then d
      else \<lparr>dvalue = Some (round_last (bigval (rescale d (- p - 1)))), dexp = - p\<rparr>)"
proof -
  from assms have "int32_range (- p)" "int32_range (- p - 1)"
    by (auto simp: places_ok_def int32_range_def)
  then show ?thesis
    by (simp add: Decimal_Round_def wrap32_id round_last_def Let_def)
qed

lemma bigval_Round:
  assumes "places_ok p"
  shows "bigval (Decimal_Round d p) =
     (if dexp d < - p then half_away (bigval d) (10 ^ nat (- p - dexp d))
      else bigval d * 10 ^ nat (dexp d + p))"
proof (cases "dexp d" "- p" rule: linorder_cases)
  case less
  define k where "k = nat (- p - 1 - dexp d)"
  from less have "nat (- p - dexp d) = Suc k" by (simp add: k_def)
  moreover have "bigval (rescale d (- p - 1)) = go_quo (bigval d) (10 ^ k)"
    using less by (auto simp: bigval_rescale k_def go_quo_def sgn_if)
  ultimately show ?thesis
    using less assms round_last_quo [of "10 ^ k" "bigval d"] by (simp add: Decimal_Round_eq)
next
  case equal
  with assms show ?thesis by (simp add: Decimal_Round_eq)
next
  case greater
  then have "nat (dexp d - (- p - 1)) = Suc (nat (dexp d + p))" by simp
  with greater have "bigval (rescale d (- p - 1)) = 10 * (bigval d * 10 ^ nat (dexp d + p))"
    by (simp add: bigval_rescale)
  with greater assms show ?thesis
    by (simp add: Decimal_Round_eq round_last_mult10)
qed

lemma dexp_Round [simp]: "places_ok p \<Longrightarrow> dexp (Decimal_Round d p) = - p"
  by (simp add: Decimal_Round_eq)

lemma half_away_nearest:
  assumes "0 < s"
  shows "2 * \<bar>half_away v s * s - v\<bar> \<le> s"
    and "2 * \<bar>half_away v s * s - v\<bar> = s \<Longrightarrow> \<bar>v\<bar> \<le> \<bar>half_away v s * s\<bar>"
proof -
  have nonneg: "2 * \<bar>half_away u s * s - u\<bar> \<le> s \<and>
      (2 * \<bar>half_away u s * s - u\<bar> = s \<longrightarrow> \<bar>u\<bar> \<le> \<bar>half_away u s * s\<bar>)" if u: "0 \<le> u" for u
  proof -
    define q r where "q = (2 * u + s) div (2 * s)" and "r = (2 * u + s) mod (2 * s)"
    have "2 * u + s = 2 * s * q + r" "0 \<le> r" "r < 2 * s"
      using assms by (simp_all add: q_def r_def)
    moreover define x where "x = q * s"
    ultimately have h: "2 * x - 2 * u = s - r" "0 \<le> r" "r < 2 * s"
      by (simp_all add: algebra_simps)
    then have b: "- s < 2 * (x - u) \<and> 2 * (x - u) \<le> s" by simp
    have "2 * \<bar>x - u\<bar> \<le> s" using b by (cases "0 \<le> x - u") simp_all
    moreover have "\<bar>u\<bar> \<le> \<bar>x\<bar>" if "2 * \<bar>x - u\<bar> = s"
      using that b u by (cases "0 \<le> x - u") simp_all
    moreover have "half_away u s * s = x"
      using u assms by (simp add: half_away_nonneg q_def x_def)
    ultimately show ?thesis by blast
  qed
  have neg: "\<bar>half_away (- v) s * s - - v\<bar> = \<bar>half_away v s * s - v\<bar>"
    "\<bar>half_away (- v) s * s\<bar> = \<bar>half_away v s * s\<bar>"
    by (simp_all only: half_away_minus mult_minus_left abs_minus_cancel)
  show "2 * \<bar>half_away v s * s - v\<bar> \<le> s"
    using nonneg [of v] nonneg [of "- v", unfolded neg] by (cases "0 \<le> v") simp_all
  show "2 * \<bar>half_away v s * s - v\<bar> = s \<Longrightarrow> \<bar>v\<bar> \<le> \<bar>half_away v s * s\<bar>"
    using nonneg [of v] nonneg [of "- v", unfolded neg] by (cases "0 \<le> v") simp_all
qed

lemma dec_val_Round_exact:
  assumes "places_ok p" "- p \<le> dexp d"
  shows "dec_val (Decimal_Round d p) = dec_val d"
proof -
  have "dec_val (Decimal_Round d p) = dec_val (rescale d (- p))"
    using assms by (simp add: dec_val_def bigval_Round bigval_rescale)
  with dec_val_rescale [OF assms(2)] show ?thesis by simp
qed

lemma powi_split: "e \<le> f \<Longrightarrow> (10::rat) powi f = of_int (10 ^ nat (f - e)) * 10 powi e"
  using power_int_add [of "10::rat" "f - e" e] by (simp add: power_int_def [of _ "f - e"])

lemma dec_val_Round_inexact:
  assumes "places_ok p" "dexp d < - p"
  defines "S \<equiv> 10 ^ nat (- p - dexp d)" and "u \<equiv> 10 powi dexp d"
  shows "dec_val (Decimal_Round d p) = of_int (half_away (bigval d) S * S) * u"
    and "dec_val d = of_int (bigval d) * u" and "10 powi (- p) = of_int S * u" and "0 < u"
  using assms by (simp_all add: dec_val_def bigval_Round powi_split [of "dexp d" "- p"])

text \<open>The rounded value is the nearest one, and ties go away from zero.\<close>

lemma dec_val_Round_nearest:
  assumes "places_ok p"
  shows "2 * \<bar>dec_val (Decimal_Round d p) - dec_val d\<bar> \<le> 10 powi (- p) \<and>
    (2 * \<bar>dec_val (Decimal_Round d p) - dec_val d\<bar> = 10 powi (- p) \<longrightarrow>
       \<bar>dec_val d\<bar> \<le> \<bar>dec_val (Decimal_Round d p)\<bar>)"
proof (cases "- p \<le> dexp d")
  case True
  with assms show ?thesis by (simp add: dec_val_Round_exact)
next
  case False
  define S u h where "S = (10::int) ^ nat (- p - dexp d)" and "u = (10::rat) powi dexp d"
    and "h = half_away (bigval d) S"
  from False have lt: "dexp d < - p" by simp
  note R = dec_val_Round_inexact [OF assms lt, folded S_def u_def, folded h_def]
  have diff: "2 * \<bar>dec_val (Decimal_Round d p) - dec_val d\<bar> = of_int (2 * \<bar>h * S - bigval d\<bar>) * u"
    using R(4) by (simp add: R(1,2) abs_mult flip: left_diff_distrib)
  have "0 < S" by (simp add: S_def)
  note near = half_away_nearest [OF this, of "bigval d", folded h_def]
  have "2 * \<bar>dec_val (Decimal_Round d p) - dec_val d\<bar> \<le> 10 powi (- p)"
    unfolding diff R(3)
    by (rule mult_right_mono [OF _ less_imp_le [OF R(4)]]) (simp only: of_int_le_iff near(1))
  moreover have "\<bar>dec_val d\<bar> \<le> \<bar>dec_val (Decimal_Round d p)\<bar>"
    if "2 * \<bar>dec_val (Decimal_Round d p) - dec_val d\<bar> = 10 powi (- p)"
  proof -
    from that R(4) have "2 * \<bar>h * S - bigval d\<bar> = S"
      unfolding diff R(3) by (simp only: mult_right_cancel of_int_eq_iff)
    from near(2) [OF this] have "rat_of_int \<bar>bigval d\<bar> * u \<le> rat_of_int \<bar>h * S\<bar> * u"
      by (intro mult_right_mono [OF _ less_imp_le [OF R(4)]]) (simp only: of_int_le_iff)
    then show ?thesis
      using R(4) by (simp add: R(1,2) abs_mult)
  qed
  ultimately show ?thesis by simp
qed

text \<open>
  \<^verbatim>\<open>Round\<close> gives the nearest multiple of \<open>10 powi (- places)\<close>, and a tie goes away from zero;
  the truncation to one more digit inside it never changes the result.
\<close>

theorem Decimal_Round_nearest:
  assumes "places_ok p"
  shows "dexp (Decimal_Round d p) = - p \<and>
    2 * \<bar>dec_val (Decimal_Round d p) - dec_val d\<bar> \<le> 10 powi (- p) \<and>
    (2 * \<bar>dec_val (Decimal_Round d p) - dec_val d\<bar> = 10 powi (- p) \<longrightarrow>
       \<bar>dec_val d\<bar> \<le> \<bar>dec_val (Decimal_Round d p)\<bar>)"
  using assms dec_val_Round_nearest [OF assms] by simp

subsection \<open>Printing and parsing\<close>

lemma digits_val_no_special:
  assumes "digits_val n ds = Some m"
  shows "CHR ''-'' \<notin> set ds" "CHR ''+'' \<notin> set ds" "CHR ''.'' \<notin> set ds"
    "CHR ''e'' \<notin> set ds" "CHR ''E'' \<notin> set ds"
  using assms
  by (induction n ds rule: digits_val.induct) (auto simp: digit_val_def Let_def split: if_splits)

lemma find_point_none: "CHR ''.'' \<notin> set cs \<Longrightarrow> find_point i p cs = Inr p"
  by (induction i p cs rule: find_point.induct) auto

lemma find_point_one:
  "CHR ''.'' \<notin> set xs \<Longrightarrow> CHR ''.'' \<notin> set ys \<Longrightarrow>
   find_point i None (xs @ CHR ''.'' # ys) = Inr (Some (i + length xs))"
  by (induction xs arbitrary: i) (auto simp: find_point_none)

lemma split_exponent_none:
  "CHR ''e'' \<notin> set s \<Longrightarrow> CHR ''E'' \<notin> set s \<Longrightarrow> split_exponent s = Inr (s, 0)"
  using IndexAny_None [of s "''Ee''"] by (auto simp: split_exponent_def split: option.splits)

lemma parse_coefficient_digits:
  assumes "digits_val 0 ds = Some n" "ds \<noteq> []"
  shows "parse_coefficient (sign_str neg @ ds) = Some (if neg then - int n else int n)"
proof (cases "length (sign_str neg @ ds) \<le> 18")
  case True
  have "n < 10 ^ length ds" using digits_val_less [OF assms(1)] by simp
  also have "(10::nat) ^ length ds \<le> 10 ^ 18" using True by (intro power_increasing) auto
  also have "(10::nat) ^ 18 < 2 ^ (64 - 1)" by simp
  finally have "n < 2 ^ (64 - 1)" .
  with True assms ParseInt_digits [OF assms(1,2), of 64 neg] digits_val_no_special [OF assms(1)]
  show ?thesis by (simp add: parse_coefficient_def)
next
  case False
  with assms SetString10_digits [OF assms(1,2), of neg] digits_val_no_special [OF assms(1)]
  show ?thesis by (simp add: parse_coefficient_def)
qed

lemma sign_str_no_special [simp]:
  "CHR ''.'' \<notin> set (sign_str neg)" "CHR ''e'' \<notin> set (sign_str neg)" "CHR ''E'' \<notin> set (sign_str neg)"
  by (simp_all add: sign_str_def)

text \<open>A sign, digits, a point and at least one more digit.\<close>

lemma NewFromString_fixed:
  assumes "digits_val 0 (ds @ fs) = Some n" "fs \<noteq> []" "length fs \<le> 2 ^ 31"
  shows "Decimal_NewFromString (sign_str neg @ ds @ ''.'' @ fs) =
    Inr \<lparr>dvalue = Some (if neg then - int n else int n), dexp = - int (length fs)\<rparr>"
proof -
  let ?v = "(sign_str neg @ ds) @ CHR ''.'' # fs"
  note sp = digits_val_no_special [OF assms(1)]
  have e: "split_exponent ?v = Inr (?v, 0)"
    using sp by (intro split_exponent_none) auto
  have p: "find_point 0 None ?v = Inr (Some (length (sign_str neg @ ds)))"
    using sp by (subst find_point_one) auto
  have c: "parse_coefficient ((sign_str neg @ ds) @ fs) = Some (if neg then - int n else int n)"
    using parse_coefficient_digits [OF assms(1), of neg] assms(2) by simp
  have l: "length (sign_str neg @ ds) + 1 < length ?v" using assms(2) by simp
  have r: "int (length fs) \<le> 2 ^ 31" using assms(3) by simp
  have "Decimal_NewFromString ?v =
    Inr \<lparr>dvalue = Some (if neg then - int n else int n), dexp = - int (length fs)\<rparr>"
    unfolding Decimal_NewFromString_def using l r by (simp add: e p c del: append_assoc)
  then show ?thesis by simp
qed

text \<open>A sign and digits without a point.\<close>

lemma NewFromString_integral:
  assumes "digits_val 0 ds = Some n" "ds \<noteq> []"
  shows "Decimal_NewFromString (sign_str neg @ ds) =
    Inr \<lparr>dvalue = Some (if neg then - int n else int n), dexp = 0\<rparr>"
proof -
  note sp = digits_val_no_special [OF assms(1)]
  have e: "split_exponent (sign_str neg @ ds) = Inr (sign_str neg @ ds, 0)"
    using sp by (intro split_exponent_none) auto
  have p: "find_point 0 None (sign_str neg @ ds) = Inr None"
    using sp by (intro find_point_none) auto
  show ?thesis
    by (simp add: Decimal_NewFromString_def e p parse_coefficient_digits [OF assms])
qed

lemma int_frac_digits:
  "digits_val 0 (int_digits k n @ frac_digits k n) = Some n" "length (frac_digits k n) = k"
  "int_digits k n \<noteq> []"
proof -
  have "int_digits k n @ frac_digits k n =
      (if k < length (nat_str n) then nat_str n
       else CHR ''0'' # replicate (k - length (nat_str n)) (CHR ''0'') @ nat_str n)"
    by (simp add: int_digits_def frac_digits_def Let_def)
  then show "digits_val 0 (int_digits k n @ frac_digits k n) = Some n"
    by (cases "k < length (nat_str n)")
       (simp_all only: digits_val_zero_Cons digits_val_zeros digits_val_nat_str if_True if_False)
  show "length (frac_digits k n) = k" "int_digits k n \<noteq> []"
    by (auto simp: int_digits_def frac_digits_def Let_def)
qed

lemma frac_digits_not_Nil: "0 < k \<Longrightarrow> frac_digits k n \<noteq> []"
  using int_frac_digits(2) [of k n] by force

lemma Decimal_string_shape:
  assumes "dvalue d = Some v" "dexp d < 0"
  shows "Decimal_string False d =
    Some (sign_str (v < 0) @ int_digits (nat (- dexp d)) (nat \<bar>v\<bar>) @ ''.'' @
          frac_digits (nat (- dexp d)) (nat \<bar>v\<bar>))"
  using assms by (simp add: Decimal_string_def sign_str_def Let_def frac_digits_not_Nil)

lemma Decimal_string_parse_back:
  assumes "dvalue d = Some v" "dexp d < 0" "wf_decimal d"
  shows "Decimal_NewFromString (the (Decimal_string False d)) = Inr d"
proof -
  let ?k = "nat (- dexp d)" and ?n = "nat \<bar>v\<bar>"
  have "?k \<le> 2 ^ 31" using assms(3) by (simp add: wf_decimal_def int32_range_def nat_le_iff)
  moreover have "frac_digits ?k ?n \<noteq> []"
    using assms(2) by (simp add: frac_digits_not_Nil)
  ultimately have "Decimal_NewFromString (the (Decimal_string False d)) =
      Inr \<lparr>dvalue = Some (if v < 0 then - int ?n else int ?n), dexp = - int ?k\<rparr>"
    using NewFromString_fixed [OF int_frac_digits(1) [of ?k ?n], of "v < 0"]
    by (simp add: Decimal_string_shape [OF assms(1,2)] int_frac_digits(2))
  with assms(1,2) show ?thesis by (cases "v < 0") simp_all
qed

text \<open>
  Printing a decimal with a fractional part and parsing the text gives the same coefficient
  and exponent back.
\<close>

theorem Decimal_string_roundtrip:
  assumes "dvalue d = Some v" "dexp d < 0" "wf_decimal d"
  shows "Decimal_NewFromString (the (Decimal_string False d)) = Inr d"
  using assms by (rule Decimal_string_parse_back)

lemma trim_zeros_split: "\<exists>j. s = trim_zeros s @ replicate j (CHR ''0'')"
proof -
  let ?z = "\<lambda>c. c = CHR ''0''"
  have "rev s = takeWhile ?z (rev s) @ dropWhile ?z (rev s)" by simp
  then have "s = trim_zeros s @ rev (takeWhile ?z (rev s))"
    unfolding trim_zeros_def by (metis rev_append rev_rev_ident)
  moreover have "takeWhile ?z (rev s) = replicate (length (takeWhile ?z (rev s))) (CHR ''0'')"
    by (rule replicate_eqI [symmetric, THEN sym]) (auto dest: set_takeWhileD)
  ultimately show ?thesis by (metis rev_replicate)
qed

lemma digits_val_append_zeros:
  "digits_val n (ds @ replicate j (CHR ''0'')) = map_option (\<lambda>m. m * 10 ^ j) (digits_val n ds)"
proof -
  have "digits_val m (replicate j (CHR ''0'')) = Some (m * 10 ^ j)" for m
    by (induction j arbitrary: m) (simp_all add: digit_val_def)
  then show ?thesis by (cases "digits_val n ds") (simp_all add: digits_val_append)
qed

lemma int_str_sign: "int_str v = sign_str (v < 0) @ nat_str (nat \<bar>v\<bar>)"
  by (simp add: int_str_def sign_str_def)

lemma Decimal_String_cases:
  assumes "dvalue d \<noteq> None \<or> 0 \<le> dexp d"
  shows "Decimal_String d =
    (if 0 \<le> dexp d then Some (int_str (bigval (rescale d 0)))
     else let v = bigval d; ds = int_digits (nat (- dexp d)) (nat \<bar>v\<bar>);
              fs = trim_zeros (frac_digits (nat (- dexp d)) (nat \<bar>v\<bar>))
          in Some (sign_str (v < 0) @ (if fs = [] then ds else ds @ ''.'' @ fs)))"
proof (cases "0 \<le> dexp d")
  case True
  then show ?thesis by (simp add: Decimal_String_def Decimal_string_def)
next
  case False
  with assms obtain v where "dvalue d = Some v" by auto
  with False show ?thesis
    by (simp add: Decimal_String_def Decimal_string_def bigval_def sign_str_def Let_def)
qed

lemma unquote_plain: "s = [] \<or> hd s \<noteq> CHR 0x22 \<Longrightarrow> unquoteIfQuoted s = s"
  by (cases s) (auto simp: unquoteIfQuoted_def)

lemma dec_val_trim:
  assumes n: "digits_val 0 (ds @ fs @ replicate j (CHR ''0'')) = Some n"
  obtains m where "digits_val 0 (ds @ fs) = Some m" "n = m * 10 ^ j"
proof -
  have "digits_val 0 ((ds @ fs) @ replicate j (CHR ''0'')) = Some n" using n by simp
  with that show ?thesis by (auto simp only: digits_val_append_zeros map_option_eq_Some)
qed

lemma Decimal_String_parse:
  assumes "dvalue d \<noteq> None \<or> 0 \<le> dexp d" "wf_decimal d"
  shows "\<exists>t d'. Decimal_String d = Some t \<and> Decimal_NewFromString t = Inr d' \<and> dec_val d' = dec_val d"
proof (cases "0 \<le> dexp d")
  case True
  let ?v = "bigval (rescale d 0)"
  have "Decimal_NewFromString (int_str ?v) =
      Inr \<lparr>dvalue = Some (if ?v < 0 then - int (nat \<bar>?v\<bar>) else int (nat \<bar>?v\<bar>)), dexp = 0\<rparr>"
    unfolding int_str_sign by (rule NewFromString_integral) (simp_all add: digit_simps)
  then have "Decimal_NewFromString (int_str ?v) = Inr \<lparr>dvalue = Some ?v, dexp = 0\<rparr>"
    by (cases "?v < 0") simp_all
  moreover have "dec_val \<lparr>dvalue = Some ?v, dexp = 0\<rparr> = dec_val d"
    using dec_val_rescale [OF True] by (simp add: dec_val_def)
  ultimately show ?thesis
    using True assms(1) by (simp add: Decimal_String_cases)
next
  case False
  define v k where "v = bigval d" and "k = nat (- dexp d)"
  define ds fs where "ds = int_digits k (nat \<bar>v\<bar>)" and "fs = trim_zeros (frac_digits k (nat \<bar>v\<bar>))"
  obtain j where j: "frac_digits k (nat \<bar>v\<bar>) = fs @ replicate j (CHR ''0'')"
    using trim_zeros_split unfolding fs_def by blast
  have len: "int k = int (length fs) + int j"
    using int_frac_digits(2) [of k "nat \<bar>v\<bar>"] by (simp add: j)
  have dexp: "dexp d = - (int (length fs) + int j)"
    using False len by (simp add: k_def)
  obtain m where m: "digits_val 0 (ds @ fs) = Some m" "nat \<bar>v\<bar> = m * 10 ^ j"
    using int_frac_digits(1) [of k "nat \<bar>v\<bar>"] unfolding j ds_def [symmetric] by (rule dec_val_trim)
  have v: "v = (if v < 0 then - int m else int m) * 10 ^ j"
    using m(2) by (auto simp: nat_eq_iff abs_if split: if_splits)
  have str: "Decimal_String d = Some (sign_str (v < 0) @ (if fs = [] then ds else ds @ ''.'' @ fs))"
    using False assms(1) by (simp add: Decimal_String_cases Let_def ds_def fs_def v_def k_def)
  have "Decimal_NewFromString (sign_str (v < 0) @ (if fs = [] then ds else ds @ ''.'' @ fs)) =
      Inr \<lparr>dvalue = Some (if v < 0 then - int m else int m), dexp = - int (length fs)\<rparr>"
  proof (cases "fs = []")
    case True
    with m int_frac_digits(3) show ?thesis
      using NewFromString_integral [of ds m "v < 0"] by (simp add: ds_def)
  next
    case ne: False
    have "int (length fs) \<le> 2 ^ 31"
      using assms(2) dexp by (simp add: wf_decimal_def int32_range_def)
    with ne m show ?thesis
      using NewFromString_fixed [OF m(1) ne, of "v < 0"] by simp
  qed
  moreover have "dec_val \<lparr>dvalue = Some (if v < 0 then - int m else int m), dexp = - int (length fs)\<rparr> = dec_val d"
    using powi_split [of "dexp d" "- int (length fs)"] dexp
    by (subst (2) dec_val_def, subst v_def [symmetric], subst v) (simp add: dec_val_def)
  ultimately show ?thesis using str by blast
qed

lemma digits_val_hd: "digits_val n ds = Some m \<Longrightarrow> ds \<noteq> [] \<Longrightarrow> digit_val (hd ds) \<noteq> None"
  by (cases ds) (auto split: option.splits)

lemma Decimal_String_hd:
  assumes "Decimal_String d = Some t"
  shows "hd t \<noteq> CHR 0x22"
proof -
  have D: "hd (sign_str neg @ ds @ rest) \<noteq> CHR 0x22"
    if "digits_val 0 (ds @ fs) = Some n" "ds \<noteq> []" for neg ds fs rest n
    using digits_val_hd [OF that(1)] that(2) by (auto simp: sign_str_def digit_val_def hd_append)
  show ?thesis
  proof (cases "0 \<le> dexp d")
    case True
    with assms D [of "nat_str _" "[]" _ _ "[]"] show ?thesis
      by (auto simp: Decimal_String_def Decimal_string_def int_str_sign digit_simps)
  next
    case False
    with assms have "dvalue d \<noteq> None" by (auto simp: Decimal_String_def Decimal_string_def split: option.splits)
    let ?k = "nat (- dexp d)" and ?n = "nat \<bar>bigval d\<bar>"
    let ?fs = "trim_zeros (frac_digits ?k ?n)"
    have "t = sign_str (bigval d < 0) @ int_digits ?k ?n @ (if ?fs = [] then [] else ''.'' @ ?fs)"
      using False assms \<open>dvalue d \<noteq> None\<close> by (auto simp: Decimal_String_cases Let_def split: if_splits)
    then show ?thesis by (simp only: D [OF int_frac_digits(1,3)] not_False_eq_True)
  qed
qed

text \<open>
  What \<^verbatim>\<open>Value\<close> sends to the database, \<^verbatim>\<open>Scan\<close> reads back as a decimal of the same value: the
  trailing zeros that \<^verbatim>\<open>String\<close> drops and the unquoting in \<^verbatim>\<open>Scan\<close> lose nothing.
\<close>

theorem Decimal_Scan_Value:
  assumes "dvalue d \<noteq> None \<or> 0 \<le> dexp d" "wf_decimal d"
  shows "\<exists>t d'. Decimal_Value d = Some t \<and> Decimal_Scan t = Inr d' \<and> dec_val d' = dec_val d"
proof -
  from Decimal_String_parse [OF assms] obtain t d' where
    t: "Decimal_String d = Some t" "Decimal_NewFromString t = Inr d'" "dec_val d' = dec_val d"
    by blast
  from Decimal_String_hd [OF t(1)] have "unquoteIfQuoted t = t" by (simp add: unquote_plain)
  with t show ?thesis by (auto simp: Decimal_Value_def Decimal_Scan_def)
qed

lemmas decimal_eval [go_eval] =
  Decimal_New_def Decimal_NewFromInt_def Decimal_Zero_def Decimal_nil_def bigval_def
  ensureInitialized_def rescale_def RescalePair_def Decimal_Add_def Decimal_Sub_def Decimal_Neg_def
  big_cmp_def Decimal_Cmp_def Decimal_Equal_def Decimal_LessThan_def Decimal_Sign_def
  Decimal_IsPositive_def Decimal_IsZero_def Decimal_Round_def wrap32_def go_quo_def
  split_exponent_def parse_coefficient_def Decimal_NewFromString_def trim_zeros_def
  int_digits_def frac_digits_def Decimal_string_def Decimal_String_def Decimal_StringFixed_def
  unquoteIfQuoted_def Decimal_Value_def Decimal_Scan_def

subsection \<open>Witnesses\<close>

theorem Decimal_Round_nearest_witness:
  "places_ok 4 \<and> Decimal_Round (Decimal_New (-1234550) (-7)) 4 = Decimal_New (-1235) (-4) \<and>
   2 * \<bar>dec_val (Decimal_Round (Decimal_New (-1234550) (-7)) 4) - dec_val (Decimal_New (-1234550) (-7))\<bar>
     \<le> 10 powi (- 4)"
proof -
  have p: "places_ok 4" by (simp add: places_ok_def)
  have "Decimal_Round (Decimal_New (-1234550) (-7)) 4 = Decimal_New (-1235) (-4)" by (simp add: go_eval)
  with p Decimal_Round_nearest [OF p, of "Decimal_New (-1234550) (-7)"] show ?thesis by blast
qed

theorem Decimal_string_roundtrip_witness:
  "the (Decimal_string False (Decimal_New (-5) (-4))) = ''-0.0005'' \<and>
   Decimal_NewFromString (the (Decimal_string False (Decimal_New (-5) (-4)))) = Inr (Decimal_New (-5) (-4))"
proof -
  have "the (Decimal_string False (Decimal_New (-5) (-4))) = ''-0.0005''" by (simp add: go_eval)
  then show ?thesis
    using Decimal_string_roundtrip [of "Decimal_New (-5) (-4)" "-5"]
    by (simp add: Decimal_New_def wf_decimal_def int32_range_def)
qed

theorem Decimal_Scan_Value_witness:
  "Decimal_Value (Decimal_New 1005000 (-4)) = Some ''100.5'' \<and>
   (\<exists>d'. Decimal_Scan ''100.5'' = Inr d' \<and> dec_val d' = dec_val (Decimal_New 1005000 (-4)))"
proof -
  have "Decimal_Value (Decimal_New 1005000 (-4)) = Some ''100.5''" by (simp add: go_eval)
  then show ?thesis
    using Decimal_Scan_Value [of "Decimal_New 1005000 (-4)"]
    by (simp add: Decimal_New_def wf_decimal_def int32_range_def)
qed

end
