(* ===== verification/Money.thy ===== *)
theory Money
  imports Decimal
begin

text \<open>
  Package \<^verbatim>\<open>internal/money\<close> (\<^verbatim>\<open>money.go\<close>): an amount is a decimal kept at four places, the scale
  of the \<^verbatim>\<open>NUMERIC(20,4)\<close> columns. \<open>money_ok\<close> is the scale invariant that the constructors
  establish, \<open>units\<close> the amount counted in ten-thousandths. The locale \<open>fixed_point\<close> is the
  contract the ledger relies on; it is interpreted on the functions of this package.
\<close>

subsection \<open>The type and its functions\<close>

record Money =
  mdec :: Decimal

text \<open>The zero value \<^verbatim>\<open>Money{}\<close>.\<close>

definition Money_zero_value :: Money where
  "Money_zero_value = \<lparr>mdec = Decimal_nil\<rparr>"

datatype money_error = FromStringError dec_error

definition FromString :: "string \<Rightarrow> money_error + Money" where
  "FromString s =
     (case Decimal_NewFromString s of
        Inl err \<Rightarrow> Inl (FromStringError err)
      | Inr d \<Rightarrow> Inr \<lparr>mdec = Decimal_Round d 4\<rparr>)"

definition FromInt :: "int \<Rightarrow> Money" where
  "FromInt n = \<lparr>mdec = Decimal_Round (Decimal_NewFromInt n) 4\<rparr>"

definition Money_Zero :: Money where
  "Money_Zero = \<lparr>mdec = Decimal_Round Decimal_Zero 4\<rparr>"

definition Money_Add :: "Money \<Rightarrow> Money \<Rightarrow> Money" where
  "Money_Add m other = \<lparr>mdec = Decimal_Round (Decimal_Add (mdec m) (mdec other)) 4\<rparr>"

definition Money_Sub :: "Money \<Rightarrow> Money \<Rightarrow> Money" where
  "Money_Sub m other = \<lparr>mdec = Decimal_Round (Decimal_Sub (mdec m) (mdec other)) 4\<rparr>"

definition Money_Neg :: "Money \<Rightarrow> Money" where
  "Money_Neg m = \<lparr>mdec = Decimal_Round (Decimal_Neg (mdec m)) 4\<rparr>"

definition Money_IsPositive :: "Money \<Rightarrow> bool" where
  "Money_IsPositive m = Decimal_IsPositive (mdec m)"

definition Money_IsZero :: "Money \<Rightarrow> bool" where
  "Money_IsZero m = Decimal_IsZero (mdec m)"

definition Money_LessThan :: "Money \<Rightarrow> Money \<Rightarrow> bool" where
  "Money_LessThan m other = Decimal_LessThan (mdec m) (mdec other)"

definition Money_Equal :: "Money \<Rightarrow> Money \<Rightarrow> bool" where
  "Money_Equal m other = Decimal_Equal (mdec m) (mdec other)"

definition Money_String :: "Money \<Rightarrow> string option" where
  "Money_String m = Decimal_StringFixed (mdec m) 4"

definition Money_Decimal :: "Money \<Rightarrow> Decimal" where
  "Money_Decimal m = mdec m"

definition NewFromDecimal :: "Decimal \<Rightarrow> Money" where
  "NewFromDecimal d = \<lparr>mdec = Decimal_Round d 4\<rparr>"

definition Money_MarshalJSON :: "Money \<Rightarrow> string option" where
  "Money_MarshalJSON m = map_option (\<lambda>s. [CHR 0x22] @ s @ [CHR 0x22]) (Money_String m)"

definition Money_UnmarshalJSON :: "string \<Rightarrow> money_error + Money" where
  "Money_UnmarshalJSON b =
     (let s = (if 2 \<le> length b \<and> b ! 0 = CHR 0x22 \<and> b ! (length b - 1) = CHR 0x22
               then drop 1 (take (length b - 1) b) else b)
      in FromString s)"

subsection \<open>The scale invariant and the amount in units\<close>

definition money_ok :: "Money \<Rightarrow> bool" where
  "money_ok m \<longleftrightarrow> dexp (mdec m) = - 4 \<and> dvalue (mdec m) \<noteq> None"

definition units :: "Money \<Rightarrow> int" where
  "units m = bigval (mdec m)"

text \<open>The amount with the given number of ten-thousandths.\<close>

definition of_units :: "int \<Rightarrow> Money" where
  "of_units u = \<lparr>mdec = \<lparr>dvalue = Some u, dexp = - 4\<rparr>\<rparr>"

lemma places4 [simp]: "places_ok 4"
  by (simp add: places_ok_def)

lemma units_of_units [simp]: "units (of_units u) = u"
  by (simp add: units_def of_units_def)

lemma money_ok_of_units [simp]: "money_ok (of_units u)"
  by (simp add: money_ok_def of_units_def)

lemma money_ok_eq: "money_ok m \<longleftrightarrow> m = of_units (units m)"
  by (cases m, cases "mdec m") (auto simp: money_ok_def of_units_def units_def bigval_def)

lemma money_ok_Round: "dvalue d \<noteq> None \<or> dexp d \<noteq> - 4 \<Longrightarrow> money_ok \<lparr>mdec = Decimal_Round d 4\<rparr>"
  by (auto simp: money_ok_def Decimal_Round_eq)

text \<open>An amount as a rational is its units over ten thousand.\<close>

lemma dec_val_units: "money_ok m \<Longrightarrow> dec_val (mdec m) = of_int (units m) / 10000"
  by (simp add: money_ok_def dec_val_def units_def power_int_minus)

lemma units_eqI:
  assumes "dexp d = - 4" "dec_val d = of_int u / 10000"
  shows "bigval d = u"
  using assms by (simp add: dec_val_def power_int_minus)

lemma NewFromString_init: "Decimal_NewFromString s = Inr d \<Longrightarrow> dvalue d \<noteq> None"
  by (auto simp: Decimal_NewFromString_def Let_def split: sum.splits prod.splits option.splits if_splits)

text \<open>The two amounts an operand can be in the program: a scaled amount or the zero value.\<close>

definition money_like :: "Money \<Rightarrow> bool" where
  "money_like m \<longleftrightarrow> money_ok m \<or> m = Money_zero_value"

lemma dec_val_like: "money_like m \<Longrightarrow> dec_val (mdec m) = of_int (units m) / 10000"
  unfolding money_like_def
  by (elim disjE, simp add: dec_val_units)
     (simp add: Money_zero_value_def units_def dec_val_def Decimal_nil_def)

lemma money_ok_like [simp]: "money_ok m \<Longrightarrow> money_like m"
  by (simp add: money_like_def)

lemma money_like_exp: "money_like m \<Longrightarrow> - 4 \<le> dexp (mdec m)"
  by (auto simp: money_like_def money_ok_def Money_zero_value_def Decimal_nil_def)

lemma Round_exact_units:
  assumes "- 4 \<le> dexp d" "dec_val d = of_int u / 10000"
  shows "units \<lparr>mdec = Decimal_Round d 4\<rparr> = u"
proof -
  have "bigval (Decimal_Round d 4) = u"
    using assms dec_val_Round_exact [of 4 d] by (intro units_eqI) simp_all
  then show ?thesis by (simp add: units_def)
qed

lemma Money_ops_units:
  assumes "money_like a" "money_like b"
  shows "units (Money_Add a b) = units a + units b" "units (Money_Sub a b) = units a - units b"
proof -
  note v = dec_val_like [OF assms(1)] dec_val_like [OF assms(2)]
  note e = money_like_exp [OF assms(1)] money_like_exp [OF assms(2)]
  show "units (Money_Add a b) = units a + units b"
    unfolding Money_Add_def
    by (rule Round_exact_units) (use v e in \<open>simp_all add: dec_val_Add dexp_Add_Sub add_divide_distrib\<close>)
  show "units (Money_Sub a b) = units a - units b"
    unfolding Money_Sub_def
    by (rule Round_exact_units) (use v e in \<open>simp_all add: dec_val_Sub dexp_Add_Sub diff_divide_distrib\<close>)
qed

lemma units_Neg: "money_like a \<Longrightarrow> units (Money_Neg a) = - units a"
  unfolding Money_Neg_def
  by (rule Round_exact_units)
     (simp_all add: dec_val_Neg dec_val_like, simp add: Decimal_Neg_def money_like_exp)

lemma Money_ops_ok [simp]:
  "money_ok (Money_Add a b)" "money_ok (Money_Sub a b)" "money_ok (Money_Neg a)"
  unfolding Money_Add_def Money_Sub_def Money_Neg_def
  by (rule money_ok_Round, simp add: Decimal_Add_def Decimal_Sub_def Decimal_Neg_def split: prod.splits)+

lemma Money_cmp_units:
  assumes "money_like a" "money_like b"
  shows "Money_LessThan a b \<longleftrightarrow> units a < units b" "Money_Equal a b \<longleftrightarrow> units a = units b"
  by (simp_all add: Money_LessThan_def Money_Equal_def Decimal_LessThan_def Decimal_Equal_def
      Decimal_Cmp_exact dec_val_like assms divide_less_cancel)

lemma Money_sign_units:
  assumes "money_like a"
  shows "Money_IsPositive a \<longleftrightarrow> 0 < units a" "Money_IsZero a \<longleftrightarrow> units a = 0"
  by (simp_all add: Money_IsPositive_def Money_IsZero_def Decimal_IsPositive_val Decimal_IsZero_val
      dec_val_like assms zero_less_divide_iff)

lemma Money_constructors_ok:
  "FromString s = Inr m \<Longrightarrow> money_ok m" "money_ok (FromInt n)" "money_ok Money_Zero"
  "dvalue d \<noteq> None \<Longrightarrow> money_ok (NewFromDecimal d)"
  using NewFromString_init
  by (auto simp: FromString_def FromInt_def Money_Zero_def NewFromDecimal_def Decimal_NewFromInt_def
      Decimal_Zero_def Decimal_New_def intro!: money_ok_Round split: sum.splits)

lemma Money_UnmarshalJSON_ok: "Money_UnmarshalJSON b = Inr m \<Longrightarrow> money_ok m"
  by (auto simp: Money_UnmarshalJSON_def Let_def intro: Money_constructors_ok(1))

lemma units_constructors [simp]: "units (FromInt n) = n * 10000" "units Money_Zero = 0"
proof -
  show "units (FromInt n) = n * 10000"
    unfolding FromInt_def
    by (rule Round_exact_units) (simp_all add: Decimal_NewFromInt_def dec_val_def)
  show "units Money_Zero = 0"
    unfolding Money_Zero_def
    by (rule Round_exact_units) (simp_all add: Decimal_Zero_def Decimal_New_def dec_val_def)
qed

text \<open>A decimal that denotes a whole number of units becomes exactly that amount.\<close>

lemma NewFromDecimal_units:
  assumes "dec_val d = of_int u / 10000" "- 4 \<le> dexp d" "dvalue d \<noteq> None"
  shows "NewFromDecimal d = of_units u"
  using Round_exact_units [OF assms(2,1)] Money_constructors_ok(4) [OF assms(3)]
  by (simp add: NewFromDecimal_def money_ok_eq)

subsection \<open>The contract the ledger relies on\<close>

text \<open>
  A fixed-point amount type: operations that keep a well-formedness predicate and act on a
  count of units as the integer operations do.
\<close>

locale fixed_point =
  fixes ok :: "'m \<Rightarrow> bool" and count :: "'m \<Rightarrow> int"
    and add sub :: "'m \<Rightarrow> 'm \<Rightarrow> 'm" and less :: "'m \<Rightarrow> 'm \<Rightarrow> bool" and positive :: "'m \<Rightarrow> bool"
  assumes ok_add: "ok (add a b)" and ok_sub: "ok (sub a b)"
    and count_add: "ok a \<Longrightarrow> ok b \<Longrightarrow> count (add a b) = count a + count b"
    and count_sub: "ok a \<Longrightarrow> ok b \<Longrightarrow> count (sub a b) = count a - count b"
    and less_count: "ok a \<Longrightarrow> ok b \<Longrightarrow> less a b \<longleftrightarrow> count a < count b"
    and positive_count: "ok a \<Longrightarrow> positive a \<longleftrightarrow> 0 < count a"
    and count_inject: "ok a \<Longrightarrow> ok b \<Longrightarrow> count a = count b \<Longrightarrow> a = b"
begin

text \<open>Moving \<open>x\<close> from one balance to another keeps their sum.\<close>

lemma move_conserves:
  "ok a \<Longrightarrow> ok b \<Longrightarrow> ok x \<Longrightarrow> count (sub a x) + count (add b x) = count a + count b"
  by (simp add: count_add count_sub)

text \<open>The funds check: a balance that is not less than \<open>x\<close> stays non-negative when \<open>x\<close> is taken.\<close>

lemma covered_sub: "ok a \<Longrightarrow> ok x \<Longrightarrow> \<not> less a x \<Longrightarrow> 0 \<le> count (sub a x)"
  by (simp add: less_count count_sub)

text \<open>Taking and giving back, in either order, restores the balance itself.\<close>

lemma add_sub_cancel: "ok a \<Longrightarrow> ok x \<Longrightarrow> add (sub a x) x = a"
  by (rule count_inject) (simp_all add: ok_add ok_sub count_add count_sub)

lemma sub_add_cancel: "ok a \<Longrightarrow> ok x \<Longrightarrow> sub (add a x) x = a"
  by (rule count_inject) (simp_all add: ok_add ok_sub count_add count_sub)

end

lemma units_inject: "money_ok a \<Longrightarrow> money_ok b \<Longrightarrow> units a = units b \<Longrightarrow> a = b"
  by (metis money_ok_eq)

interpretation money: fixed_point money_ok units Money_Add Money_Sub Money_LessThan Money_IsPositive
  by unfold_locales (simp_all add: Money_ops_units Money_cmp_units Money_sign_units units_inject)

subsection \<open>Properties\<close>


lemma Money_String_parse:
  assumes "money_ok m"
  shows "\<exists>t. Money_String m = Some t \<and> FromString t = Inr m"
proof -
  let ?d = "mdec m"
  from assms obtain v where v: "dvalue ?d = Some v" "dexp ?d = - 4" by (auto simp: money_ok_def)
  have r: "Decimal_Round ?d 4 = ?d" using v by (simp add: Decimal_Round_eq)
  obtain t where t: "Money_String m = Some t" "t = the (Decimal_string False ?d)"
    using v by (simp add: Money_String_def Decimal_StringFixed_def r Decimal_string_shape)
  moreover have "FromString t = Inr m"
    using Decimal_string_parse_back [of ?d v] v r
    by (simp add: FromString_def t wf_decimal_def int32_range_def)
  ultimately show ?thesis by blast
qed

text \<open>
  C37: the text of an amount parses back to the same amount, and so does its JSON form.
\<close>

theorem Money_text_roundtrip:
  assumes "money_ok m"
  shows "\<exists>t j. Money_String m = Some t \<and> FromString t = Inr m \<and>
    Money_MarshalJSON m = Some j \<and> Money_UnmarshalJSON j = Inr m"
proof -
  obtain t where t: "Money_String m = Some t" "FromString t = Inr m" using Money_String_parse [OF assms] by blast
  moreover from t(2) have "Money_UnmarshalJSON ([CHR 0x22] @ t @ [CHR 0x22]) = Inr m"
    by (simp add: Money_UnmarshalJSON_def nth_append)
  ultimately show ?thesis by (simp add: Money_MarshalJSON_def)
qed

text \<open>
  C38: arithmetic and comparison of scaled amounts are exact: on the unit counts they are integer
  addition, subtraction, negation and order, and the results keep the scale invariant.
\<close>

theorem Money_arithmetic_exact:
  assumes "money_ok a" "money_ok b"
  shows "units (Money_Add a b) = units a + units b \<and> units (Money_Sub a b) = units a - units b \<and>
    units (Money_Neg a) = - units a \<and>
    money_ok (Money_Add a b) \<and> money_ok (Money_Sub a b) \<and> money_ok (Money_Neg a) \<and>
    (Money_LessThan a b \<longleftrightarrow> units a < units b) \<and> (Money_Equal a b \<longleftrightarrow> units a = units b) \<and>
    (Money_IsPositive a \<longleftrightarrow> 0 < units a) \<and> (Money_IsZero a \<longleftrightarrow> units a = 0)"
  using assms by (simp add: Money_ops_units units_Neg Money_cmp_units Money_sign_units)

subsection \<open>Witnesses\<close>

lemmas money_eval [go_eval] =
  FromString_def FromInt_def Money_Zero_def Money_Add_def Money_Sub_def Money_Neg_def
  Money_IsPositive_def Money_IsZero_def Money_LessThan_def Money_Equal_def Money_String_def
  Money_Decimal_def NewFromDecimal_def Money_MarshalJSON_def Money_UnmarshalJSON_def
  of_units_def units_def money_ok_def


theorem Money_text_roundtrip_witness:
  "money_ok (of_units 1005000) \<and> Money_String (of_units 1005000) = Some ''100.5000'' \<and>
   FromString ''100.5000'' = Inr (of_units 1005000)"
proof -
  have "Money_String (of_units 1005000) = Some ''100.5000''" by (simp add: go_eval)
  with Money_text_roundtrip [of "of_units 1005000"] show ?thesis by simp
qed

theorem Money_arithmetic_exact_witness:
  "money_ok (of_units 3) \<and> money_ok (of_units 5) \<and> Money_LessThan (of_units 3) (of_units 5) \<and>
   units (Money_Sub (of_units 3) (of_units 5)) = -2"
  using Money_arithmetic_exact [of "of_units 3" "of_units 5"] by simp

end
