(* ===== verification/UUID.thy ===== *)
theory UUID
  imports Go_Prelude "HOL-Library.List_Lexorder" "HOL-Library.Char_ord"
begin

unbundle bit_operations_syntax

text \<open>
  The vendored package \<^verbatim>\<open>vendor/github.com/google/uuid\<close>: parsing and printing of UUIDs
  (\<^verbatim>\<open>uuid.go\<close>, \<^verbatim>\<open>util.go\<close>), the random and time-ordered generators (\<^verbatim>\<open>version4.go\<close>,
  \<^verbatim>\<open>version7.go\<close>) and the database and text codecs (\<^verbatim>\<open>sql.go\<close>, \<^verbatim>\<open>marshal.go\<close>). A UUID is its
  sixteen bytes. Lemmas: the text form parses back, the generator of version 7 sets version and
  variant, and never returns the same UUID twice in one process.
\<close>

subsection \<open>Bytes and hexadecimal text\<close>

type_synonym byte = "8 word"
type_synonym UUID = "byte list"

text \<open>A UUID is an array of sixteen bytes.\<close>

definition wf_uuid :: "UUID \<Rightarrow> bool" where
  "wf_uuid u \<longleftrightarrow> length u = 16"

definition UUID_Nil :: UUID where
  "UUID_Nil = replicate 16 0"

text \<open>The table \<^verbatim>\<open>xvalues\<close>: the value of a hexadecimal digit, 255 for any other byte.\<close>

definition xvalues :: "char \<Rightarrow> byte" where
  "xvalues c =
     (let n = of_char c :: nat in
      if 48 \<le> n \<and> n \<le> 57 then of_nat (n - 48)
      else if 65 \<le> n \<and> n \<le> 70 then of_nat (n - 55)
      else if 97 \<le> n \<and> n \<le> 102 then of_nat (n - 87)
      else 255)"

definition xtob :: "char \<Rightarrow> char \<Rightarrow> byte \<times> bool" where
  "xtob x1 x2 =
     (let b1 = xvalues x1; b2 = xvalues x2
      in (push_bit 4 b1 OR b2, b1 \<noteq> 255 \<and> b2 \<noteq> 255))"

text \<open>\<^verbatim>\<open>hex.Encode\<close> of the standard library: two lower-case digits per byte.\<close>

definition hextable :: "byte \<Rightarrow> char" where
  "hextable w = (let n = unat w in if n < 10 then char_of (48 + n) else char_of (87 + n))"

definition hex_byte :: "byte \<Rightarrow> string" where
  "hex_byte b = [hextable (drop_bit 4 b), hextable (b AND 0x0F)]"

definition hex_Encode :: "byte list \<Rightarrow> string" where
  "hex_Encode bs = concat (map hex_byte bs)"

subsection \<open>Parsing and printing\<close>

datatype uuid_error = InvalidLength nat | InvalidPrefix string | InvalidFormat | RandError string

definition ascii_lower :: "char \<Rightarrow> char" where
  "ascii_lower c = (let n = of_char c :: nat in if 65 \<le> n \<and> n \<le> 90 then char_of (n + 32) else c)"

text \<open>
  \<^verbatim>\<open>strings.EqualFold\<close> against a lower-case ASCII text whose letters have no case variant outside
  ASCII, as \<^verbatim>\<open>urn:uuid:\<close> is.
\<close>

definition EqualFold_ascii :: "string \<Rightarrow> string \<Rightarrow> bool" where
  "EqualFold_ascii s t \<longleftrightarrow> map ascii_lower s = t"

text \<open>The loops of \<^verbatim>\<open>Parse\<close>: one byte per offset, stopping at the first bad pair.\<close>

fun parse_pairs :: "string \<Rightarrow> nat list \<Rightarrow> uuid_error + UUID" where
  "parse_pairs s [] = Inr []"
| "parse_pairs s (x # xs) =
     (case xtob (s ! x) (s ! (x + 1)) of (v, ok) \<Rightarrow>
        if \<not> ok then Inl InvalidFormat
        else (case parse_pairs s xs of Inl e \<Rightarrow> Inl e | Inr u \<Rightarrow> Inr (v # u)))"

definition parse_hyphenated :: "string \<Rightarrow> uuid_error + UUID" where
  "parse_hyphenated s =
     (if s ! 8 \<noteq> CHR ''-'' \<or> s ! 13 \<noteq> CHR ''-'' \<or> s ! 18 \<noteq> CHR ''-'' \<or> s ! 23 \<noteq> CHR ''-''
      then Inl InvalidFormat
      else parse_pairs s [0, 2, 4, 6, 9, 11, 14, 16, 19, 21, 24, 26, 28, 30, 32, 34])"

definition UUID_Parse :: "string \<Rightarrow> uuid_error + UUID" where
  "UUID_Parse s =
     (if length s = 36 then parse_hyphenated s
      else if length s = 36 + 9 then
        (if \<not> EqualFold_ascii (take 9 s) ''urn:uuid:'' then Inl (InvalidPrefix (take 9 s))
         else parse_hyphenated (drop 9 s))
      else if length s = 36 + 2 then parse_hyphenated (drop 1 s)
      else if length s = 32 then parse_pairs s (map (\<lambda>i. i * 2) [0..<16])
      else Inl (InvalidLength (length s)))"

text \<open>\<^verbatim>\<open>MustParse\<close> panics on an error: \<open>None\<close>.\<close>

definition UUID_MustParse :: "string \<Rightarrow> UUID option" where
  "UUID_MustParse s = (case UUID_Parse s of Inl _ \<Rightarrow> None | Inr u \<Rightarrow> Some u)"

text \<open>\<^verbatim>\<open>encodeHex\<close> and \<^verbatim>\<open>String\<close>.\<close>

definition encodeHex :: "UUID \<Rightarrow> string" where
  "encodeHex u =
     hex_Encode (take 4 u) @ ''-'' @ hex_Encode (take 2 (drop 4 u)) @ ''-'' @
     hex_Encode (take 2 (drop 6 u)) @ ''-'' @ hex_Encode (take 2 (drop 8 u)) @ ''-'' @
     hex_Encode (drop 10 u)"

definition UUID_String :: "UUID \<Rightarrow> string" where
  "UUID_String u = encodeHex u"

datatype Variant = Invalid | RFC4122 | Reserved | Microsoft | Future

definition UUID_Variant :: "UUID \<Rightarrow> Variant" where
  "UUID_Variant u =
     (if (u ! 8) AND 0xc0 = 0x80 then RFC4122
      else if (u ! 8) AND 0xe0 = 0xc0 then Microsoft
      else if (u ! 8) AND 0xe0 = 0xe0 then Future
      else Reserved)"

definition UUID_Version :: "UUID \<Rightarrow> byte" where
  "UUID_Version u = drop_bit 4 (u ! 6)"

text \<open>Database and text codecs: \<^verbatim>\<open>Value\<close>, \<^verbatim>\<open>Scan\<close> of a string, \<^verbatim>\<open>MarshalText\<close>, \<^verbatim>\<open>UnmarshalText\<close>.\<close>

definition UUID_Value :: "UUID \<Rightarrow> string" where
  "UUID_Value u = UUID_String u"

definition UUID_Scan :: "UUID \<Rightarrow> string \<Rightarrow> uuid_error + UUID" where
  "UUID_Scan old src = (if src = [] then Inr old else UUID_Parse src)"

subsection \<open>Generators\<close>

text \<open>
  \<^verbatim>\<open>NewRandomFromReader\<close>: \<open>rnd\<close> is what the random source yields for this call, its sixteen
  bytes or an error. The randomness pool is off unless a program enables it; this one does not.
\<close>

definition set_version4 :: "byte list \<Rightarrow> UUID" where
  "set_version4 b = b[6 := ((b ! 6) AND 0x0f) OR 0x40, 8 := ((b ! 8) AND 0x3f) OR 0x80]"

definition NewRandomFromReader :: "uuid_error + byte list \<Rightarrow> uuid_error + UUID" where
  "NewRandomFromReader rnd = (case rnd of Inl err \<Rightarrow> Inl err | Inr b \<Rightarrow> Inr (set_version4 b))"

text \<open>
  \<^verbatim>\<open>getV7Time\<close>: the last time returned is package state, \<open>nano\<close> the clock. The result is the
  milliseconds, the sequence number and the new state.
\<close>

definition getV7Time :: "int \<Rightarrow> int \<Rightarrow> (int \<times> int) \<times> int" where
  "getV7Time lastV7time nano =
     (let milli = go_quo nano 1000000;
          seq = (nano - milli * 1000000) div 2 ^ 8;
          now = milli * 2 ^ 12 + seq
      in if now \<le> lastV7time
         then let now = lastV7time + 1 in ((now div 2 ^ 12, now mod 2 ^ 12), now)
         else ((milli, seq), now))"

definition makeV7 :: "UUID \<Rightarrow> int \<times> int \<Rightarrow> UUID" where
  "makeV7 u ts =
     (case ts of (t, s) \<Rightarrow>
        u[0 := of_int (t div 2 ^ 40), 1 := of_int (t div 2 ^ 32), 2 := of_int (t div 2 ^ 24),
          3 := of_int (t div 2 ^ 16), 4 := of_int (t div 2 ^ 8), 5 := of_int t,
          6 := 0x70 OR (0x0F AND of_int (s div 2 ^ 8)), 7 := of_int s])"

definition UUID_NewV7 :: "int \<Rightarrow> int \<Rightarrow> uuid_error + byte list \<Rightarrow> (uuid_error + UUID) \<times> int" where
  "UUID_NewV7 lastV7time nano rnd =
     (case NewRandomFromReader rnd of
        Inl err \<Rightarrow> (Inl err, lastV7time)
      | Inr u \<Rightarrow> (case getV7Time lastV7time nano of (ts, last') \<Rightarrow> (Inr (makeV7 u ts), last')))"

text \<open>\<^verbatim>\<open>uuid.New\<close>: a random UUID, \<open>None\<close> when \<^verbatim>\<open>Must\<close> panics.\<close>

definition UUID_New :: "uuid_error + byte list \<Rightarrow> UUID option" where
  "UUID_New rnd = (case NewRandomFromReader rnd of Inl _ \<Rightarrow> None | Inr u \<Rightarrow> Some u)"

subsection \<open>The text form parses back\<close>

lemma UUID_Nil_eq: "UUID_Nil = [0, 0, 0, 0, 0, 0, 0, 0, 0, 0, 0, 0, 0, 0, 0, 0]"
  by (simp add: UUID_Nil_def numeral_eq_Suc)

lemma hextable_xvalues:
  assumes "unat w < 16"
  shows "xvalues (hextable w) = w" "xvalues (hextable w) \<noteq> 255"
proof -
  have "unat w \<in> set [0..<16]" using assms by simp
  then have "(of_nat (unat w) :: byte) \<in> of_nat ` set [0..<16]" by (rule imageI)
  then have "w \<in> of_nat ` set [0..<16]" by simp
  then show "xvalues (hextable w) = w" "xvalues (hextable w) \<noteq> 255"
    by (auto simp: xvalues_def hextable_def upt_rec)
qed

lemma nibbles:
  "unat (drop_bit 4 (b :: byte)) < 16" "unat (b AND 0x0F) < 16"
  "push_bit 4 (drop_bit 4 b) OR (b AND 0x0F) = b"
proof -
  have m: "b AND 0x0F = take_bit 4 b"
    by (simp add: take_bit_eq_mask mask_eq_exp_minus_1)
  have "unat b < 256" using unsigned_less [of b] by simp
  then show "unat (drop_bit 4 b) < 16"
    by (simp add: drop_bit_eq_div unat_div)
  show "unat (b AND 0x0F) < 16"
    by (simp add: m take_bit_eq_mod unat_mod)
  show "push_bit 4 (drop_bit 4 b) OR (b AND 0x0F) = b"
    unfolding m by (rule bit_eqI) (auto simp: bit_simps)
qed

lemma xtob_hex: "xtob (hextable (drop_bit 4 b)) (hextable (b AND 0x0F)) = (b, True)"
  using hextable_xvalues [OF nibbles(1) [of b]] hextable_xvalues [OF nibbles(2) [of b]] nibbles(3) [of b]
  by (simp add: xtob_def Let_def)

lemma length_16E:
  assumes "length u = 16"
  obtains a b c d e f g h i j k l m n p q where "u = [a, b, c, d, e, f, g, h, i, j, k, l, m, n, p, q]"
  using assms by (auto simp: length_Suc_conv numeral_eq_Suc)

lemma UUID_Parse_String: "wf_uuid u \<Longrightarrow> UUID_Parse (UUID_String u) = Inr u"
  unfolding wf_uuid_def
  by (erule length_16E)
    (simp add: UUID_String_def encodeHex_def hex_Encode_def hex_byte_def UUID_Parse_def
      parse_hyphenated_def xtob_hex)

lemma UUID_String_inject: "wf_uuid u \<Longrightarrow> wf_uuid v \<Longrightarrow> UUID_String u = UUID_String v \<longleftrightarrow> u = v"
  by (metis UUID_Parse_String sum.inject(2))

lemma parse_pairs_length: "parse_pairs s xs = Inr u \<Longrightarrow> length u = length xs"
  by (induction xs arbitrary: u) (auto split: prod.splits if_splits sum.splits)

lemma UUID_Parse_wf: "UUID_Parse s = Inr u \<Longrightarrow> wf_uuid u"
  by (auto simp del: parse_pairs.simps simp: UUID_Parse_def parse_hyphenated_def wf_uuid_def
      split: if_splits dest!: parse_pairs_length)

lemma length_UUID_String: "wf_uuid u \<Longrightarrow> length (UUID_String u) = 36"
  unfolding wf_uuid_def
  by (erule length_16E) (simp add: UUID_String_def encodeHex_def hex_Encode_def hex_byte_def)

lemma UUID_Scan_Value: "wf_uuid u \<Longrightarrow> UUID_Scan old (UUID_Value u) = Inr u"
  using length_UUID_String [of u] by (auto simp: UUID_Scan_def UUID_Value_def UUID_Parse_String)

subsection \<open>Version and variant of generated identifiers\<close>

lemma nibble_or:
  "(0x70 OR (0x0F AND w)) AND 0x0F = (0x0F AND w :: byte)"
  "drop_bit 4 (0x70 OR (0x0F AND w) :: byte) = 7"
  "((w AND 0x3f) OR 0x80) AND 0xc0 = (0x80 :: byte)"
  "drop_bit 4 ((w AND 0x0f) OR 0x40 :: byte) = 4"
  by (simp_all add: bit.conj_disj_distrib bit.conj_disj_distrib2 and.assoc and.left_commute and.commute)

lemma NewRandomFromReader_version:
  "length b = 16 \<Longrightarrow> NewRandomFromReader (Inr b) = Inr u \<Longrightarrow>
    wf_uuid u \<and> UUID_Version u = 4 \<and> UUID_Variant u = RFC4122"
  by (auto simp: NewRandomFromReader_def set_version4_def wf_uuid_def UUID_Version_def
      UUID_Variant_def nibble_or)

lemma NewV7_version:
  "length b = 16 \<Longrightarrow> UUID_NewV7 l0 nano (Inr b) = (Inr u, l1) \<Longrightarrow>
    wf_uuid u \<and> UUID_Version u = 7 \<and> UUID_Variant u = RFC4122"
  by (auto simp: UUID_NewV7_def NewRandomFromReader_def set_version4_def makeV7_def wf_uuid_def
      UUID_Version_def UUID_Variant_def nibble_or split: prod.splits)

subsection \<open>Time-ordered identifiers never repeat\<close>

text \<open>The time and sequence number held in the first eight bytes.\<close>

fun be_val :: "byte list \<Rightarrow> int" where
  "be_val [] = 0"
| "be_val (b # bs) = uint b * 256 ^ length bs + be_val bs"

definition v7_time :: "UUID \<Rightarrow> int" where
  "v7_time u = be_val (take 6 u) * 2 ^ 12 + uint ((u ! 6) AND 0x0F) * 256 + uint (u ! 7)"

lemma uint_of_int_byte: "uint (of_int x :: byte) = x mod 256"
  by (simp add: unsigned_of_int take_bit_eq_mod)

lemma split_byte: "(x :: int) = x div 256 * 256 + x mod 256"
  by simp

lemma be_bytes:
  assumes "0 \<le> t" "t < 2 ^ 48"
  shows "((((t div 2 ^ 40 mod 256 * 256 + t div 2 ^ 32 mod 256) * 256 + t div 2 ^ 24 mod 256) * 256
    + t div 2 ^ 16 mod 256) * 256 + t div 2 ^ 8 mod 256) * 256 + t mod 256 = (t :: int)"
proof -
  have dd: "t div 2 ^ 40 = t div 2 ^ 32 div 256" "t div 2 ^ 32 = t div 2 ^ 24 div 256"
    "t div 2 ^ 24 = t div 2 ^ 16 div 256" "t div 2 ^ 16 = t div 2 ^ 8 div 256"
    "t div 2 ^ 8 = t div 256"
    by (simp_all add: zdiv_zmult2_eq [symmetric])
  have top: "t div 2 ^ 40 mod 256 = t div 2 ^ 40"
    using assms by simp
  show ?thesis unfolding top by (subst dd(1), subst div_mult_mod_eq, subst dd(2), subst div_mult_mod_eq,
      subst dd(3), subst div_mult_mod_eq, subst dd(4), subst div_mult_mod_eq, subst dd(5), subst div_mult_mod_eq) simp
qed

lemma v7_time_makeV7:
  assumes "length u = 16" "0 \<le> t" "t < 2 ^ 48" "0 \<le> s" "s < 2 ^ 12"
  shows "v7_time (makeV7 u (t, s)) = t * 2 ^ 12 + s"
proof -
  have n: "uint (0x0F AND (of_int (s div 256) :: byte)) = s div 256"
  proof -
    have "0x0F AND (of_int (s div 256) :: byte) = take_bit 4 (of_int (s div 256))"
      by (simp add: take_bit_eq_mask mask_eq_exp_minus_1 and.commute)
    then show ?thesis using assms
      by (simp add: take_bit_eq_mod uint_mod uint_of_int_byte mod_mod_cancel)
  qed
  show ?thesis
    using assms(1) be_bytes [OF assms(2, 3)]
    by (elim length_16E)
      (simp add: makeV7_def v7_time_def nibble_or n uint_of_int_byte algebra_simps)
qed

lemma getV7Time_spec:
  assumes "0 \<le> l0" "l0 < 2 ^ 59" "0 \<le> nano" "nano < 2 ^ 63"
    and "getV7Time l0 nano = ((t, s), l1)"
  shows "l0 < l1" "l1 = t * 2 ^ 12 + s" "0 \<le> t" "t < 2 ^ 48" "0 \<le> s" "s < 2 ^ 12"
    "l1 \<le> max (l0 + 1) (2 ^ 56)"
proof -
  define m where "m = nano div 1000000"
  define r where "r = nano mod 1000000"
  have mr: "0 \<le> m" "m < 9300000000000" "0 \<le> r" "r < 1000000" "nano - m * 1000000 = r"
    using assms(3, 4) by (simp_all add: m_def r_def minus_div_mult_eq_mod)
  have rq: "0 \<le> r div 256" "r div 256 < 4096" using mr(3, 4) by simp_all
  have lq: "0 \<le> (l0 + 1) div 4096" "(l0 + 1) div 4096 < 2 ^ 48" "0 \<le> (l0 + 1) mod 4096"
    "(l0 + 1) mod 4096 < 4096" "(l0 + 1) div 4096 * 4096 + (l0 + 1) mod 4096 = l0 + 1"
    using assms(1, 2) by simp_all
  have q: "go_quo nano 1000000 = m" using assms(3) by (simp add: go_quo_nonneg m_def)
  show "l0 < l1" "l1 = t * 2 ^ 12 + s" "0 \<le> t" "t < 2 ^ 48" "0 \<le> s" "s < 2 ^ 12"
    "l1 \<le> max (l0 + 1) (2 ^ 56)"
    using assms(5) mr rq lq
    by (auto simp: getV7Time_def Let_def q split: if_splits)
qed

text \<open>A process that calls \<^verbatim>\<open>NewV7\<close> again and again: the identifiers it gets, failed calls left out.\<close>

fun NewV7_run :: "int \<Rightarrow> (int \<times> (uuid_error + byte list)) list \<Rightarrow> UUID list" where
  "NewV7_run l0 [] = []"
| "NewV7_run l0 ((nano, rnd) # calls) =
     (case UUID_NewV7 l0 nano rnd of
        (Inl _, l1) \<Rightarrow> NewV7_run l1 calls
      | (Inr u, l1) \<Rightarrow> u # NewV7_run l1 calls)"

definition call_ok :: "int \<times> (uuid_error + byte list) \<Rightarrow> bool" where
  "call_ok c \<longleftrightarrow> 0 \<le> fst c \<and> fst c < 2 ^ 63 \<and> (case snd c of Inl _ \<Rightarrow> True | Inr b \<Rightarrow> length b = 16)"

lemma UUID_NewV7_spec:
  assumes "0 \<le> l0" "l0 < 2 ^ 59" "call_ok (nano, rnd)" "UUID_NewV7 l0 nano rnd = (r, l1)"
  shows "case r of Inl _ \<Rightarrow> l1 = l0
    | Inr u \<Rightarrow> wf_uuid u \<and> l0 < l1 \<and> v7_time u = l1 \<and> l1 \<le> max (l0 + 1) (2 ^ 56)"
proof (cases rnd)
  case (Inl e)
  with assms(4) show ?thesis by (auto simp: UUID_NewV7_def NewRandomFromReader_def)
next
  case (Inr b)
  obtain t s l2 where g: "getV7Time l0 nano = ((t, s), l2)" by (metis prod.exhaust)
  have n: "0 \<le> nano" "nano < 2 ^ 63" and b: "length (set_version4 b) = 16"
    using assms(3) Inr by (auto simp: call_ok_def set_version4_def)
  note sp = getV7Time_spec [OF assms(1, 2) n g]
  have "r = Inr (makeV7 (set_version4 b) (t, s))" "l1 = l2"
    using assms(4) Inr g by (auto simp: UUID_NewV7_def NewRandomFromReader_def)
  moreover have "wf_uuid (makeV7 (set_version4 b) (t, s))"
    using b by (simp add: wf_uuid_def makeV7_def)
  ultimately show ?thesis
    using sp v7_time_makeV7 [OF b sp(3-6)] by simp
qed

lemma NewV7_run_increasing:
  assumes "\<forall>c\<in>set calls. call_ok c" "0 \<le> l0" "l0 < 2 ^ 56 + k" "k + int (length calls) < 2 ^ 58" "0 \<le> k"
  shows "sorted_wrt (<) (map v7_time (NewV7_run l0 calls)) \<and>
    (\<forall>u\<in>set (NewV7_run l0 calls). l0 < v7_time u)"
  using assms
proof (induction calls arbitrary: l0 k)
  case (Cons c calls)
  obtain nano rnd where c: "c = (nano, rnd)" by (cases c)
  obtain r l1 where r: "UUID_NewV7 l0 nano rnd = (r, l1)" by (cases "UUID_NewV7 l0 nano rnd")
  have "l0 < 2 ^ 59" "call_ok (nano, rnd)" using Cons.prems c by auto
  note sp = UUID_NewV7_spec [OF Cons.prems(2) this r]
  show ?case
  proof (cases r)
    case (Inl e)
    with sp Cons.IH [of l0 k] Cons.prems c r show ?thesis by simp
  next
    case (Inr u)
    with sp Cons.prems have "0 \<le> l1" "l1 < 2 ^ 56 + (k + 1)" by auto
    with Cons.IH [of l1 "k + 1"] Cons.prems have
      "sorted_wrt (<) (map v7_time (NewV7_run l1 calls)) \<and> (\<forall>u\<in>set (NewV7_run l1 calls). l1 < v7_time u)"
      by simp
    with sp Inr c r show ?thesis by auto
  qed
qed simp

text \<open>Evaluation on closed text.\<close>

lemmas uuid_eval [go_eval] =
  UUID_Parse_def UUID_MustParse_def parse_hyphenated_def xtob_def xvalues_def ascii_lower_def
  EqualFold_ascii_def UUID_String_def encodeHex_def hex_Encode_def hex_byte_def hextable_def

text \<open>
  The text form of a UUID parses back to the same UUID, so no two UUIDs share a text form, the
  column codecs agree with it, and whatever \<^verbatim>\<open>Parse\<close> accepts is a full UUID of sixteen bytes.
\<close>

theorem UUID_text_roundtrip:
  assumes "wf_uuid u" "UUID_Parse s = Inr v"
  shows "UUID_Parse (UUID_String u) = Inr u \<and> UUID_Scan old (UUID_Value u) = Inr u \<and>
    wf_uuid v \<and> UUID_Parse (UUID_String v) = Inr v \<and> (UUID_String u = UUID_String v \<longleftrightarrow> u = v)"
  using assms UUID_Parse_String UUID_Scan_Value UUID_Parse_wf UUID_String_inject by blast

theorem UUID_text_roundtrip_witness:
  "UUID_Parse ''00000000-0000-0000-0000-0000000000A1'' = Inr (UUID_Nil[15 := 0xa1]) \<and>
   UUID_Parse (UUID_String (UUID_Nil[15 := 0xa1])) = Inr (UUID_Nil[15 := 0xa1])"
proof -
  have "UUID_Parse ''00000000-0000-0000-0000-0000000000A1'' = Inr (UUID_Nil[15 := 0xa1])"
    by (simp add: go_eval UUID_Nil_eq)
  with UUID_text_roundtrip [of UUID_Nil "''00000000-0000-0000-0000-0000000000A1''" "UUID_Nil[15 := 0xa1]"]
  show ?thesis by (simp add: wf_uuid_def UUID_Nil_def)
qed

text \<open>
  C40: within one process \<^verbatim>\<open>NewV7\<close> never returns the same identifier twice: whatever the clock
  reads (it may stand still or go back), the embedded times of successive identifiers strictly
  increase.
\<close>

theorem NewV7_distinct:
  assumes "\<forall>c\<in>set calls. call_ok c" "0 \<le> l0" "l0 < 2 ^ 56" "length calls < 2 ^ 57"
  shows "sorted_wrt (\<lambda>u v. v7_time u < v7_time v) (NewV7_run l0 calls) \<and> distinct (NewV7_run l0 calls)"
proof -
  have "int (length calls) < 2 ^ 57" using assms(4) by simp
  then have "sorted_wrt (<) (map v7_time (NewV7_run l0 calls))"
    using NewV7_run_increasing [OF assms(1, 2), of 0] assms(3) by simp
  moreover from this have "distinct (NewV7_run l0 calls)"
    by (simp add: strict_sorted_iff distinct_map)
  ultimately show ?thesis by (simp add: sorted_wrt_map)
qed

theorem NewV7_distinct_witness:
  "sorted_wrt (\<lambda>u v. v7_time u < v7_time v)
     (NewV7_run 0 [(1700000000000000000, Inr UUID_Nil), (1600000000000000000, Inr UUID_Nil)]) \<and>
   distinct (NewV7_run 0 [(1700000000000000000, Inr UUID_Nil), (1600000000000000000, Inr UUID_Nil)])"
  by (rule NewV7_distinct) (simp_all add: call_ok_def UUID_Nil_def)

end
