(* ===== verification/Numeric.thy ===== *)
theory Numeric
  imports Money UUID
begin

text \<open>
  The NUMERIC codec of the PostgreSQL driver, \<^verbatim>\<open>vendor/github.com/jackc/pgx/v5/pgtype/numeric.go\<close>:
  how a balance or amount column reaches the program. The server sends the binary form, the codec
  decodes it (\<^verbatim>\<open>scanPlanBinaryNumericToNumericScanner.Scan\<close>), prints it
  (\<^verbatim>\<open>encodeNumericText\<close>), \<^verbatim>\<open>decimal.Decimal.Scan\<close> parses the text and
  \<^verbatim>\<open>money.NewFromDecimal\<close> makes it money. The lemmas show that this chain reads exactly the number
  the column holds.
\<close>

subsection \<open>The value\<close>

datatype InfinityModifier = NegativeInfinity | Finite | Infinity

record Numeric =
  nInt :: "int option"
  nExp :: int
  nNaN :: bool
  nInf :: InfinityModifier
  nValid :: bool

definition Numeric_zero :: Numeric where
  "Numeric_zero = \<lparr>nInt = None, nExp = 0, nNaN = False, nInf = Finite, nValid = False\<rparr>"

definition Numeric_number :: "int \<Rightarrow> int \<Rightarrow> Numeric" where
  "Numeric_number i e = \<lparr>nInt = Some i, nExp = e, nNaN = False, nInf = Finite, nValid = True\<rparr>"

datatype num_scan_error = NumericIncomplete | NumericNeverReturns

subsection \<open>The binary form\<close>

text \<open>\<^verbatim>\<open>binary.BigEndian.Uint16\<close> at an offset, and its reading as a signed number.\<close>

definition be16 :: "byte list \<Rightarrow> nat \<Rightarrow> nat" where
  "be16 src i = unat (src ! i) * 256 + unat (src ! (i + 1))"

definition int16 :: "nat \<Rightarrow> int" where
  "int16 n = (if n < 2 ^ 15 then int n else int n - 2 ^ 16)"

text \<open>At most four base-10000 digits at a time: their value, the bytes and the digits read.\<close>

definition nbaseDigitsToInt64 :: "byte list \<Rightarrow> int \<times> nat \<times> nat" where
  "nbaseDigitsToInt64 src =
     (let digits = min (length src div 2) 4
      in (fold (\<lambda>i accum. (if i > 0 then accum * 10000 else accum) + int (be16 src (2 * i))) [0..<digits] 0,
          2 * digits, digits))"

text \<open>The loop over the groups of four digits.\<close>

fun accum_groups :: "nat \<Rightarrow> nat \<Rightarrow> byte list \<Rightarrow> int \<Rightarrow> int" where
  "accum_groups 0 i src accum = accum"
| "accum_groups (Suc n) i src accum =
     (case nbaseDigitsToInt64 src of (int64accum, bytesRead, digitsRead) \<Rightarrow>
        accum_groups n (i + 1) (drop bytesRead src)
          ((if i > 0 then accum * 10000 ^ digitsRead else accum) + int64accum))"

text \<open>
  The last loop moves trailing zeros into the exponent. For a zero coefficient it would never end;
  that is the value \<open>None\<close>.
\<close>

function strip_zeros :: "int \<Rightarrow> int \<Rightarrow> (int \<times> int) option" where
  "strip_zeros a e =
     (if a = 0 then None else if a mod 10 \<noteq> 0 then Some (a, e) else strip_zeros (a div 10) (e + 1))"
  by pat_completeness auto
termination
proof (relation "measure (\<lambda>(a, e). nat \<bar>a\<bar>)", goal_cases)
  case (2 a e)
  then obtain k where "a = 10 * k" by (auto elim: dvdE)
  with 2 show ?case by auto
qed simp

declare strip_zeros.simps [simp del]

text \<open>\<^verbatim>\<open>scanPlanBinaryNumericToNumericScanner.Scan\<close>; a NULL column is \<open>None\<close>.\<close>

definition Numeric_binary_Scan :: "byte list option \<Rightarrow> num_scan_error + Numeric" where
  "Numeric_binary_Scan srco =
     (case srco of
        None \<Rightarrow> Inr Numeric_zero
      | Some src \<Rightarrow>
          if length src < 8 then Inl NumericIncomplete
          else
            let ndigits = be16 src 0; weight = int16 (be16 src 2);
                sign = be16 src 4; dscale = int16 (be16 src 6); rest = drop 8 src
            in if sign = 0xc000 then Inr (Numeric_zero\<lparr>nNaN := True, nValid := True\<rparr>)
               else if sign = 0xd000 then Inr (Numeric_zero\<lparr>nInf := Infinity, nValid := True\<rparr>)
               else if sign = 0xf000 then Inr (Numeric_zero\<lparr>nInf := NegativeInfinity, nValid := True\<rparr>)
               else if ndigits = 0 then Inr (Numeric_number 0 0)
               else if length rest < ndigits * 2 then Inl NumericIncomplete
               else
                 let accum = accum_groups ((ndigits + 3) mod 2 ^ 16 div 4) 0 rest 0;
                     exp = (weight - int ndigits + 1) * 4;
                     frac = (int ndigits - weight - 1) * 4;
                     (accum, exp) =
                       (if dscale > 0 then
                          (if dscale > frac then (accum * 10 ^ nat (dscale - frac), exp - (dscale - frac))
                           else if dscale < frac then (accum div 10 ^ nat (frac - dscale), exp + (frac - dscale))
                           else (accum, exp))
                        else (accum, exp))
                 in case (if exp \<ge> 0 then strip_zeros accum exp else Some (accum, exp)) of
                      None \<Rightarrow> Inl NumericNeverReturns
                    | Some (accum, exp) \<Rightarrow>
                        Inr (Numeric_number (if sign \<noteq> 0 then - accum else accum) exp))"

subsection \<open>The text form\<close>

definition numberTextBytes :: "Numeric \<Rightarrow> string" where
  "numberTextBytes n =
     (case nInt n of
        None \<Rightarrow> ''0''
      | Some i \<Rightarrow>
          let intStr = nat_str (nat \<bar>i\<bar>); exp = nExp n
          in sign_str (i < 0) @
             (if exp > 0 then intStr @ replicate (nat exp) (CHR ''0'')
              else if exp < 0 then
                (if int (length intStr) \<le> - exp
                 then ''0.'' @ replicate (nat (- exp) - length intStr) (CHR ''0'') @ intStr
                 else (let dpPos = nat (int (length intStr) + exp)
                       in take dpPos intStr @ ''.'' @ drop dpPos intStr))
              else intStr))"

definition encodeNumericText :: "Numeric \<Rightarrow> string option" where
  "encodeNumericText n =
     (if \<not> nValid n then None
      else if nNaN n then Some ''NaN''
      else if nInf n = Infinity then Some ''Infinity''
      else if nInf n = NegativeInfinity then Some ''-Infinity''
      else Some (numberTextBytes n))"

text \<open>\<^verbatim>\<open>NumericCodec.DecodeDatabaseSQLValue\<close> for a binary column: the text handed to a scanner, or NULL.\<close>

definition DecodeDatabaseSQLValue :: "byte list option \<Rightarrow> num_scan_error + string option" where
  "DecodeDatabaseSQLValue src =
     (case src of
        None \<Rightarrow> Inr None
      | Some _ \<Rightarrow> (case Numeric_binary_Scan src of Inl e \<Rightarrow> Inl e | Inr n \<Rightarrow> Inr (encodeNumericText n)))"

subsection \<open>Reading a balance\<close>

text \<open>
  The binary form the server documents for a value \<open>u\<close> of scale 4, counted in units of 1/10000:
  header (digit count, weight, sign, display scale), then base-10000 digits, the first of weight
  \<^verbatim>\<open>weight\<close>, with no zero digits after the last significant one.
\<close>

definition numeric_msg :: "int \<Rightarrow> byte list \<Rightarrow> bool" where
  "numeric_msg u src \<longleftrightarrow>
     (let n = be16 src 0; w = int16 (be16 src 2)
      in length src = 8 + 2 * n \<and> n \<le> 8 \<and> be16 src 4 = (if u < 0 then 0x4000 else 0) \<and> be16 src 6 = 4 \<and>
         (if u = 0 then n = 0
          else 0 < n \<and> int n - 2 \<le> w \<and>
            \<bar>u\<bar> = (\<Sum>i<n. int (be16 src (8 + 2 * i)) * 10000 ^ nat (w + 1 - int i))))"

text \<open>The digits of a byte string and their value in base 10000.\<close>

definition digs :: "byte list \<Rightarrow> int list" where
  "digs src = map (\<lambda>i. int (be16 src (2 * i))) [0..<length src div 2]"

abbreviation nbase_step :: "int \<Rightarrow> int \<Rightarrow> int" where
  "nbase_step \<equiv> \<lambda>a d. a * 10000 + d"

lemma nbase_step_foldl: "foldl nbase_step a ds = a * 10000 ^ length ds + foldl nbase_step 0 ds"
  by (induction ds rule: rev_induct) (simp_all add: algebra_simps)

lemma nbase_step_sum: "foldl nbase_step 0 ds = (\<Sum>i<length ds. ds ! i * 10000 ^ (length ds - 1 - i))"
proof (induction ds rule: rev_induct)
  case (snoc d ds)
  have "(\<Sum>i<length ds. ds ! i * 10000 ^ (length ds - i)) =
      (\<Sum>i<length ds. ds ! i * 10000 ^ (length ds - 1 - i)) * 10000"
    unfolding sum_distrib_right
    by (rule sum.cong) (auto simp: power_Suc2 [symmetric] Suc_diff_Suc simp del: power_Suc power_Suc2)
  with snoc show ?case by (simp add: nth_append)
qed simp

lemma be16_drop: "k \<le> length src \<Longrightarrow> be16 (drop k src) i = be16 src (k + i)"
  by (simp add: be16_def add.assoc)

lemma digs_drop: "2 * d \<le> length src \<Longrightarrow> digs (drop (2 * d) src) = drop d (digs src)"
  by (rule nth_equalityI) (auto simp: digs_def be16_drop)

lemma nbase_group:
  "nbaseDigitsToInt64 src =
    (foldl nbase_step 0 (take 4 (digs src)), 2 * min (length src div 2) 4, min (length src div 2) 4)"
proof -
  have F: "fold (\<lambda>i accum. (if i > 0 then accum * 10000 else accum) + int (be16 src (2 * i))) [0..<d] 0 =
      foldl nbase_step 0 (map (\<lambda>i. int (be16 src (2 * i))) [0..<d])" for d
    by (induction d) auto
  have "take 4 (digs src) = map (\<lambda>i. int (be16 src (2 * i))) [0..<min (length src div 2) 4]"
    by (cases "length src div 2 \<le> 4") (simp_all add: digs_def take_map min_def)
  with F [of "min (length src div 2) 4"] show ?thesis
    by (simp add: nbaseDigitsToInt64_def Let_def)
qed

lemma accum_groups_val:
  "(i = 0 \<longrightarrow> a = 0) \<Longrightarrow> accum_groups n i src a = foldl nbase_step a (take (4 * n) (digs src))"
proof (induction n arbitrary: i src a)
  case (Suc n)
  let ?d = "min (length src div 2) 4" and ?g = "take 4 (digs src)"
  have len: "length ?g = ?d" by (simp add: digs_def)
  have split: "take (4 * Suc n) (digs src) = ?g @ take (4 * n) (drop ?d (digs src))"
    by (cases "length src div 2 < 4") (auto simp: take_add digs_def)
  have d: "2 * ?d \<le> length src" by auto
  have "(if i > 0 then a * 10000 ^ ?d else a) + foldl nbase_step 0 ?g = foldl nbase_step a ?g"
    using Suc.prems nbase_step_foldl [of a ?g] len by auto
  then show ?case
    using Suc.IH [of "i + 1" _ "drop (2 * ?d) src"] digs_drop [OF d] split
    by (simp add: nbase_group)
qed simp

lemma Numeric_binary_Scan_msg:
  assumes "numeric_msg u src"
  shows "Numeric_binary_Scan (Some src) = Inr (if u = 0 then Numeric_number 0 0 else Numeric_number u (-4))"
proof (cases "u = 0")
  case True
  with assms show ?thesis
    by (simp add: numeric_msg_def Numeric_binary_Scan_def Let_def)
next
  case False
  define n w m where "n = be16 src 0" and "w = int16 (be16 src 2)" and "m = nat (w + 2 - int n)"
  have len: "length src = 8 + 2 * n" "n \<le> 8" "0 < n" and w: "w = int n - 2 + int m"
    and sign: "be16 src 4 = (if u < 0 then 0x4000 else 0)" and scale: "be16 src 6 = 4"
    and val: "\<bar>u\<bar> = (\<Sum>i<n. int (be16 src (8 + 2 * i)) * 10000 ^ nat (w + 1 - int i))"
    using assms False by (auto simp: numeric_msg_def n_def w_def m_def Let_def)
  let ?r = "drop 8 src"
  have ld: "length (digs ?r) = n" using len by (simp add: digs_def)
  have "n \<le> 4 * ((n + 3) mod 2 ^ 16 div 4)" using len(2) by simp
  then have "accum_groups ((n + 3) mod 2 ^ 16 div 4) 0 ?r 0 = foldl nbase_step 0 (digs ?r)"
    using ld by (simp add: accum_groups_val)
  also have "\<dots> = (\<Sum>i<n. int (be16 src (8 + 2 * i)) * 10000 ^ (n - 1 - i))"
    unfolding nbase_step_sum ld using len by (intro sum.cong) (auto simp: digs_def be16_drop)
  finally have S: "accum_groups ((n + 3) mod 2 ^ 16 div 4) 0 ?r 0 =
      (\<Sum>i<n. int (be16 src (8 + 2 * i)) * 10000 ^ (n - 1 - i))" .
  have E: "(10000 :: int) ^ nat (w + 1 - int i) = 10000 ^ (n - 1 - i) * 10000 ^ m" if "i < n" for i
  proof -
    have "nat (w + 1 - int i) = n - 1 - i + m" using that w by simp
    then show ?thesis by (simp only: power_add)
  qed
  have A: "accum_groups ((n + 3) mod 2 ^ 16 div 4) 0 ?r 0 * 10000 ^ m = \<bar>u\<bar>"
    unfolding S val sum_distrib_right
    by (rule sum.cong) (simp_all add: E mult.assoc del: One_nat_def)
  have P: "(10 :: int) ^ nat (int m * 4) = 10000 ^ m"
    by (simp add: nat_mult_distrib mult.commute [of m] power_mult)
  have nw: "int n - w - 1 = 1 - int m" "w - int n + 1 = int m - 1" "int16 4 = 4"
    using w by (simp_all add: int16_def)
  show ?thesis
  proof (cases "m = 0")
    case True
    then show ?thesis
      using False A len(3)
      by (simp add: Numeric_binary_Scan_def Let_def n_def [symmetric] w_def [symmetric] len(1) sign scale nw)
  next
    case m: False
    have "4 > (1 - int m) * 4" "4 - (1 - int m) * 4 = 4 * int m" "(int m - 1) * 4 - 4 * int m = -4" using m by auto
    then show ?thesis
      using False A P len(3)
      by (simp add: Numeric_binary_Scan_def Let_def n_def [symmetric] w_def [symmetric] len(1) sign scale nw)
  qed
qed

text \<open>What \<^verbatim>\<open>row.Scan\<close> leaves in a \<^verbatim>\<open>decimal.Decimal\<close> for a NUMERIC column.\<close>

datatype column_error = ColumnScan num_scan_error | ColumnNull | ColumnDecimal dec_error

definition scan_numeric :: "byte list option \<Rightarrow> column_error + Decimal" where
  "scan_numeric src =
     (case DecodeDatabaseSQLValue src of
        Inl e \<Rightarrow> Inl (ColumnScan e)
      | Inr None \<Rightarrow> Inl ColumnNull
      | Inr (Some t) \<Rightarrow> (case Decimal_Scan t of Inl e \<Rightarrow> Inl (ColumnDecimal e) | Inr d \<Rightarrow> Inr d))"

lemma numberTextBytes_fixed:
  "numberTextBytes (Numeric_number u (-4)) = the (Decimal_string False \<lparr>dvalue = Some u, dexp = -4\<rparr>)"
proof -
  have "nat (int L - 4) = L - 4" for L by simp
  then show ?thesis
    by (simp add: numberTextBytes_def Numeric_number_def Decimal_string_shape int_digits_def
        frac_digits_def Let_def)
qed

lemma Decimal_string_hd:
  assumes "dvalue d = Some v" "dexp d < 0"
  shows "hd (the (Decimal_string False d)) \<noteq> CHR 0x22"
proof -
  have "hd (int_digits k n) \<noteq> CHR 0x22" for k n
    using digits_val_hd [OF int_frac_digits(1) [of k n]] int_frac_digits(3) [of k n]
    by (auto simp: digit_val_def hd_append)
  with int_frac_digits(3) show ?thesis
    by (simp add: Decimal_string_shape [OF assms] sign_str_def hd_append)
qed

lemma scan_numeric_msg:
  assumes "numeric_msg u src"
  shows "\<exists>d. scan_numeric (Some src) = Inr d \<and> NewFromDecimal d = of_units u"
proof (cases "u = 0")
  case True
  have t: "encodeNumericText (Numeric_number 0 0) = Some ''0''"
    by (simp add: encodeNumericText_def Numeric_number_def numberTextBytes_def sign_str_def go_eval)
  have "Decimal_Scan ''0'' = Inr \<lparr>dvalue = Some 0, dexp = 0\<rparr>" by (simp add: go_eval)
  with True assms t show ?thesis
    by (simp add: scan_numeric_def DecodeDatabaseSQLValue_def Numeric_binary_Scan_msg
        NewFromDecimal_units dec_val_def)
next
  case False
  let ?d = "\<lparr>dvalue = Some u, dexp = -4\<rparr> :: Decimal"
  have "Decimal_Scan (the (Decimal_string False ?d)) = Inr ?d"
    using Decimal_string_parse_back [of ?d u] Decimal_string_hd [of ?d u]
    by (simp add: Decimal_Scan_def unquote_plain wf_decimal_def int32_range_def)
  moreover have "encodeNumericText (Numeric_number u (-4)) = Some (the (Decimal_string False ?d))"
    by (simp only: numberTextBytes_fixed [symmetric]) (simp add: encodeNumericText_def Numeric_number_def)
  ultimately show ?thesis
    using False assms
    by (simp add: scan_numeric_def DecodeDatabaseSQLValue_def Numeric_binary_Scan_msg
        NewFromDecimal_units dec_val_def power_int_def field_simps)
qed

text \<open>
  C39: reading a NUMERIC column is exact: for every message in the documented binary form of a
  balance, the driver, \<^verbatim>\<open>Decimal.Scan\<close> and \<^verbatim>\<open>NewFromDecimal\<close> give the amount with exactly that many
  ten-thousandths.
\<close>

theorem NUMERIC_read_exact:
  assumes "numeric_msg u src"
  shows "\<exists>d. scan_numeric (Some src) = Inr d \<and> NewFromDecimal d = of_units u"
  using assms by (rule scan_numeric_msg)

text \<open>The balance 10000.0000 of a demo account: one digit 1 of weight 1.\<close>

theorem NUMERIC_read_exact_witness:
  "numeric_msg 100000000 [0, 1, 0, 1, 0, 0, 0, 4, 0, 1] \<and>
   (\<exists>d. scan_numeric (Some [0, 1, 0, 1, 0, 0, 0, 4, 0, 1]) = Inr d \<and> NewFromDecimal d = of_units 100000000)"
proof -
  have "numeric_msg 100000000 [0, 1, 0, 1, 0, 0, 0, 4, 0, 1]"
    by (simp add: numeric_msg_def be16_def int16_def Let_def)
  with NUMERIC_read_exact [of 100000000 "[0, 1, 0, 1, 0, 0, 0, 4, 0, 1]"] show ?thesis by blast
qed

text \<open>A sender of this form, with five digits for every value that fits NUMERIC(20,4).\<close>

definition u16 :: "int \<Rightarrow> byte list" where
  "u16 x = [of_int (x div 256), of_int x]"

definition five_digit_send :: "int \<Rightarrow> byte list" where
  "five_digit_send u =
     (if u = 0 then [0, 0, 0, 0, 0, 0, 0, 4]
      else [0, 5, 0, 3] @ (if u < 0 then [0x40, 0] else [0, 0]) @ [0, 4] @
        concat (map (\<lambda>k. u16 (\<bar>u\<bar> div 10000 ^ k mod 10000)) [4, 3, 2, 1, 0]))"

lemma u16_val: "0 \<le> x \<Longrightarrow> x < 10000 \<Longrightarrow> uint (of_int (x div 256) :: byte) * 256 + uint (of_int x :: byte) = x"
  by (simp add: uint_of_int_byte)

lemma five_digits:
  assumes "0 \<le> v" "v < 10 ^ 20"
  shows "(((v div 10000 ^ 4 mod 10000 * 10000 + v div 10000 ^ 3 mod 10000) * 10000 +
    v div 10000 ^ 2 mod 10000) * 10000 + v div 10000 ^ 1 mod 10000) * 10000 + v div 10000 ^ 0 mod 10000 = (v :: int)"
proof -
  have dd: "v div 10000 ^ 4 = v div 10000 ^ 3 div 10000" "v div 10000 ^ 3 = v div 10000 ^ 2 div 10000"
    "v div 10000 ^ 2 = v div 10000 ^ 1 div 10000" "v div 10000 ^ 1 = v div 10000 ^ 0 div 10000"
    by (simp_all add: zdiv_zmult2_eq [symmetric])
  have top: "v div 10000 ^ 4 mod 10000 = v div 10000 ^ 4" using assms by simp
  show ?thesis unfolding top
    by (subst dd(1), subst div_mult_mod_eq, subst dd(2), subst div_mult_mod_eq, subst dd(3),
        subst div_mult_mod_eq, subst dd(4), subst div_mult_mod_eq) simp
qed

lemma five_digit_send_msg:
  assumes "\<bar>u\<bar> < 10 ^ 20"
  shows "numeric_msg u (five_digit_send u)"
proof (cases "u = 0")
  case True
  then show ?thesis by (simp add: numeric_msg_def five_digit_send_def be16_def)
next
  case False
  define D where "D k = \<bar>u\<bar> div 10000 ^ k mod 10000" for k :: nat
  have D: "0 \<le> D k" "D k < 10000" for k by (simp_all add: D_def)
  have sum: "(((D 4 * 10000 + D 3) * 10000 + D 2) * 10000 + D 1) * 10000 + D 0 = \<bar>u\<bar>"
    using five_digits [of "\<bar>u\<bar>"] assms by (simp only: D_def)
  have src: "five_digit_send u = [0, 5, 0, 3] @ (if u < 0 then [0x40, 0] else [0, 0]) @ [0, 4] @
      u16 (D 4) @ u16 (D 3) @ u16 (D 2) @ u16 (D 1) @ u16 (D 0)"
    using False by (simp add: five_digit_send_def D_def [symmetric])
  have "int (be16 (five_digit_send u) 8) = D 4" "int (be16 (five_digit_send u) 10) = D 3"
    "int (be16 (five_digit_send u) 12) = D 2" "int (be16 (five_digit_send u) 14) = D 1"
    "int (be16 (five_digit_send u) 16) = D 0"
    unfolding src be16_def u16_def by (simp_all add: u16_val [OF D] del: One_nat_def)
  moreover have "{..<5} = {0, 1, 2, 3, 4 :: nat}" by auto
  ultimately have "(\<Sum>i<5. int (be16 (five_digit_send u) (8 + 2 * i)) * 10000 ^ nat (3 + 1 - int i)) =
      D 4 * 10000 ^ 4 + (D 3 * 10000 ^ 3 + (D 2 * 10000 ^ 2 + (D 1 * 10000 ^ 1 + D 0)))"
    by (simp del: One_nat_def)
  also have "\<dots> = \<bar>u\<bar>" unfolding sum [symmetric] by (simp add: algebra_simps)
  finally have "(\<Sum>i<5. int (be16 (five_digit_send u) (8 + 2 * i)) * 10000 ^ nat (3 + 1 - int i)) = \<bar>u\<bar>" .
  moreover have "be16 (five_digit_send u) 0 = 5" "be16 (five_digit_send u) 2 = 3"
    "be16 (five_digit_send u) 4 = (if u < 0 then 0x4000 else 0)" "be16 (five_digit_send u) 6 = 4"
    "length (five_digit_send u) = 18"
    unfolding src be16_def u16_def by simp_all
  ultimately show ?thesis using False by (simp add: numeric_msg_def int16_def)
qed

end
