(* ===== verification/Ledger_Types.thy ===== *)
theory Ledger_Types
  imports Numeric
begin

text \<open>
  The domain types and errors of \<^verbatim>\<open>internal/ledger/types.go\<close> and \<^verbatim>\<open>internal/ledger/errors.go\<close>, and
  Go's error chains: \<^verbatim>\<open>fmt.Errorf\<close> with \<^verbatim>\<open>%w\<close>, \<^verbatim>\<open>errors.Is\<close>, \<^verbatim>\<open>errors.As\<close>. A slice of entries that
  is nil is the empty list: the program never makes an empty slice that is not nil.
\<close>

subsection \<open>Domain types\<close>

definition ExternalAccountID :: UUID where
  "ExternalAccountID = the (UUID_MustParse ''00000000-0000-0000-0000-000000000001'')"

type_synonym TransactionKind = string

definition KindTransfer :: TransactionKind where "KindTransfer = ''TRANSFER''"
definition KindReversal :: TransactionKind where "KindReversal = ''REVERSAL''"
definition KindDeposit :: TransactionKind where "KindDeposit = ''DEPOSIT''"
definition KindWithdrawal :: TransactionKind where "KindWithdrawal = ''WITHDRAWAL''"

type_synonym Direction = string

definition DirectionDebit :: Direction where "DirectionDebit = ''DEBIT''"
definition DirectionCredit :: Direction where "DirectionCredit = ''CREDIT''"

type_synonym Outcome = string

definition OutcomeSuccess :: Outcome where "OutcomeSuccess = ''SUCCESS''"
definition OutcomeFailure :: Outcome where "OutcomeFailure = ''FAILURE''"

lemmas kind_defs = KindTransfer_def KindReversal_def KindDeposit_def KindWithdrawal_def
lemmas direction_defs = DirectionDebit_def DirectionCredit_def
lemmas outcome_defs = OutcomeSuccess_def OutcomeFailure_def

text \<open>Times are microseconds since the epoch, the resolution of TIMESTAMPTZ.\<close>

type_synonym timestamp = int

record Account =
  aID :: UUID
  aName :: string
  aBalance :: Money
  aIsSystem :: bool
  aCreatedAt :: timestamp
  aUpdatedAt :: timestamp

record Entry =
  eID :: int
  eTransactionID :: UUID
  eAccountID :: UUID
  eDirection :: Direction
  eAccountName :: string
  eAmount :: Money
  eCreatedAt :: timestamp

record Transaction =
  tID :: UUID
  tKind :: TransactionKind
  tIdempotencyKey :: string
  tReversesTransactionID :: "UUID option"
  tCreatedAt :: timestamp
  tEntries :: "Entry list"

record AuditEntry =
  auID :: int
  auOperation :: string
  auFromAccount :: "UUID option"
  auToAccount :: "UUID option"
  auAmount :: "Money option"
  auOutcome :: Outcome
  auErrorReason :: "string option"
  auTransactionID :: "UUID option"
  auRequestID :: "string option"
  auCreatedAt :: timestamp

text \<open>The zero time of Go, \<^verbatim>\<open>0001-01-01\<close>, which a struct literal leaves in the fields it does not set.\<close>

definition zero_time :: timestamp where
  "zero_time = -62135596800000000"

definition Account_zero :: Account where
  "Account_zero = \<lparr>aID = UUID_Nil, aName = [], aBalance = Money_zero_value, aIsSystem = False,
     aCreatedAt = zero_time, aUpdatedAt = zero_time\<rparr>"

definition mk_Transaction :: "UUID \<Rightarrow> TransactionKind \<Rightarrow> string \<Rightarrow> UUID option \<Rightarrow> Transaction" where
  "mk_Transaction i k key reverses = \<lparr>tID = i, tKind = k, tIdempotencyKey = key,
     tReversesTransactionID = reverses, tCreatedAt = zero_time, tEntries = []\<rparr>"

definition mk_Entry :: "UUID \<Rightarrow> UUID \<Rightarrow> Direction \<Rightarrow> Money \<Rightarrow> Entry" where
  "mk_Entry t a d m = \<lparr>eID = 0, eTransactionID = t, eAccountID = a, eDirection = d,
     eAccountName = [], eAmount = m, eCreatedAt = zero_time\<rparr>"

lemma ExternalAccountID_eq: "ExternalAccountID = UUID_Nil[15 := 1]"
  by (simp add: ExternalAccountID_def UUID_Nil_eq go_eval)

lemma wf_External: "wf_uuid ExternalAccountID"
  by (simp add: ExternalAccountID_eq UUID_Nil_def wf_uuid_def)

subsection \<open>Errors\<close>

text \<open>What PostgreSQL reports about a failed statement (\<^verbatim>\<open>pgconn.PgError\<close>).\<close>

record pg_error =
  pgCode :: string
  pgMessage :: string
  pgDetail :: string
  pgConstraintName :: string

text \<open>
  The sentinels of \<^verbatim>\<open>errors.go\<close>, \<^verbatim>\<open>pgx.ErrNoRows\<close>, errors of the server, of the driver or the network
  (with their text), of scanning a column and of UUID generation, and \<^verbatim>\<open>fmt.Errorf("...: %w", err)\<close>.
\<close>

datatype gerror =
    ErrAccountNotFound
  | ErrTransactionNotFound
  | ErrInsufficientFunds
  | ErrSelfTransfer
  | ErrAlreadyReversed
  | ErrNotReversible
  | ErrIdempotencyConflict
  | ErrInvalidAmount
  | ErrSystemAccount
  | ErrNoRows
  | PgError pg_error
  | DriverError string
  | ScanError column_error
  | UuidError uuid_error
  | Wrap string gerror

text \<open>\<^verbatim>\<open>errors.Is\<close> and \<^verbatim>\<open>errors.As\<close> for \<^verbatim>\<open>*pgconn.PgError\<close>.\<close>

fun errors_Is :: "gerror \<Rightarrow> gerror \<Rightarrow> bool" where
  "errors_Is (Wrap m e) t \<longleftrightarrow> Wrap m e = t \<or> errors_Is e t"
| "errors_Is e t \<longleftrightarrow> e = t"

fun errors_As_PgError :: "gerror \<Rightarrow> pg_error option" where
  "errors_As_PgError (PgError p) = Some p"
| "errors_As_PgError (Wrap m e) = errors_As_PgError e"
| "errors_As_PgError e = None"

text \<open>\<^verbatim>\<open>Error()\<close>: the message. Errors of the standard library and of column scans carry their text.\<close>

fun err_msg :: "gerror \<Rightarrow> string" where
  "err_msg ErrAccountNotFound = ''account not found''"
| "err_msg ErrTransactionNotFound = ''transaction not found''"
| "err_msg ErrInsufficientFunds = ''insufficient funds''"
| "err_msg ErrSelfTransfer = ''self-transfer not allowed''"
| "err_msg ErrAlreadyReversed = ''transaction already reversed''"
| "err_msg ErrNotReversible = ''transaction is not reversible''"
| "err_msg ErrIdempotencyConflict = ''idempotency key conflict''"
| "err_msg ErrInvalidAmount = ''amount must be positive''"
| "err_msg ErrSystemAccount = ''operation not permitted on system account''"
| "err_msg ErrNoRows = ''no rows in result set''"
| "err_msg (PgError p) = ''ERROR: '' @ pgMessage p @ '' (SQLSTATE '' @ pgCode p @ '')''"
| "err_msg (DriverError s) = s"
| "err_msg (ScanError e) = ''can't scan into dest''"
| "err_msg (UuidError e) = (case e of RandError s \<Rightarrow> s | _ \<Rightarrow> ''invalid UUID format'')"
| "err_msg (Wrap m e) = m @ '': '' @ err_msg e"

text \<open>The sentinels a client of the service can tell apart.\<close>

fun is_sentinel :: "gerror \<Rightarrow> bool" where
  "is_sentinel (Wrap m e) = False"
| "is_sentinel (PgError p) = False"
| "is_sentinel (DriverError s) = False"
| "is_sentinel (ScanError e) = False"
| "is_sentinel (UuidError e) = False"
| "is_sentinel ErrNoRows = False"
| "is_sentinel e = True"

lemma errors_Is_refl [simp]: "errors_Is e e"
  by (cases e) simp_all

lemma errors_Is_sentinel: "is_sentinel e \<Longrightarrow> errors_Is e t \<longleftrightarrow> e = t"
  by (cases e) simp_all

end
