(* ===== verification/Database.thy ===== *)
theory Database
  imports Ledger_Types
begin

text \<open>
  The database of \<^verbatim>\<open>migrations/0001_init.up.sql\<close>: its four tables as lists of rows, with the column
  types, the CHECK, UNIQUE and FOREIGN KEY constraints and the deferred trigger, and the statements
  the program sends. NUMERIC(20,4) columns hold a number of ten-thousandths. The second half is the
  world the program runs in: the database, the clock, the random source and the process state of the
  UUID generator, and the state-and-error monad the components are written in. What is outside the
  program is the record \<open>env\<close>: the fate of each call, what other clients commit between two calls, the
  clock, the order in which the server returns rows that ORDER BY does not fix.
\<close>

subsection \<open>Tables\<close>

record account_row =
  ar_id :: UUID
  ar_name :: string
  ar_balance :: int
  ar_is_system :: bool
  ar_created_at :: timestamp
  ar_updated_at :: timestamp

record transaction_row =
  tr_id :: UUID
  tr_kind :: string
  tr_idempotency_key :: string
  tr_reverses_transaction_id :: "UUID option"
  tr_created_at :: timestamp

record entry_row =
  er_id :: int
  er_transaction_id :: UUID
  er_account_id :: UUID
  er_direction :: string
  er_amount :: int
  er_created_at :: timestamp

record audit_row =
  au_id :: int
  au_operation :: string
  au_from_account :: "UUID option"
  au_to_account :: "UUID option"
  au_amount :: "int option"
  au_outcome :: string
  au_error_reason :: "string option"
  au_transaction_id :: "UUID option"
  au_request_id :: "string option"
  au_created_at :: timestamp

record db =
  accounts :: "account_row list"
  transactions :: "transaction_row list"
  entries :: "entry_row list"
  audit_log :: "audit_row list"

subsection \<open>Column types and errors of the server\<close>

definition pg_err :: "string \<Rightarrow> string \<Rightarrow> string \<Rightarrow> string \<Rightarrow> gerror" where
  "pg_err code msg detail name =
     PgError \<lparr>pgCode = code, pgMessage = msg, pgDetail = detail, pgConstraintName = name\<rparr>"

text \<open>
  A decimal parameter stored in a NUMERIC(20,4) column: rounded to four places, ties away from zero,
  and out of range from \<open>10 ^ 16\<close> on.
\<close>

definition numeric_scaled :: "Decimal \<Rightarrow> int" where
  "numeric_scaled d =
     (if - 4 \<le> dexp d then bigval d * 10 ^ nat (dexp d + 4)
      else half_away (bigval d) (10 ^ nat (- 4 - dexp d)))"

definition numeric_fits :: "int \<Rightarrow> bool" where
  "numeric_fits u \<longleftrightarrow> \<bar>u\<bar> < 10 ^ 20"

definition numeric_20_4 :: "Decimal \<Rightarrow> gerror + int" where
  "numeric_20_4 d =
     (if numeric_fits (numeric_scaled d) then Inr (numeric_scaled d)
      else Inl (pg_err ''22003'' ''numeric field overflow'' [] []))"

definition check_violation :: "string \<Rightarrow> gerror" where
  "check_violation name =
     pg_err ''23514'' (''new row violates check constraint '' @ name) [] name"

definition fk_violation :: "string \<Rightarrow> gerror" where
  "fk_violation name =
     pg_err ''23503'' (''insert violates foreign key constraint '' @ name) [] name"

definition unique_violation :: "string \<Rightarrow> string \<Rightarrow> string \<Rightarrow> gerror" where
  "unique_violation name column val =
     pg_err ''23505'' (''duplicate key value violates unique constraint '' @ name)
       (''Key ('' @ column @ '')=('' @ val @ '') already exists.'') name"

subsection \<open>Statements\<close>

text \<open>\<^verbatim>\<open>UPDATE accounts SET balance, updated_at WHERE id\<close>.\<close>

definition set_balance :: "UUID \<Rightarrow> int \<Rightarrow> timestamp \<Rightarrow> account_row \<Rightarrow> account_row" where
  "set_balance i u ts r = (if ar_id r = i then r\<lparr>ar_balance := u, ar_updated_at := ts\<rparr> else r)"

definition sql_update_balance :: "UUID \<Rightarrow> Decimal \<Rightarrow> timestamp \<Rightarrow> db \<Rightarrow> gerror + db" where
  "sql_update_balance i bal ts D =
     (case numeric_20_4 bal of
        Inl e \<Rightarrow> Inl e
      | Inr u \<Rightarrow>
          if \<exists>r\<in>set (accounts D). ar_id r = i \<and> \<not> ar_is_system r \<and> u < 0
          then Inl (check_violation ''non_negative_user_balance'')
          else Inr (D\<lparr>accounts := map (set_balance i u ts) (accounts D)\<rparr>))"

text \<open>\<^verbatim>\<open>INSERT INTO accounts\<close> of \<^verbatim>\<open>CreateAccount\<close>.\<close>

definition sql_insert_account :: "UUID \<Rightarrow> string \<Rightarrow> timestamp \<Rightarrow> db \<Rightarrow> gerror + (account_row \<times> db)" where
  "sql_insert_account i name ts D =
     (if \<exists>r\<in>set (accounts D). ar_id r = i
      then Inl (unique_violation ''accounts_pkey'' ''id'' (UUID_String i))
      else let r = \<lparr>ar_id = i, ar_name = name, ar_balance = 0, ar_is_system = False,
                    ar_created_at = ts, ar_updated_at = ts\<rparr>
           in Inr (r, D\<lparr>accounts := accounts D @ [r]\<rparr>))"

text \<open>
  \<^verbatim>\<open>INSERT INTO transactions\<close>. Where a row breaks several UNIQUE constraints the server names one of
  them; which one is the parameter \<open>report\<close>.
\<close>

definition violated_unique :: "transaction_row \<Rightarrow> db \<Rightarrow> string list" where
  "violated_unique t D =
     (if \<exists>r\<in>set (transactions D). tr_id r = tr_id t then [''transactions_pkey''] else []) @
     (if \<exists>r\<in>set (transactions D). tr_idempotency_key r = tr_idempotency_key t
      then [''transactions_idempotency_key_key''] else []) @
     (if tr_reverses_transaction_id t \<noteq> None \<and>
         (\<exists>r\<in>set (transactions D). tr_reverses_transaction_id r = tr_reverses_transaction_id t)
      then [''transactions_reverses_transaction_id_key''] else [])"

definition unique_detail :: "string \<Rightarrow> transaction_row \<Rightarrow> string \<times> string" where
  "unique_detail name t =
     (if name = ''transactions_pkey'' then (''id'', UUID_String (tr_id t))
      else if name = ''transactions_idempotency_key_key'' then (''idempotency_key'', tr_idempotency_key t)
      else (''reverses_transaction_id'',
            case tr_reverses_transaction_id t of None \<Rightarrow> [] | Some r \<Rightarrow> UUID_String r))"

definition kind_check :: "string \<Rightarrow> bool" where
  "kind_check k \<longleftrightarrow> k \<in> {''TRANSFER'', ''REVERSAL'', ''DEPOSIT'', ''WITHDRAWAL''}"

definition sql_insert_transaction :: "(string list \<Rightarrow> string) \<Rightarrow> transaction_row \<Rightarrow> db \<Rightarrow> gerror + db" where
  "sql_insert_transaction report t D =
     (if \<not> kind_check (tr_kind t) then Inl (check_violation ''transactions_kind_check'')
      else if violated_unique t D \<noteq> []
      then let name = report (violated_unique t D); (column, val) = unique_detail name t
           in Inl (unique_violation name column val)
      else if (case tr_reverses_transaction_id t of None \<Rightarrow> False
               | Some r \<Rightarrow> r \<noteq> tr_id t \<and> r \<notin> tr_id ` set (transactions D))
      then Inl (fk_violation ''transactions_reverses_transaction_id_fkey'')
      else Inr (D\<lparr>transactions := transactions D @ [t]\<rparr>))"

text \<open>\<^verbatim>\<open>INSERT INTO entries\<close>.\<close>

definition sql_insert_entry ::
  "int \<Rightarrow> UUID \<Rightarrow> UUID \<Rightarrow> string \<Rightarrow> Decimal \<Rightarrow> timestamp \<Rightarrow> db \<Rightarrow> gerror + db" where
  "sql_insert_entry i t a dir amt ts D =
     (case numeric_20_4 amt of
        Inl e \<Rightarrow> Inl e
      | Inr u \<Rightarrow>
          if dir \<notin> {''DEBIT'', ''CREDIT''} then Inl (check_violation ''entries_direction_check'')
          else if u \<le> 0 then Inl (check_violation ''entries_amount_check'')
          else if t \<notin> tr_id ` set (transactions D) then Inl (fk_violation ''entries_transaction_id_fkey'')
          else if a \<notin> ar_id ` set (accounts D) then Inl (fk_violation ''entries_account_id_fkey'')
          else Inr (D\<lparr>entries := entries D @ [\<lparr>er_id = i, er_transaction_id = t, er_account_id = a,
                  er_direction = dir, er_amount = u, er_created_at = ts\<rparr>]\<rparr>))"

text \<open>\<^verbatim>\<open>INSERT INTO audit_log\<close>; the two foreign columns have no constraint.\<close>

definition sql_insert_audit :: "int \<Rightarrow> AuditEntry \<Rightarrow> timestamp \<Rightarrow> db \<Rightarrow> gerror + db" where
  "sql_insert_audit i e ts D =
     (case (case auAmount e of None \<Rightarrow> Inr None
            | Some m \<Rightarrow> map_sum id Some (numeric_20_4 (Money_Decimal m))) of
        Inl err \<Rightarrow> Inl err
      | Inr amt \<Rightarrow>
          if auOutcome e \<notin> {''SUCCESS'', ''FAILURE''} then Inl (check_violation ''audit_log_outcome_check'')
          else Inr (D\<lparr>audit_log := audit_log D @ [\<lparr>au_id = i, au_operation = auOperation e,
                  au_from_account = auFromAccount e, au_to_account = auToAccount e, au_amount = amt,
                  au_outcome = auOutcome e, au_error_reason = auErrorReason e,
                  au_transaction_id = auTransactionID e, au_request_id = auRequestID e,
                  au_created_at = ts\<rparr>]\<rparr>))"

text \<open>The trigger function \<^verbatim>\<open>check_double_entry_balance\<close> for one transaction id.\<close>

definition signed :: "entry_row \<Rightarrow> int" where
  "signed e = (if er_direction e = ''CREDIT'' then er_amount e else - er_amount e)"

definition tx_net :: "UUID \<Rightarrow> entry_row list \<Rightarrow> int" where
  "tx_net t es = sum_list (map signed (filter (\<lambda>e. er_transaction_id e = t) es))"

definition check_double_entry_balance :: "UUID \<Rightarrow> db \<Rightarrow> bool" where
  "check_double_entry_balance t D \<longleftrightarrow> tx_net t (entries D) = 0"

subsection \<open>The environment and the world\<close>

text \<open>
  The fate of a call to the server: it runs, it fails before it has an effect, or its effect takes
  place but the answer is lost (a connection that breaks, a context that expires). Failing before the
  effect stands for every refusal that is not a constraint of the schema: text that is not valid UTF-8
  or holds a NUL, a key too long for its index, a deadlock the server breaks, a full disk.
\<close>

datatype fate = Proceed | Fail_before string | Fail_after string

text \<open>
  What the program does not control, indexed by the number of the interaction. \<open>others\<close> is what other
  clients have committed when this program next reaches the server; \<open>numeric_send\<close> the binary form of
  a NUMERIC column; \<open>collation\<close> the sort key of a text; the \<open>plan\<close> functions the order in which rows that
  ORDER BY leaves tied come out; \<open>nextval\<close> the sequences of the BIGSERIAL columns.
\<close>

record env =
  fate :: "nat \<Rightarrow> fate"
  others :: "nat \<Rightarrow> db \<Rightarrow> db"
  clock :: "nat \<Rightarrow> int"
  random :: "nat \<Rightarrow> uuid_error + byte list"
  numeric_send :: "int \<Rightarrow> byte list"
  collation :: "string \<Rightarrow> string"
  plan_accounts :: "nat \<Rightarrow> account_row list \<Rightarrow> account_row list"
  plan_transactions :: "nat \<Rightarrow> transaction_row list \<Rightarrow> transaction_row list"
  plan_audit :: "nat \<Rightarrow> audit_row list \<Rightarrow> audit_row list"
  report :: "string list \<Rightarrow> string"
  nextval :: "nat \<Rightarrow> int"

text \<open>
  The state: the database as the program sees it, the database without the open transaction (what a
  rollback goes back to), the trigger events and the start time of that transaction, the number of
  interactions so far and the last time \<^verbatim>\<open>NewV7\<close> has used.
\<close>

record world =
  wdb :: db
  snap :: db
  pending :: "UUID list"
  tx_start :: timestamp
  tick :: nat
  lastV7time :: int

definition micros :: "int \<Rightarrow> timestamp" where
  "micros nanos = nanos div 1000"

subsection \<open>State and errors\<close>

type_synonym 'a M = "world \<Rightarrow> (gerror + 'a) \<times> world"

definition returnM :: "'a \<Rightarrow> 'a M" where
  "returnM x = (\<lambda>w. (Inr x, w))"

definition throwM :: "gerror \<Rightarrow> 'a M" where
  "throwM e = (\<lambda>w. (Inl e, w))"

definition bindM :: "'a M \<Rightarrow> ('a \<Rightarrow> 'b M) \<Rightarrow> 'b M" where
  "bindM m f = (\<lambda>w. case m w of (Inl e, w') \<Rightarrow> (Inl e, w') | (Inr x, w') \<Rightarrow> f x w')"

definition liftM :: "gerror + 'a \<Rightarrow> 'a M" where
  "liftM r = (\<lambda>w. (r, w))"

text \<open>\<^verbatim>\<open>if err != nil { return ..., g(err) }\<close> after a call, and a call whose error is looked at.\<close>

definition mapErr :: "(gerror \<Rightarrow> gerror) \<Rightarrow> 'a M \<Rightarrow> 'a M" where
  "mapErr g m = (\<lambda>w. case m w of (Inl e, w') \<Rightarrow> (Inl (g e), w') | (Inr x, w') \<Rightarrow> (Inr x, w'))"

definition tryM :: "'a M \<Rightarrow> (gerror + 'a) M" where
  "tryM m = (\<lambda>w. case m w of (r, w') \<Rightarrow> (Inr r, w'))"

fun mapM :: "('a \<Rightarrow> 'b M) \<Rightarrow> 'a list \<Rightarrow> 'b list M" where
  "mapM f [] = returnM []"
| "mapM f (x # xs) = bindM (f x) (\<lambda>y. bindM (mapM f xs) (\<lambda>ys. returnM (y # ys)))"

text \<open>
  A statement inside the open transaction, the SELECT FOR UPDATE that starts it, and a statement sent
  on its own over the pool. What other clients commit shows up in the last two: a transaction that
  waits for row locks sees what was committed while it waited. From then on the rows it works on are
  locked.
\<close>

definition run_call :: "fate \<Rightarrow> (db \<Rightarrow> gerror + ('a \<times> db)) \<Rightarrow> 'a M" where
  "run_call ft f = (\<lambda>w.
     case ft of
       Fail_before s \<Rightarrow> (Inl (DriverError s), w)
     | _ \<Rightarrow> (case f (wdb w) of
               Inl e \<Rightarrow> (Inl e, w)
             | Inr (x, D) \<Rightarrow>
                 ((case ft of Fail_after s \<Rightarrow> Inl (DriverError s) | _ \<Rightarrow> Inr x), w\<lparr>wdb := D\<rparr>)))"

definition tx_call :: "env \<Rightarrow> (nat \<Rightarrow> db \<Rightarrow> gerror + ('a \<times> db)) \<Rightarrow> 'a M" where
  "tx_call env f = (\<lambda>w. run_call (fate env (tick w)) (f (tick w)) (w\<lparr>tick := tick w + 1\<rparr>))"

definition pool_call :: "env \<Rightarrow> (nat \<Rightarrow> db \<Rightarrow> gerror + ('a \<times> db)) \<Rightarrow> 'a M" where
  "pool_call env f = (\<lambda>w. run_call (fate env (tick w)) (f (tick w))
     (w\<lparr>tick := tick w + 1, wdb := others env (tick w) (wdb w)\<rparr>))"

definition lock_call :: "env \<Rightarrow> (nat \<Rightarrow> db \<Rightarrow> gerror + ('a \<times> db)) \<Rightarrow> 'a M" where
  "lock_call env f = (\<lambda>w.
     if wdb w = snap w then
       let D = others env (tick w) (wdb w)
       in run_call (fate env (tick w)) (f (tick w)) (w\<lparr>tick := tick w + 1, wdb := D, snap := D\<rparr>)
     else tx_call env f w)"

text \<open>The end of a result set: \<^verbatim>\<open>rows.Err()\<close> reports a connection lost while rows were read.\<close>

definition stream_end :: "env \<Rightarrow> unit M" where
  "stream_end env = tx_call env (\<lambda>k D. Inr ((), D))"

text \<open>A statement that only reads.\<close>

definition query :: "(nat \<Rightarrow> db \<Rightarrow> gerror + 'a) \<Rightarrow> nat \<Rightarrow> db \<Rightarrow> gerror + ('a \<times> db)" where
  "query q = (\<lambda>k D. map_sum id (\<lambda>x. (x, D)) (q k D))"

text \<open>\<^verbatim>\<open>uuid.NewV7\<close> in the running process.\<close>

definition NewV7 :: "env \<Rightarrow> UUID M" where
  "NewV7 env = (\<lambda>w.
     case UUID_NewV7 (lastV7time w) (clock env (tick w)) (random env (tick w)) of
       (r, t) \<Rightarrow> (map_sum UuidError id r, w\<lparr>lastV7time := t, tick := tick w + 1\<rparr>))"

subsection \<open>Queries\<close>

definition sql_account :: "UUID \<Rightarrow> db \<Rightarrow> account_row list" where
  "sql_account i D = filter (\<lambda>r. ar_id r = i) (accounts D)"

definition sql_list_accounts :: "env \<Rightarrow> nat \<Rightarrow> db \<Rightarrow> account_row list" where
  "sql_list_accounts env k D =
     sort_key (\<lambda>r. collation env (ar_name r)) (plan_accounts env k (filter (\<lambda>r. \<not> ar_is_system r) (accounts D)))"

definition sql_lock_accounts :: "env \<Rightarrow> UUID list \<Rightarrow> db \<Rightarrow> account_row list" where
  "sql_lock_accounts env ids D =
     sort_key (\<lambda>r. collation env (UUID_String (ar_id r))) (filter (\<lambda>r. ar_id r \<in> set ids) (accounts D))"

definition sql_transaction_by_key :: "string \<Rightarrow> db \<Rightarrow> transaction_row list" where
  "sql_transaction_by_key key D = filter (\<lambda>t. tr_idempotency_key t = key) (transactions D)"

definition sql_transaction :: "UUID \<Rightarrow> db \<Rightarrow> transaction_row list" where
  "sql_transaction i D = filter (\<lambda>t. tr_id t = i) (transactions D)"

definition sql_entries :: "UUID \<Rightarrow> db \<Rightarrow> (entry_row \<times> string) list" where
  "sql_entries t D =
     concat (map (\<lambda>e. map (\<lambda>a. (e, ar_name a)) (filter (\<lambda>a. ar_id a = er_account_id e) (accounts D)))
       (sort_key er_id (filter (\<lambda>e. er_transaction_id e = t) (entries D))))"

definition sql_limit :: "int \<Rightarrow> int \<Rightarrow> 'a list \<Rightarrow> gerror + 'a list" where
  "sql_limit limit offset xs =
     (if limit < 0 then Inl (pg_err ''2201W'' ''LIMIT must not be negative'' [] [])
      else if offset < 0 then Inl (pg_err ''2201X'' ''OFFSET must not be negative'' [] [])
      else Inr (take (nat limit) (drop (nat offset) xs)))"

definition sql_transactions_for_account :: "env \<Rightarrow> UUID \<Rightarrow> int \<Rightarrow> nat \<Rightarrow> db \<Rightarrow> gerror + transaction_row list" where
  "sql_transactions_for_account env a limit k D =
     sql_limit limit 0 (sort_key (\<lambda>t. - tr_created_at t) (plan_transactions env k
       (filter (\<lambda>t. \<exists>e\<in>set (entries D). er_transaction_id e = tr_id t \<and> er_account_id e = a) (transactions D))))"

definition sql_list_transactions :: "string option \<Rightarrow> int \<Rightarrow> int \<Rightarrow> db \<Rightarrow> gerror + transaction_row list" where
  "sql_list_transactions kind limit offset D =
     sql_limit limit offset (sort_key (\<lambda>t. - tr_created_at t) (sort_key (\<lambda>t. - be_val (tr_id t))
       (filter (\<lambda>t. case kind of None \<Rightarrow> True | Some k \<Rightarrow> tr_kind t = k) (transactions D))))"

definition sql_audit_for_account :: "env \<Rightarrow> UUID \<Rightarrow> int \<Rightarrow> nat \<Rightarrow> db \<Rightarrow> gerror + audit_row list" where
  "sql_audit_for_account env a limit k D =
     sql_limit limit 0 (sort_key (\<lambda>r. - au_created_at r) (plan_audit env k
       (filter (\<lambda>r. au_from_account r = Some a \<or> au_to_account r = Some a) (audit_log D))))"

end
