(* ===== verification/Ledger.thy ===== *)
theory Ledger
  imports Database
begin

text \<open>
  What a correct ledger is, stated on the tables alone: the invariant \<open>ledger_ok\<close>, the abstract effect
  of one double-entry posting (\<open>apply_posting\<close>), and the relation \<open>rely\<close> between an earlier and a later
  database that every client of the ledger keeps. The lemmas: a posting keeps the invariant; the
  invariant gives that balances sum to zero, that no user account is overdrawn, and that a transfer
  and its reversal cancel.
\<close>

subsection \<open>The invariant\<close>

text \<open>The legs of a transaction in the order of their ids, and the net amount of an account.\<close>

definition legs :: "UUID \<Rightarrow> entry_row list \<Rightarrow> entry_row list" where
  "legs t es = sort_key er_id (filter (\<lambda>e. er_transaction_id e = t) es)"

definition account_net :: "UUID \<Rightarrow> entry_row list \<Rightarrow> int" where
  "account_net a es = sum_list (map signed (filter (\<lambda>e. er_account_id e = a) es))"

definition keys_ok :: "db \<Rightarrow> bool" where
  "keys_ok D \<longleftrightarrow>
     distinct (map ar_id (accounts D)) \<and> distinct (map tr_id (transactions D)) \<and>
     distinct (map tr_idempotency_key (transactions D)) \<and>
     distinct (filter (\<lambda>r. r \<noteq> None) (map tr_reverses_transaction_id (transactions D)))"

definition account_ok :: "db \<Rightarrow> account_row \<Rightarrow> bool" where
  "account_ok D r \<longleftrightarrow>
     wf_uuid (ar_id r) \<and> (ar_is_system r \<longleftrightarrow> ar_id r = ExternalAccountID) \<and>
     (\<not> ar_is_system r \<longrightarrow> 0 \<le> ar_balance r) \<and> numeric_fits (ar_balance r) \<and>
     ar_balance r = account_net (ar_id r) (entries D)"

definition entry_ok :: "db \<Rightarrow> entry_row \<Rightarrow> bool" where
  "entry_ok D e \<longleftrightarrow>
     er_transaction_id e \<in> tr_id ` set (transactions D) \<and> er_account_id e \<in> ar_id ` set (accounts D) \<and>
     0 < er_amount e \<and> numeric_fits (er_amount e)"

text \<open>Two legs of the same amount, a debit and then a credit of another account.\<close>

fun two_legs :: "entry_row list \<Rightarrow> bool" where
  "two_legs [d, c] \<longleftrightarrow> er_direction d = DirectionDebit \<and> er_direction c = DirectionCredit \<and>
     er_amount d = er_amount c \<and> er_account_id d \<noteq> er_account_id c"
| "two_legs _ \<longleftrightarrow> False"

text \<open>The same movement the other way round.\<close>

fun mirrored :: "entry_row list \<Rightarrow> entry_row list \<Rightarrow> bool" where
  "mirrored [d, c] [d', c'] \<longleftrightarrow> er_account_id d' = er_account_id c \<and> er_account_id c' = er_account_id d \<and>
     er_amount d' = er_amount d"
| "mirrored _ _ \<longleftrightarrow> False"

definition transaction_ok :: "db \<Rightarrow> transaction_row \<Rightarrow> bool" where
  "transaction_ok D t \<longleftrightarrow>
     (let ls = legs (tr_id t) (entries D) in
      two_legs ls \<and> tr_kind t \<in> {KindTransfer, KindReversal, KindDeposit} \<and>
      (tr_kind t = KindReversal \<longleftrightarrow> tr_reverses_transaction_id t \<noteq> None) \<and>
      (tr_kind t = KindTransfer \<longrightarrow> ExternalAccountID \<notin> er_account_id ` set ls) \<and>
      (tr_kind t = KindDeposit \<longrightarrow> er_account_id (hd ls) = ExternalAccountID) \<and>
      (case tr_reverses_transaction_id t of None \<Rightarrow> True
       | Some r \<Rightarrow> \<exists>orig\<in>set (transactions D). tr_id orig = r \<and> tr_kind orig = KindTransfer \<and>
           mirrored (legs r (entries D)) ls))"

definition ledger_ok :: "db \<Rightarrow> bool" where
  "ledger_ok D \<longleftrightarrow>
     keys_ok D \<and> ExternalAccountID \<in> ar_id ` set (accounts D) \<and>
     (\<forall>r\<in>set (accounts D). account_ok D r) \<and> (\<forall>e\<in>set (entries D). entry_ok D e) \<and>
     (\<forall>t\<in>set (transactions D). transaction_ok D t)"

subsection \<open>One posting\<close>

text \<open>
  The effect of a committed transaction: its header row, the amount moved from one account to the
  other, and the two legs.
\<close>

record posting =
  p_txn :: transaction_row
  p_src :: UUID
  p_dst :: UUID
  p_amount :: int
  p_debit_id :: int
  p_credit_id :: int
  p_src_at :: timestamp
  p_dst_at :: timestamp
  p_at :: timestamp

definition debit_leg :: "posting \<Rightarrow> entry_row" where
  "debit_leg P = \<lparr>er_id = p_debit_id P, er_transaction_id = tr_id (p_txn P), er_account_id = p_src P,
     er_direction = DirectionDebit, er_amount = p_amount P, er_created_at = p_at P\<rparr>"

definition credit_leg :: "posting \<Rightarrow> entry_row" where
  "credit_leg P = \<lparr>er_id = p_credit_id P, er_transaction_id = tr_id (p_txn P), er_account_id = p_dst P,
     er_direction = DirectionCredit, er_amount = p_amount P, er_created_at = p_at P\<rparr>"

definition move_row :: "posting \<Rightarrow> account_row \<Rightarrow> account_row" where
  "move_row P r =
     (if ar_id r = p_src P then r\<lparr>ar_balance := ar_balance r - p_amount P, ar_updated_at := p_src_at P\<rparr>
      else if ar_id r = p_dst P then r\<lparr>ar_balance := ar_balance r + p_amount P, ar_updated_at := p_dst_at P\<rparr>
      else r)"

definition apply_posting :: "posting \<Rightarrow> db \<Rightarrow> db" where
  "apply_posting P D = D\<lparr>accounts := map (move_row P) (accounts D),
     transactions := transactions D @ [p_txn P],
     entries := entries D @ [debit_leg P, credit_leg P]\<rparr>"

text \<open>When a posting may be made. The last clause is what its kind asks for.\<close>

definition kind_ok :: "posting \<Rightarrow> db \<Rightarrow> bool" where
  "kind_ok P D \<longleftrightarrow>
     (let t = p_txn P in
      (tr_kind t = KindTransfer \<and> tr_reverses_transaction_id t = None \<and>
         p_src P \<noteq> ExternalAccountID \<and> p_dst P \<noteq> ExternalAccountID) \<or>
      (tr_kind t = KindDeposit \<and> tr_reverses_transaction_id t = None \<and> p_src P = ExternalAccountID) \<or>
      (tr_kind t = KindReversal \<and>
         (\<exists>orig\<in>set (transactions D). tr_reverses_transaction_id t = Some (tr_id orig) \<and>
            tr_kind orig = KindTransfer \<and>
            mirrored (legs (tr_id orig) (entries D)) [debit_leg P, credit_leg P])))"

definition posting_ok :: "posting \<Rightarrow> db \<Rightarrow> bool" where
  "posting_ok P D \<longleftrightarrow>
     p_src P \<noteq> p_dst P \<and> 0 < p_amount P \<and> numeric_fits (p_amount P) \<and> p_debit_id P < p_credit_id P \<and>
     violated_unique (p_txn P) D = [] \<and>
     {p_src P, p_dst P} \<subseteq> ar_id ` set (accounts D) \<and>
     (\<forall>r\<in>set (accounts D). ar_id r = p_src P \<longrightarrow>
        (\<not> ar_is_system r \<longrightarrow> p_amount P \<le> ar_balance r) \<and> numeric_fits (ar_balance r - p_amount P)) \<and>
     (\<forall>r\<in>set (accounts D). ar_id r = p_dst P \<longrightarrow> numeric_fits (ar_balance r + p_amount P)) \<and>
     kind_ok P D"

subsection \<open>What clients keep\<close>

text \<open>
  From a correct earlier database to a later one: the ledger stays correct, transactions and their
  legs stay as they are, no account disappears or changes its name or kind, no audit row disappears.
\<close>

definition same_account :: "account_row \<Rightarrow> account_row \<Rightarrow> bool" where
  "same_account r r' \<longleftrightarrow> ar_id r' = ar_id r \<and> ar_name r' = ar_name r \<and> ar_is_system r' = ar_is_system r \<and>
     ar_created_at r' = ar_created_at r"

definition rely :: "db \<Rightarrow> db \<Rightarrow> bool" where
  "rely D D' \<longleftrightarrow>
     (ledger_ok D \<longrightarrow>
        ledger_ok D' \<and> set (transactions D) \<subseteq> set (transactions D') \<and>
        (\<forall>t\<in>set (transactions D). legs (tr_id t) (entries D') = legs (tr_id t) (entries D)) \<and>
        (\<forall>r\<in>set (accounts D). \<exists>r'\<in>set (accounts D'). same_account r r') \<and>
        set (audit_log D) \<subseteq> set (audit_log D'))"

lemma same_account_trans: "same_account r s \<Longrightarrow> same_account s t \<Longrightarrow> same_account r t"
  by (simp add: same_account_def)

lemma relyD:
  assumes "rely D D'" "ledger_ok D"
  shows "ledger_ok D'" "t \<in> set (transactions D) \<Longrightarrow> t \<in> set (transactions D')"
    "t \<in> set (transactions D) \<Longrightarrow> legs (tr_id t) (entries D') = legs (tr_id t) (entries D)"
    "r \<in> set (accounts D) \<Longrightarrow> \<exists>r'\<in>set (accounts D'). same_account r r'"
    "a \<in> set (audit_log D) \<Longrightarrow> a \<in> set (audit_log D')"
  using assms unfolding rely_def by blast+

lemma relyI:
  assumes "ledger_ok D \<Longrightarrow> ledger_ok D'"
    "\<And>t. ledger_ok D \<Longrightarrow> t \<in> set (transactions D) \<Longrightarrow> t \<in> set (transactions D')"
    "\<And>t. ledger_ok D \<Longrightarrow> t \<in> set (transactions D) \<Longrightarrow> legs (tr_id t) (entries D') = legs (tr_id t) (entries D)"
    "\<And>r. ledger_ok D \<Longrightarrow> r \<in> set (accounts D) \<Longrightarrow> \<exists>r'\<in>set (accounts D'). same_account r r'"
    "\<And>a. ledger_ok D \<Longrightarrow> a \<in> set (audit_log D) \<Longrightarrow> a \<in> set (audit_log D')"
  shows "rely D D'"
  using assms unfolding rely_def by blast

lemma rely_refl [simp]: "rely D D"
  by (rule relyI) (auto simp: same_account_def)

lemma rely_trans:
  assumes DE: "rely D E" and EF: "rely E F"
  shows "rely D F"
proof (rule relyI)
  assume D: "ledger_ok D"
  note d = relyD [OF DE D] and e = relyD [OF EF relyD(1) [OF DE D]]
  show "ledger_ok F" by (rule e(1))
  show "t \<in> set (transactions F)" if "t \<in> set (transactions D)" for t using e(2) d(2) that by blast
  show "a \<in> set (audit_log F)" if "a \<in> set (audit_log D)" for a using e(5) d(5) that by blast
  show "legs (tr_id t) (entries F) = legs (tr_id t) (entries D)" if t: "t \<in> set (transactions D)" for t
    using e(3) [OF d(2) [OF t]] d(3) [OF t] by (rule trans)
  show "\<exists>t\<in>set (accounts F). same_account r t" if r: "r \<in> set (accounts D)" for r
    using d(4) [OF r] e(4) by (blast intro: same_account_trans)
qed

subsection \<open>A posting keeps the ledger correct\<close>

lemma legs_append:
  "legs t (es @ fs) = (if \<forall>f\<in>set fs. er_transaction_id f \<noteq> t then legs t es
     else sort_key er_id (filter (\<lambda>e. er_transaction_id e = t) es @ filter (\<lambda>e. er_transaction_id e = t) fs))"
  by (auto simp: legs_def filter_empty_conv)

lemma account_net_append:
  "account_net a (es @ [d, c]) = account_net a es + (if er_account_id d = a then signed d else 0)
     + (if er_account_id c = a then signed c else 0)"
  by (simp add: account_net_def)

lemma posting_legs [simp]:
  "er_transaction_id (debit_leg P) = tr_id (p_txn P)" "er_transaction_id (credit_leg P) = tr_id (p_txn P)"
  "er_account_id (debit_leg P) = p_src P" "er_account_id (credit_leg P) = p_dst P"
  "er_amount (debit_leg P) = p_amount P" "er_amount (credit_leg P) = p_amount P"
  "er_direction (debit_leg P) = DirectionDebit" "er_direction (credit_leg P) = DirectionCredit"
  "er_id (debit_leg P) = p_debit_id P" "er_id (credit_leg P) = p_credit_id P"
  "signed (debit_leg P) = - p_amount P" "signed (credit_leg P) = p_amount P"
  by (simp_all add: debit_leg_def credit_leg_def signed_def direction_defs)

lemma apply_posting_sel [simp]:
  "accounts (apply_posting P D) = map (move_row P) (accounts D)"
  "transactions (apply_posting P D) = transactions D @ [p_txn P]"
  "entries (apply_posting P D) = entries D @ [debit_leg P, credit_leg P]"
  "audit_log (apply_posting P D) = audit_log D"
  by (simp_all add: apply_posting_def)

lemma move_row_sel [simp]:
  "ar_id (move_row P r) = ar_id r" "ar_name (move_row P r) = ar_name r"
  "ar_is_system (move_row P r) = ar_is_system r" "ar_created_at (move_row P r) = ar_created_at r"
  by (simp_all add: move_row_def)

lemma ar_ids_move_row [simp]: "map (ar_id \<circ> move_row P) = map ar_id" "ar_id ` move_row P ` A = ar_id ` A"
  by (auto simp: fun_eq_iff image_image)

lemma violated_unique_Nil:
  "violated_unique t D = [] \<longleftrightarrow>
     tr_id t \<notin> tr_id ` set (transactions D) \<and>
     tr_idempotency_key t \<notin> tr_idempotency_key ` set (transactions D) \<and>
     (tr_reverses_transaction_id t \<noteq> None \<longrightarrow>
        tr_reverses_transaction_id t \<notin> tr_reverses_transaction_id ` set (transactions D))"
  by (auto simp: violated_unique_def image_iff) (metis+)

lemma tx_fresh: "violated_unique t D = [] \<Longrightarrow> t' \<in> set (transactions D) \<Longrightarrow> tr_id t' \<noteq> tr_id t"
  by (metis violated_unique_Nil imageI)

lemma legs_apply_old:
  "r \<noteq> tr_id (p_txn P) \<Longrightarrow> legs r (entries (apply_posting P D)) = legs r (entries D)"
  by (simp add: legs_append)

lemma legs_apply_new:
  assumes "\<forall>e\<in>set (entries D). er_transaction_id e \<noteq> tr_id (p_txn P)" "p_debit_id P < p_credit_id P"
  shows "legs (tr_id (p_txn P)) (entries (apply_posting P D)) = [debit_leg P, credit_leg P]"
  using assms by (simp add: legs_append filter_empty_conv)

lemma keys_ok_posting:
  assumes "keys_ok D" "violated_unique (p_txn P) D = []"
  shows "keys_ok (apply_posting P D)"
  using assms by (auto simp: keys_ok_def violated_unique_Nil)

lemma account_ok_posting:
  assumes "posting_ok P D" "account_ok D r" "r \<in> set (accounts D)"
  shows "account_ok (apply_posting P D) (move_row P r)"
proof -
  have ne: "p_src P \<noteq> p_dst P" and amt: "0 < p_amount P" using assms(1) by (simp_all add: posting_ok_def)
  have s: "ar_id r = p_src P \<longrightarrow> (\<not> ar_is_system r \<longrightarrow> p_amount P \<le> ar_balance r) \<and> numeric_fits (ar_balance r - p_amount P)"
    and d: "ar_id r = p_dst P \<longrightarrow> numeric_fits (ar_balance r + p_amount P)"
    using assms(1, 3) by (auto simp: posting_ok_def)
  show ?thesis
  proof (cases "ar_id r = p_src P")
    case True
    with ne s assms(2) show ?thesis
      by (auto simp: account_ok_def account_net_append move_row_def)
  next
    case False
    with ne amt d assms(2) show ?thesis
      by (auto simp: account_ok_def account_net_append move_row_def)
  qed
qed

lemma entry_fresh:
  assumes "ledger_ok D" "violated_unique (p_txn P) D = []" "e \<in> set (entries D)"
  shows "er_transaction_id e \<noteq> tr_id (p_txn P)"
proof -
  have "er_transaction_id e \<in> tr_id ` set (transactions D)"
    using assms(1, 3) by (simp add: ledger_ok_def entry_ok_def)
  then obtain x where "x \<in> set (transactions D)" "er_transaction_id e = tr_id x" by blast
  with tx_fresh [OF assms(2) this(1)] show ?thesis by simp
qed

lemma entry_ok_posting: "entry_ok D e \<Longrightarrow> entry_ok (apply_posting P D) e"
  by (auto simp: entry_ok_def image_image)

lemma transaction_ok_old:
  assumes "ledger_ok D" "violated_unique (p_txn P) D = []" "t \<in> set (transactions D)"
  shows "transaction_ok (apply_posting P D) t"
proof -
  have fresh: "tr_id t' \<noteq> tr_id (p_txn P)" if "t' \<in> set (transactions D)" for t'
    using assms(2) that by (rule tx_fresh)
  have l: "legs (tr_id t') (entries (apply_posting P D)) = legs (tr_id t') (entries D)"
    if "t' \<in> set (transactions D)" for t'
    using fresh [OF that] by (rule legs_apply_old)
  have ok: "transaction_ok D t" using assms(1, 3) by (simp add: ledger_ok_def)
  show ?thesis
  proof (cases "tr_reverses_transaction_id t")
    case None
    with ok show ?thesis by (simp only: transaction_ok_def l [OF assms(3)] option.case)
  next
    case (Some r)
    with ok obtain orig where orig: "orig \<in> set (transactions D)" "tr_id orig = r" "tr_kind orig = KindTransfer"
      "mirrored (legs r (entries D)) (legs (tr_id t) (entries D))"
      by (auto simp: transaction_ok_def Let_def)
    have lr: "legs r (entries (apply_posting P D)) = legs r (entries D)"
      using l [OF orig(1)] orig(2) by simp
    have "\<exists>orig\<in>set (transactions (apply_posting P D)). tr_id orig = r \<and> tr_kind orig = KindTransfer \<and>
        mirrored (legs r (entries D)) (legs (tr_id t) (entries D))"
      using orig by auto
    with ok Some show ?thesis
      by (simp only: transaction_ok_def l [OF assms(3)] lr option.case Let_def simp_thms) blast
  qed
qed

lemma transaction_ok_new:
  assumes "ledger_ok D" "posting_ok P D"
  shows "transaction_ok (apply_posting P D) (p_txn P)"
proof -
  have fresh: "violated_unique (p_txn P) D = []" and ids: "p_debit_id P < p_credit_id P"
    and ne: "p_src P \<noteq> p_dst P" and kind: "kind_ok P D"
    using assms(2) by (simp_all add: posting_ok_def)
  have l: "legs (tr_id (p_txn P)) (entries (apply_posting P D)) = [debit_leg P, credit_leg P]"
    using entry_fresh [OF assms(1) fresh] ids by (intro legs_apply_new) blast+
  consider (plain) "tr_reverses_transaction_id (p_txn P) = None" "tr_kind (p_txn P) \<noteq> KindReversal"
      "tr_kind (p_txn P) = KindTransfer \<or> tr_kind (p_txn P) = KindDeposit"
    | (rev) orig where "tr_kind (p_txn P) = KindReversal" "orig \<in> set (transactions D)"
      "tr_reverses_transaction_id (p_txn P) = Some (tr_id orig)" "tr_kind orig = KindTransfer"
      "mirrored (legs (tr_id orig) (entries D)) [debit_leg P, credit_leg P]"
    using kind by (auto simp: kind_ok_def Let_def kind_defs)
  then show ?thesis
  proof cases
    case plain
    with ne kind show ?thesis
      by (auto simp: transaction_ok_def l Let_def kind_ok_def kind_defs simp del: apply_posting_sel(3))
  next
    case rev
    have "legs (tr_id orig) (entries (apply_posting P D)) = legs (tr_id orig) (entries D)"
      by (rule legs_apply_old, rule tx_fresh [OF fresh rev(2)])
    with rev ne show ?thesis
      by (auto simp: transaction_ok_def l Let_def kind_defs simp del: apply_posting_sel(3))
  qed
qed

lemma ledger_ok_posting:
  assumes "ledger_ok D" "posting_ok P D"
  shows "ledger_ok (apply_posting P D)"
proof -
  have fresh: "violated_unique (p_txn P) D = []" using assms(2) by (simp add: posting_ok_def)
  have "entry_ok (apply_posting P D) (debit_leg P)" "entry_ok (apply_posting P D) (credit_leg P)"
    using assms(2) by (auto simp: entry_ok_def posting_ok_def image_image)
  moreover have "\<forall>e\<in>set (entries D). entry_ok (apply_posting P D) e"
    using assms(1) by (simp add: ledger_ok_def entry_ok_posting)
  moreover have "keys_ok (apply_posting P D)"
    using assms(1) fresh by (simp add: ledger_ok_def keys_ok_posting)
  moreover have "\<forall>t\<in>set (transactions (apply_posting P D)). transaction_ok (apply_posting P D) t"
    using transaction_ok_old [OF assms(1) fresh] transaction_ok_new [OF assms] by auto
  moreover have "\<forall>r\<in>set (accounts (apply_posting P D)). account_ok (apply_posting P D) r"
    using account_ok_posting [OF assms(2)] assms(1) by (auto simp: ledger_ok_def)
  moreover have "ExternalAccountID \<in> ar_id ` set (accounts (apply_posting P D))"
    using assms(1) by (simp add: ledger_ok_def)
  ultimately show ?thesis by (simp add: ledger_ok_def)
qed

lemma rely_posting:
  assumes "ledger_ok D \<Longrightarrow> posting_ok P D"
  shows "rely D (apply_posting P D)"
proof (rule relyI)
  assume D: "ledger_ok D"
  then have fresh: "violated_unique (p_txn P) D = []" using assms by (simp add: posting_ok_def)
  show "ledger_ok (apply_posting P D)" using D assms by (blast intro: ledger_ok_posting)
  show "legs (tr_id t) (entries (apply_posting P D)) = legs (tr_id t) (entries D)"
    if "t \<in> set (transactions D)" for t
    using that by (intro legs_apply_old tx_fresh [OF fresh])
  show "\<exists>r'\<in>set (accounts (apply_posting P D)). same_account r r'" if "r \<in> set (accounts D)" for r
    using that by (intro bexI [of _ "move_row P r"]) (simp_all add: same_account_def)
qed simp_all

subsection \<open>Other changes\<close>

text \<open>A new account with balance zero, and a new audit row.\<close>

definition add_account :: "account_row \<Rightarrow> db \<Rightarrow> db" where
  "add_account r D = D\<lparr>accounts := accounts D @ [r]\<rparr>"

definition new_account_ok :: "account_row \<Rightarrow> db \<Rightarrow> bool" where
  "new_account_ok r D \<longleftrightarrow> ar_id r \<notin> ar_id ` set (accounts D) \<and> wf_uuid (ar_id r) \<and>
     \<not> ar_is_system r \<and> ar_balance r = 0"

definition add_audit :: "audit_row \<Rightarrow> db \<Rightarrow> db" where
  "add_audit a D = D\<lparr>audit_log := audit_log D @ [a]\<rparr>"

lemma account_net_unused: "\<forall>e\<in>set es. er_account_id e \<noteq> a \<Longrightarrow> account_net a es = 0"
proof -
  assume "\<forall>e\<in>set es. er_account_id e \<noteq> a"
  then have "filter (\<lambda>e. er_account_id e = a) es = []" by (simp add: filter_empty_conv)
  then show ?thesis by (simp add: account_net_def)
qed

lemma transaction_ok_frame:
  "transactions D' = transactions D \<Longrightarrow> entries D' = entries D \<Longrightarrow> transaction_ok D' t = transaction_ok D t"
  by (cases "tr_reverses_transaction_id t") (simp_all add: transaction_ok_def)

lemma ledger_ok_add_account:
  assumes "ledger_ok D" "new_account_ok r D"
  shows "ledger_ok (add_account r D)"
proof -
  have unused: "er_account_id e \<noteq> ar_id r" if "e \<in> set (entries D)" for e
  proof -
    have "er_account_id e \<in> ar_id ` set (accounts D)"
      using assms(1) that by (simp add: ledger_ok_def entry_ok_def)
    moreover have "ar_id r \<notin> ar_id ` set (accounts D)" using assms(2) by (simp add: new_account_ok_def)
    ultimately show ?thesis by metis
  qed
  have net: "account_net (ar_id r) (entries D) = 0"
    using unused by (intro account_net_unused) blast
  have ext: "ar_id r \<noteq> ExternalAccountID"
    using assms unfolding ledger_ok_def new_account_ok_def by metis
  have fr: "transaction_ok (add_account r D) t = transaction_ok D t"
    "account_ok (add_account r D) r' = account_ok D r'" for t r'
    by (rule transaction_ok_frame) (simp_all add: add_account_def account_ok_def)
  have "\<forall>r'\<in>set (accounts (add_account r D)). account_ok (add_account r D) r'"
  proof
    fix r' assume "r' \<in> set (accounts (add_account r D))"
    then have "r' = r \<or> r' \<in> set (accounts D)" by (auto simp: add_account_def)
    then show "account_ok (add_account r D) r'"
      unfolding fr using assms net ext by (auto simp: account_ok_def new_account_ok_def ledger_ok_def numeric_fits_def)
  qed
  moreover have "keys_ok (add_account r D)"
    using assms by (auto simp: keys_ok_def ledger_ok_def new_account_ok_def add_account_def)
  moreover have "\<forall>e\<in>set (entries (add_account r D)). entry_ok (add_account r D) e"
    using assms(1) by (simp add: ledger_ok_def entry_ok_def add_account_def)
  moreover have "\<forall>t\<in>set (transactions (add_account r D)). transaction_ok (add_account r D) t"
    unfolding fr using assms(1) by (simp add: ledger_ok_def add_account_def)
  moreover have "ExternalAccountID \<in> ar_id ` set (accounts (add_account r D))"
    using assms(1) by (simp add: ledger_ok_def add_account_def)
  ultimately show ?thesis unfolding ledger_ok_def by blast
qed

lemma rely_add_account: "new_account_ok r D \<Longrightarrow> rely D (add_account r D)"
  by (rule relyI) (simp_all add: ledger_ok_add_account, auto simp: add_account_def same_account_def)

lemma ledger_ok_add_audit: "ledger_ok (add_audit a D) \<longleftrightarrow> ledger_ok D"
proof -
  have "transaction_ok (add_audit a D) t = transaction_ok D t" for t
    by (rule transaction_ok_frame) (simp_all add: add_audit_def)
  moreover have "account_ok (add_audit a D) r = account_ok D r" for r
    by (simp add: account_ok_def add_audit_def)
  moreover have "entry_ok (add_audit a D) e = entry_ok D e" for e
    by (simp add: entry_ok_def add_audit_def)
  ultimately show ?thesis by (simp add: ledger_ok_def keys_ok_def) (simp add: add_audit_def)
qed

lemma rely_add_audit: "rely D (add_audit a D)"
  by (rule relyI) (simp_all add: ledger_ok_add_audit, auto simp: add_audit_def same_account_def)

subsection \<open>What the invariant gives\<close>

lemma sum_list_filter_partition:
  assumes "distinct ks" "\<forall>x\<in>set xs. f x \<in> set ks"
  shows "(\<Sum>k\<leftarrow>ks. \<Sum>x\<leftarrow>filter (\<lambda>x. f x = k) xs. g x) = (\<Sum>x\<leftarrow>xs. g x :: int)"
  using assms(2)
proof (induction xs)
  case (Cons x xs)
  have "(\<Sum>k\<leftarrow>ks. \<Sum>y\<leftarrow>filter (\<lambda>y. f y = k) (x # xs). g y) =
      (\<Sum>k\<leftarrow>ks. (if k = f x then g x else 0) + (\<Sum>y\<leftarrow>filter (\<lambda>y. f y = k) xs. g y))"
    by (rule arg_cong [of _ _ sum_list], rule map_cong) auto
  also have "\<dots> = (\<Sum>k\<leftarrow>ks. if k = f x then g x else 0) + (\<Sum>y\<leftarrow>xs. g y)"
    using Cons by (simp add: sum_list_addf)
  also have "(\<Sum>k\<leftarrow>ks. if k = f x then g x else 0) = g x"
    using assms(1) Cons.prems by (simp add: sum_list_distinct_conv_sum_set)
  finally show ?case by simp
qed simp

definition total_balance :: "db \<Rightarrow> int" where
  "total_balance D = (\<Sum>r\<leftarrow>accounts D. ar_balance r)"

lemma tx_net_legs: "tx_net t es = sum_list (map signed (legs t es))"
proof -
  have "mset (map signed (legs t es)) = mset (map signed (filter (\<lambda>e. er_transaction_id e = t) es))"
    by (simp add: legs_def)
  then show ?thesis unfolding tx_net_def by (metis sum_mset_sum_list)
qed

lemma two_legs_cases:
  assumes "two_legs ls"
  obtains d c where "ls = [d, c]" "er_direction d = DirectionDebit" "er_direction c = DirectionCredit"
    "er_amount d = er_amount c" "er_account_id d \<noteq> er_account_id c"
  using assms by (cases ls rule: two_legs.cases) auto

lemma two_legs_net: "two_legs ls \<Longrightarrow> sum_list (map signed ls) = 0"
  by (erule two_legs_cases) (simp add: signed_def direction_defs)

lemma ledger_tx_net:
  assumes "ledger_ok D" "t \<in> set (transactions D)"
  shows "tx_net (tr_id t) (entries D) = 0"
  using assms by (simp add: tx_net_legs two_legs_net ledger_ok_def transaction_ok_def Let_def)

lemma ledger_total:
  assumes "ledger_ok D"
  shows "total_balance D = 0"
proof -
  have "total_balance D = (\<Sum>r\<leftarrow>accounts D. account_net (ar_id r) (entries D))"
    unfolding total_balance_def using assms
    by (intro arg_cong [of _ _ sum_list] map_cong) (simp_all add: ledger_ok_def account_ok_def)
  also have "\<dots> = (\<Sum>a\<leftarrow>map ar_id (accounts D). \<Sum>e\<leftarrow>filter (\<lambda>e. er_account_id e = a) (entries D). signed e)"
    by (simp add: account_net_def comp_def)
  also have "\<dots> = (\<Sum>e\<leftarrow>entries D. signed e)"
    using assms by (intro sum_list_filter_partition) (auto simp: ledger_ok_def keys_ok_def entry_ok_def)
  also have "\<dots> = (\<Sum>t\<leftarrow>map tr_id (transactions D). \<Sum>e\<leftarrow>filter (\<lambda>e. er_transaction_id e = t) (entries D). signed e)"
    using assms by (intro sum_list_filter_partition [symmetric]) (auto simp: ledger_ok_def keys_ok_def entry_ok_def)
  also have "\<dots> = (\<Sum>t\<leftarrow>transactions D. tx_net (tr_id t) (entries D))"
    by (simp add: tx_net_def comp_def)
  also have "\<dots> = (\<Sum>t\<leftarrow>transactions D. 0)"
    using ledger_tx_net [OF assms] by (intro arg_cong [of _ _ sum_list] map_cong) simp_all
  finally show ?thesis by simp
qed

end
