(* ===== verification/Exec.thy ===== *)
theory Exec
  imports Ledger
begin

text \<open>
  Reasoning about runs: what a successful sequence of calls must have done, and what every run keeps,
  whatever fails on the way. \<open>env_ok\<close> collects what the program relies on of its surroundings:
  other clients keep \<open>rely\<close>, the server sends numbers in its documented form, collations tell texts
  apart, sequences grow, the random source fills its buffer.
\<close>

subsection \<open>Successful runs\<close>

named_theorems run_simps

lemma returnM_run [run_simps]: "returnM x w = (r, w') \<longleftrightarrow> r = Inr x \<and> w' = w"
  by (auto simp: returnM_def)

lemma throwM_run [run_simps]: "throwM e w = (r, w') \<longleftrightarrow> r = Inl e \<and> w' = w"
  by (auto simp: throwM_def)

lemma liftM_run [run_simps]: "liftM s w = (r, w') \<longleftrightarrow> r = s \<and> w' = w"
  by (auto simp: liftM_def)

lemma bindM_Inr [run_simps]:
  "bindM m f w = (Inr y, w') \<longleftrightarrow> (\<exists>x w1. m w = (Inr x, w1) \<and> f x w1 = (Inr y, w'))"
  by (auto simp: bindM_def split: prod.splits sum.splits)

lemma bindM_Inl:
  "bindM m f w = (Inl e, w') \<longleftrightarrow> m w = (Inl e, w') \<or> (\<exists>x w1. m w = (Inr x, w1) \<and> f x w1 = (Inl e, w'))"
  by (auto simp: bindM_def split: prod.splits sum.splits)

lemma mapErr_Inr [run_simps]: "mapErr g m w = (Inr x, w') \<longleftrightarrow> m w = (Inr x, w')"
  by (auto simp: mapErr_def split: prod.splits sum.splits)

lemma tryM_run [run_simps]: "tryM m w = (Inr r, w') \<longleftrightarrow> m w = (r, w')" "tryM m w \<noteq> (Inl e, w')"
  by (auto simp: tryM_def split: prod.splits)

text \<open>Evaluation in the forward direction.\<close>

named_theorems run_eval

lemma bindM_eval [run_eval]:
  "m w = (Inr x, w1) \<Longrightarrow> bindM m f w = f x w1" "m w = (Inl e, w1) \<Longrightarrow> bindM m f w = (Inl e, w1)"
  by (simp_all add: bindM_def)

lemma mapErr_eval [run_eval]:
  "m w = (Inr x, w1) \<Longrightarrow> mapErr g m w = (Inr x, w1)" "m w = (Inl e, w1) \<Longrightarrow> mapErr g m w = (Inl (g e), w1)"
  by (simp_all add: mapErr_def)

lemma tryM_eval [run_eval]: "m w = (r, w1) \<Longrightarrow> tryM m w = (Inr r, w1)"
  by (simp add: tryM_def)

lemma return_eval [run_eval]: "returnM x w = (Inr x, w)" "throwM e w = (Inl e, w)" "liftM r w = (r, w)"
  by (simp_all add: returnM_def throwM_def liftM_def)

lemma run_call_Inr [run_simps]:
  "run_call ft f w = (Inr x, w') \<longleftrightarrow> ft = Proceed \<and> (\<exists>D. f (wdb w) = Inr (x, D) \<and> w' = w\<lparr>wdb := D\<rparr>)"
  by (auto simp: run_call_def split: fate.splits sum.splits)

lemma tx_call_Inr [run_simps]:
  "tx_call env f w = (Inr x, w') \<longleftrightarrow>
     fate env (tick w) = Proceed \<and>
     (\<exists>D. f (tick w) (wdb w) = Inr (x, D) \<and> w' = w\<lparr>tick := tick w + 1, wdb := D\<rparr>)"
  by (auto simp: tx_call_def run_call_Inr)

lemma query_Inr [run_simps]: "query q k D = Inr (x, D') \<longleftrightarrow> q k D = Inr x \<and> D' = D"
  by (cases "q k D") (auto simp: query_def)

lemma map_sum_Pair [run_simps]: "map_sum id (Pair ()) r = Inr (u, D) \<longleftrightarrow> r = Inr D"
  by (cases r) auto

lemma mapM_lift:
  "mapM (\<lambda>r. mapErr g (liftM (h r))) rows w = (Inr ys, w') \<longleftrightarrow>
     w' = w \<and> list_all2 (\<lambda>r y. h r = Inr y) rows ys"
  by (induction rows arbitrary: ys) (auto simp: run_simps list_all2_Cons1)

subsection \<open>What every run keeps\<close>

definition keeps :: "(world \<Rightarrow> world \<Rightarrow> bool) \<Rightarrow> 'a M \<Rightarrow> bool" where
  "keeps R m \<longleftrightarrow> (\<forall>w. R w (snd (m w)))"

locale world_preorder =
  fixes R :: "world \<Rightarrow> world \<Rightarrow> bool"
  assumes R_refl: "R w w"
    and R_trans: "R u v \<Longrightarrow> R v w \<Longrightarrow> R u w"
begin

lemma keeps_pure: "keeps R (returnM x)" "keeps R (throwM e)" "keeps R (liftM r)"
  by (simp_all add: keeps_def returnM_def throwM_def liftM_def R_refl)

lemma keeps_bind: "keeps R m \<Longrightarrow> (\<And>x. keeps R (f x)) \<Longrightarrow> keeps R (bindM m f)"
  unfolding keeps_def bindM_def
  by (auto split: prod.splits sum.splits) (metis R_trans snd_conv)+

lemma keeps_mapErr: "keeps R m \<Longrightarrow> keeps R (mapErr g m)"
  unfolding keeps_def mapErr_def by (auto split: prod.splits sum.splits) (metis snd_conv)+

lemma keeps_tryM: "keeps R m \<Longrightarrow> keeps R (tryM m)"
  unfolding keeps_def tryM_def by (auto split: prod.splits) (metis snd_conv)

lemma keeps_mapM: "(\<And>x. keeps R (f x)) \<Longrightarrow> keeps R (mapM f xs)"
  by (induction xs) (auto intro!: keeps_pure keeps_bind)

lemmas keeps_intros = keeps_pure keeps_bind keeps_mapErr keeps_tryM keeps_mapM

end

text \<open>A relation on databases, seen on worlds.\<close>

definition lift_db :: "(db \<Rightarrow> db \<Rightarrow> bool) \<Rightarrow> world \<Rightarrow> world \<Rightarrow> bool" where
  "lift_db R w w' \<longleftrightarrow> R (wdb w) (wdb w')"

text \<open>The books stay as they are; only the audit log may grow.\<close>

definition books_kept :: "db \<Rightarrow> db \<Rightarrow> bool" where
  "books_kept D D' \<longleftrightarrow> accounts D' = accounts D \<and> transactions D' = transactions D \<and> entries D' = entries D \<and>
     set (audit_log D) \<subseteq> set (audit_log D')"

lemma books_kept_refl [simp]: "books_kept D D"
  by (simp add: books_kept_def)

lemma books_kept_trans: "books_kept D E \<Longrightarrow> books_kept E F \<Longrightarrow> books_kept D F"
  by (auto simp: books_kept_def)

lemma ledger_ok_books:
  assumes "accounts D' = accounts D" "transactions D' = transactions D" "entries D' = entries D"
  shows "ledger_ok D' = ledger_ok D"
proof -
  have "transaction_ok D' t = transaction_ok D t" for t
    using assms by (intro transaction_ok_frame)
  with assms show ?thesis
    by (simp add: ledger_ok_def keys_ok_def account_ok_def entry_ok_def)
qed

lemma books_kept_rely: "books_kept D D' \<Longrightarrow> rely D D'"
proof (rule relyI)
  assume k: "books_kept D D'"
  then show "ledger_ok D \<Longrightarrow> ledger_ok D'"
    using ledger_ok_books [of D' D] by (simp add: books_kept_def)
  show "\<exists>r'\<in>set (accounts D'). same_account r r'" if "r \<in> set (accounts D)" for r
    using k that by (auto simp: books_kept_def same_account_def)
qed (auto simp: books_kept_def)

subsection \<open>The surroundings\<close>

definition env_ok :: "env \<Rightarrow> bool" where
  "env_ok env \<longleftrightarrow>
     (\<forall>k D. rely D (others env k D)) \<and>
     (\<forall>u. numeric_fits u \<longrightarrow> numeric_msg u (numeric_send env u)) \<and>
     inj (collation env) \<and>
     (\<forall>k xs. mset (plan_accounts env k xs) = mset xs) \<and>
     (\<forall>k xs. mset (plan_transactions env k xs) = mset xs) \<and>
     (\<forall>k xs. mset (plan_audit env k xs) = mset xs) \<and>
     (\<forall>vs. vs \<noteq> [] \<longrightarrow> report env vs \<in> set vs) \<and>
     strict_mono (nextval env) \<and>
     (\<forall>k b. random env k = Inr b \<longrightarrow> length b = 16)"

lemma env_okD:
  assumes "env_ok env"
  shows "rely D (others env k D)" "numeric_fits u \<Longrightarrow> numeric_msg u (numeric_send env u)"
    "inj (collation env)" "vs \<noteq> [] \<Longrightarrow> report env vs \<in> set vs" "strict_mono (nextval env)"
    "random env k = Inr b \<Longrightarrow> length b = 16"
    "mset (plan_accounts env k xs) = mset xs" "mset (plan_transactions env k ys) = mset ys"
    "mset (plan_audit env k zs) = mset zs"
  using assms by (simp_all add: env_ok_def)

text \<open>No other client is there; and moreover no call fails.\<close>

definition alone :: "env \<Rightarrow> bool" where
  "alone env \<longleftrightarrow> (\<forall>k D. others env k D = D)"

definition calm :: "env \<Rightarrow> bool" where
  "calm env \<longleftrightarrow> alone env \<and> (\<forall>k. fate env k = Proceed) \<and> (\<forall>k. \<exists>b. random env k = Inr b)"

subsection \<open>Calls keep a relation on databases\<close>

text \<open>For a reflexive and transitive relation that interference from others respects.\<close>

locale interference =
  fixes ok :: "env \<Rightarrow> bool" and R :: "db \<Rightarrow> db \<Rightarrow> bool"
  assumes db_refl: "R D D"
    and db_trans: "R D E \<Longrightarrow> R E F \<Longrightarrow> R D F"
    and db_others: "ok env \<Longrightarrow> R D (others env k D)"

sublocale interference \<subseteq> world_preorder "lift_db R"
  by unfold_locales (simp_all add: lift_db_def db_refl, erule (1) db_trans)

context interference
begin

lemma run_call_R:
  assumes "\<And>x D'. f (wdb w) = Inr (x, D') \<Longrightarrow> R (wdb w) D'"
  shows "lift_db R w (snd (run_call ft f w))"
  using assms by (auto simp: run_call_def lift_db_def db_refl split: fate.splits sum.splits)

lemma keeps_pool_call:
  assumes "ok env" "\<And>k D x D'. f k D = Inr (x, D') \<Longrightarrow> R D D'"
  shows "keeps (lift_db R) (pool_call env f)"
  unfolding keeps_def pool_call_def
proof
  fix w :: world
  let ?w = "w\<lparr>tick := tick w + 1, wdb := others env (tick w) (wdb w)\<rparr>"
  have "lift_db R w ?w" using db_others [OF assms(1)] by (simp add: lift_db_def)
  moreover have "lift_db R ?w (snd (run_call (fate env (tick w)) (f (tick w)) ?w))"
    using assms(2) by (intro run_call_R) simp
  ultimately show "lift_db R w (snd (run_call (fate env (tick w)) (f (tick w)) ?w))"
    by (rule R_trans)
qed

lemma keeps_tx_query: "keeps (lift_db R) (tx_call env (query q))"
  unfolding keeps_def tx_call_def
proof
  fix w :: world
  let ?w = "w\<lparr>tick := tick w + 1\<rparr>"
  have "lift_db R ?w (snd (run_call (fate env (tick w)) (query q (tick w)) ?w))"
    by (intro run_call_R) (simp add: query_Inr db_refl)
  then show "lift_db R w (snd (run_call (fate env (tick w)) (query q (tick w)) ?w))"
    by (simp add: lift_db_def)
qed

lemma keeps_pool_query: "ok env \<Longrightarrow> keeps (lift_db R) (pool_call env (query q))"
  by (rule keeps_pool_call) (auto simp: query_Inr db_refl)

lemma keeps_stream_end: "keeps (lift_db R) (stream_end env)"
proof -
  have "stream_end env = tx_call env (query (\<lambda>k D. Inr ()))"
    by (simp add: stream_end_def query_def)
  then show ?thesis by (simp add: keeps_tx_query)
qed

lemma keeps_NewV7: "keeps (lift_db R) (NewV7 env)"
  by (auto simp: keeps_def NewV7_def lift_db_def db_refl split: prod.splits)

end

definition env_alone :: "env \<Rightarrow> bool" where
  "env_alone env \<longleftrightarrow> env_ok env \<and> alone env"

interpretation ir: interference env_ok rely
  by unfold_locales (simp, erule (1) rely_trans, erule env_okD(1))

interpretation ib: interference env_alone books_kept
  by unfold_locales (simp, erule (1) books_kept_trans, simp add: env_alone_def alone_def)

end
