(* ===== verification/Service.thy ===== *)
theory Service
  imports Exec
begin

text \<open>
  \<^verbatim>\<open>internal/ledger/service.go\<close>: the three operations of the ledger over the interface \<^verbatim>\<open>Storer\<close>. The
  interface is a record of functions, as Go's is a table of methods, and the locale \<open>storer\<close> states
  what the service relies on: reads and audit writes keep the ledger correct, and a transaction that
  posts an amount happens entirely or not at all. The service's guarantees are proved in the locale;
  theory \<^verbatim>\<open>Store\<close> shows that the PostgreSQL store provides it.
\<close>

subsection \<open>The interface\<close>

type_synonym txres = "Transaction \<times> Entry list"

record Storer =
  st_WithTx :: "txres M \<Rightarrow> txres M"
  st_GetTransactionByIdempotencyKey :: "string \<Rightarrow> txres M"
  st_GetTransaction :: "UUID \<Rightarrow> txres M"
  st_WriteAudit :: "AuditEntry \<Rightarrow> unit M"
  st_LockAccountsForUpdate :: "UUID list \<Rightarrow> Account list M"
  st_UpdateBalance :: "UUID \<Rightarrow> Money \<Rightarrow> unit M"
  st_InsertTransaction :: "Transaction \<Rightarrow> unit M"
  st_InsertReversalTransaction :: "Transaction \<Rightarrow> unit M"
  st_InsertEntries :: "Entry list \<Rightarrow> unit M"

subsection \<open>Audit\<close>

text \<open>A failed audit write is logged and otherwise ignored.\<close>

definition audit :: "Storer \<Rightarrow> AuditEntry \<Rightarrow> unit M" where
  "audit S entry = bindM (tryM (st_WriteAudit S entry)) (\<lambda>_. returnM ())"

definition auditSuccess ::
  "Storer \<Rightarrow> string \<Rightarrow> UUID option \<Rightarrow> UUID option \<Rightarrow> Money option \<Rightarrow> string \<Rightarrow> UUID option \<Rightarrow> unit M" where
  "auditSuccess S op from to amount requestID txID =
     audit S \<lparr>auID = 0, auOperation = op, auFromAccount = from, auToAccount = to, auAmount = amount,
       auOutcome = OutcomeSuccess, auErrorReason = None, auTransactionID = txID,
       auRequestID = Some requestID, auCreatedAt = zero_time\<rparr>"

definition auditFailure ::
  "Storer \<Rightarrow> string \<Rightarrow> UUID option \<Rightarrow> UUID option \<Rightarrow> Money option \<Rightarrow> string \<Rightarrow> gerror \<Rightarrow> unit M" where
  "auditFailure S op from to amount requestID reason =
     audit S \<lparr>auID = 0, auOperation = op, auFromAccount = from, auToAccount = to, auAmount = amount,
       auOutcome = OutcomeFailure, auErrorReason = Some (err_msg reason), auTransactionID = None,
       auRequestID = Some requestID, auCreatedAt = zero_time\<rparr>"

subsection \<open>Transfer\<close>

text \<open>The loop \<^verbatim>\<open>switch a.ID\<close> over the locked accounts, from two zero accounts.\<close>

fun pick_accounts :: "UUID \<Rightarrow> UUID \<Rightarrow> Account list \<Rightarrow> Account \<times> Account \<Rightarrow> Account \<times> Account" where
  "pick_accounts x y [] acc = acc"
| "pick_accounts x y (a # as) acc =
     pick_accounts x y as
       (if aID a = x then (a, snd acc) else if aID a = y then (fst acc, a) else acc)"

definition Transfer_tx :: "Storer \<Rightarrow> UUID \<Rightarrow> UUID \<Rightarrow> Money \<Rightarrow> Transaction \<Rightarrow> txres M" where
  "Transfer_tx S srcID dstID amount txn =
     bindM (mapErr (Wrap ''service.Transfer lock'') (st_LockAccountsForUpdate S [srcID, dstID])) (\<lambda>locked.
     if length locked \<noteq> 2 then throwM ErrAccountNotFound
     else let (src, dst) = pick_accounts srcID dstID locked (Account_zero, Account_zero) in
     if Money_LessThan (aBalance src) amount then throwM ErrInsufficientFunds
     else
     bindM (st_UpdateBalance S srcID (Money_Sub (aBalance src) amount)) (\<lambda>_.
     bindM (st_UpdateBalance S dstID (Money_Add (aBalance dst) amount)) (\<lambda>_.
     bindM (st_InsertTransaction S txn) (\<lambda>_.
     let entries = [mk_Entry (tID txn) srcID DirectionDebit amount, mk_Entry (tID txn) dstID DirectionCredit amount] in
     bindM (st_InsertEntries S entries) (\<lambda>_.
     returnM (txn, entries))))))"

definition Transfer :: "env \<Rightarrow> Storer \<Rightarrow> UUID \<Rightarrow> UUID \<Rightarrow> Money \<Rightarrow> string \<Rightarrow> string \<Rightarrow> txres M" where
  "Transfer env S srcID dstID amount idemKey requestID =
     (let fail = (\<lambda>err. bindM
            (auditFailure S ''TRANSFER'' (Some srcID) (Some dstID) (Some amount) requestID err) (\<lambda>_. throwM err))
      in
      if \<not> Money_IsPositive amount then fail ErrInvalidAmount
      else if srcID = dstID then fail ErrSelfTransfer
      else if srcID = ExternalAccountID \<or> dstID = ExternalAccountID then fail ErrSystemAccount
      else
        bindM (tryM (st_GetTransactionByIdempotencyKey S idemKey)) (\<lambda>found.
        case found of
          Inr existing \<Rightarrow> returnM existing
        | Inl _ \<Rightarrow>
            bindM (mapErr (Wrap ''service.Transfer uuid'') (NewV7 env)) (\<lambda>txID.
            bindM (tryM (st_WithTx S (Transfer_tx S srcID dstID amount
              (mk_Transaction txID KindTransfer idemKey None)))) (\<lambda>res.
            case res of
              Inl txErr \<Rightarrow>
                if txErr = ErrIdempotencyConflict then
                  bindM (tryM (st_GetTransactionByIdempotencyKey S idemKey)) (\<lambda>refetch.
                  case refetch of Inr existing \<Rightarrow> returnM existing | Inl _ \<Rightarrow> fail txErr)
                else fail txErr
            | Inr committed \<Rightarrow>
                bindM (auditSuccess S ''TRANSFER'' (Some srcID) (Some dstID) (Some amount) requestID (Some txID))
                  (\<lambda>_. returnM committed)))))"

subsection \<open>Reverse\<close>

text \<open>The loop over the entries of the original: source, destination and amount, from zero values.\<close>

fun find_legs :: "Entry list \<Rightarrow> UUID \<times> UUID \<times> Money \<Rightarrow> UUID \<times> UUID \<times> Money" where
  "find_legs [] acc = acc"
| "find_legs (e # es) acc =
     (case acc of (src, dst, amount) \<Rightarrow>
        find_legs es (if eDirection e = DirectionDebit then (eAccountID e, dst, eAmount e)
                      else (src, eAccountID e, amount)))"

definition Reverse_tx :: "Storer \<Rightarrow> UUID \<Rightarrow> UUID \<Rightarrow> Money \<Rightarrow> Transaction \<Rightarrow> txres M" where
  "Reverse_tx S origSrcID origDstID amount revTx =
     bindM (mapErr (Wrap ''service.Reverse lock'') (st_LockAccountsForUpdate S [origSrcID, origDstID])) (\<lambda>locked.
     if length locked \<noteq> 2 then throwM ErrAccountNotFound
     else let (origSrc, origDst) = pick_accounts origSrcID origDstID locked (Account_zero, Account_zero) in
     if Money_LessThan (aBalance origDst) amount then throwM ErrInsufficientFunds
     else
     bindM (st_UpdateBalance S origDstID (Money_Sub (aBalance origDst) amount)) (\<lambda>_.
     bindM (st_UpdateBalance S origSrcID (Money_Add (aBalance origSrc) amount)) (\<lambda>_.
     bindM (st_InsertReversalTransaction S revTx) (\<lambda>_.
     let entries = [mk_Entry (tID revTx) origDstID DirectionDebit amount,
                    mk_Entry (tID revTx) origSrcID DirectionCredit amount] in
     bindM (st_InsertEntries S entries) (\<lambda>_.
     returnM (revTx, entries))))))"

definition Reverse :: "env \<Rightarrow> Storer \<Rightarrow> UUID \<Rightarrow> string \<Rightarrow> string \<Rightarrow> txres M" where
  "Reverse env S originalTxID idemKey requestID =
     bindM (tryM (st_GetTransactionByIdempotencyKey S idemKey)) (\<lambda>found.
     case found of
       Inr existing \<Rightarrow> returnM existing
     | Inl _ \<Rightarrow>
         bindM (tryM (st_GetTransaction S originalTxID)) (\<lambda>orig.
         case orig of
           Inl err \<Rightarrow> bindM (auditFailure S ''REVERSAL'' None None None requestID err) (\<lambda>_. throwM err)
         | Inr (origTx, origEntries) \<Rightarrow>
             if tKind origTx \<noteq> KindTransfer then
               bindM (auditFailure S ''REVERSAL'' None None None requestID ErrNotReversible)
                 (\<lambda>_. throwM ErrNotReversible)
             else
               let (origSrcID, origDstID, amount) = find_legs origEntries (UUID_Nil, UUID_Nil, Money_zero_value);
                   fail = (\<lambda>err. bindM (auditFailure S ''REVERSAL'' (Some origDstID) (Some origSrcID)
                     (Some amount) requestID err) (\<lambda>_. throwM err))
               in
               bindM (mapErr (Wrap ''service.Reverse uuid'') (NewV7 env)) (\<lambda>txID.
               bindM (tryM (st_WithTx S (Reverse_tx S origSrcID origDstID amount
                 (mk_Transaction txID KindReversal idemKey (Some originalTxID))))) (\<lambda>res.
               case res of
                 Inl txErr \<Rightarrow>
                   if txErr = ErrIdempotencyConflict then
                     bindM (tryM (st_GetTransactionByIdempotencyKey S idemKey)) (\<lambda>refetch.
                     case refetch of Inr existing \<Rightarrow> returnM existing | Inl _ \<Rightarrow> fail txErr)
                   else fail txErr
               | Inr committed \<Rightarrow>
                   bindM (auditSuccess S ''REVERSAL'' (Some origDstID) (Some origSrcID) (Some amount)
                     requestID (Some txID)) (\<lambda>_. returnM committed)))))"

subsection \<open>Deposit\<close>

definition Deposit_tx :: "Storer \<Rightarrow> UUID \<Rightarrow> Money \<Rightarrow> Transaction \<Rightarrow> txres M" where
  "Deposit_tx S dstID amount txn =
     bindM (mapErr (Wrap ''service.Deposit lock'') (st_LockAccountsForUpdate S [ExternalAccountID, dstID])) (\<lambda>locked.
     if length locked \<noteq> 2 then throwM ErrAccountNotFound
     else let (ext, dst) = pick_accounts ExternalAccountID dstID locked (Account_zero, Account_zero) in
     bindM (st_UpdateBalance S ExternalAccountID (Money_Sub (aBalance ext) amount)) (\<lambda>_.
     bindM (st_UpdateBalance S dstID (Money_Add (aBalance dst) amount)) (\<lambda>_.
     bindM (st_InsertTransaction S txn) (\<lambda>_.
     let entries = [mk_Entry (tID txn) ExternalAccountID DirectionDebit amount,
                    mk_Entry (tID txn) dstID DirectionCredit amount] in
     bindM (st_InsertEntries S entries) (\<lambda>_.
     returnM (txn, entries))))))"

definition Deposit :: "env \<Rightarrow> Storer \<Rightarrow> UUID \<Rightarrow> Money \<Rightarrow> string \<Rightarrow> string \<Rightarrow> txres M" where
  "Deposit env S dstID amount idemKey requestID =
     (let fail = (\<lambda>err. bindM (auditFailure S ''DEPOSIT'' (Some ExternalAccountID) (Some dstID) (Some amount)
            requestID err) (\<lambda>_. throwM err))
      in
      if \<not> Money_IsPositive amount then fail ErrInvalidAmount
      else if dstID = ExternalAccountID then fail ErrSystemAccount
      else
        bindM (tryM (st_GetTransactionByIdempotencyKey S idemKey)) (\<lambda>found.
        case found of
          Inr existing \<Rightarrow> returnM existing
        | Inl _ \<Rightarrow>
            bindM (mapErr (Wrap ''service.Deposit uuid'') (NewV7 env)) (\<lambda>txID.
            bindM (tryM (st_WithTx S (Deposit_tx S dstID amount
              (mk_Transaction txID KindDeposit idemKey None)))) (\<lambda>res.
            case res of
              Inl txErr \<Rightarrow>
                if txErr = ErrIdempotencyConflict then
                  bindM (tryM (st_GetTransactionByIdempotencyKey S idemKey)) (\<lambda>refetch.
                  case refetch of Inr existing \<Rightarrow> returnM existing | Inl _ \<Rightarrow> fail txErr)
                else fail txErr
            | Inr committed \<Rightarrow>
                bindM (auditSuccess S ''DEPOSIT'' (Some ExternalAccountID) (Some dstID) (Some amount)
                  requestID (Some txID)) (\<lambda>_. returnM committed)))))"

subsection \<open>The shape the three transactions share\<close>

text \<open>
  Lock two accounts, optionally check the funds of the payer, move the amount, insert the header and
  the two legs. \<open>swapped\<close> makes the second account the payer.
\<close>

definition posting_tx ::
  "Storer \<Rightarrow> string \<Rightarrow> UUID \<Rightarrow> UUID \<Rightarrow> bool \<Rightarrow> bool \<Rightarrow> (Transaction \<Rightarrow> unit M) \<Rightarrow> Money \<Rightarrow> Transaction \<Rightarrow> txres M" where
  "posting_tx S msg a b swapped check ins amount txn =
     bindM (mapErr (Wrap msg) (st_LockAccountsForUpdate S [a, b])) (\<lambda>locked.
     if length locked \<noteq> 2 then throwM ErrAccountNotFound
     else let (x, y) = pick_accounts a b locked (Account_zero, Account_zero);
              (payer, payee) = (if swapped then (y, x) else (x, y));
              (from, to) = (if swapped then (b, a) else (a, b)) in
     if check \<and> Money_LessThan (aBalance payer) amount then throwM ErrInsufficientFunds
     else
     bindM (st_UpdateBalance S from (Money_Sub (aBalance payer) amount)) (\<lambda>_.
     bindM (st_UpdateBalance S to (Money_Add (aBalance payee) amount)) (\<lambda>_.
     bindM (ins txn) (\<lambda>_.
     let entries = [mk_Entry (tID txn) from DirectionDebit amount, mk_Entry (tID txn) to DirectionCredit amount] in
     bindM (st_InsertEntries S entries) (\<lambda>_.
     returnM (txn, entries))))))"

lemma tx_shapes:
  "Transfer_tx S a b amount txn =
     posting_tx S ''service.Transfer lock'' a b False True (st_InsertTransaction S) amount txn"
  "Reverse_tx S a b amount txn =
     posting_tx S ''service.Reverse lock'' a b True True (st_InsertReversalTransaction S) amount txn"
  "Deposit_tx S b amount txn =
     posting_tx S ''service.Deposit lock'' ExternalAccountID b False False (st_InsertTransaction S) amount txn"
  unfolding Transfer_tx_def Reverse_tx_def Deposit_tx_def posting_tx_def Let_def case_prod_beta
    if_True if_False fst_conv snd_conv simp_thms
  by simp_all

text \<open>What follows the choice of a transaction id: run the transaction, then audit or fetch again.\<close>

definition commit_flow ::
  "Storer \<Rightarrow> string \<Rightarrow> UUID \<Rightarrow> UUID \<Rightarrow> Money \<Rightarrow> string \<Rightarrow> string \<Rightarrow> UUID \<Rightarrow> txres M \<Rightarrow> txres M" where
  "commit_flow S op from to amount requestID idemKey txID body =
     (let fail = (\<lambda>err. bindM (auditFailure S op (Some from) (Some to) (Some amount) requestID err) (\<lambda>_. throwM err))
      in bindM (tryM (st_WithTx S body)) (\<lambda>res.
         case res of
           Inl txErr \<Rightarrow>
             if txErr = ErrIdempotencyConflict then
               bindM (tryM (st_GetTransactionByIdempotencyKey S idemKey)) (\<lambda>refetch.
               case refetch of Inr existing \<Rightarrow> returnM existing | Inl _ \<Rightarrow> fail txErr)
             else fail txErr
         | Inr committed \<Rightarrow>
             bindM (auditSuccess S op (Some from) (Some to) (Some amount) requestID (Some txID))
               (\<lambda>_. returnM committed)))"

lemma Transfer_flow:
  "Transfer env S srcID dstID amount idemKey requestID =
     (let fail = (\<lambda>err. bindM
            (auditFailure S ''TRANSFER'' (Some srcID) (Some dstID) (Some amount) requestID err) (\<lambda>_. throwM err))
      in
      if \<not> Money_IsPositive amount then fail ErrInvalidAmount
      else if srcID = dstID then fail ErrSelfTransfer
      else if srcID = ExternalAccountID \<or> dstID = ExternalAccountID then fail ErrSystemAccount
      else bindM (tryM (st_GetTransactionByIdempotencyKey S idemKey)) (\<lambda>found.
        case found of Inr existing \<Rightarrow> returnM existing
        | Inl _ \<Rightarrow> bindM (mapErr (Wrap ''service.Transfer uuid'') (NewV7 env)) (\<lambda>txID.
            commit_flow S ''TRANSFER'' srcID dstID amount requestID idemKey txID
              (Transfer_tx S srcID dstID amount (mk_Transaction txID KindTransfer idemKey None)))))"
  unfolding Transfer_def commit_flow_def Let_def by (rule refl)

lemma Deposit_flow:
  "Deposit env S dstID amount idemKey requestID =
     (let fail = (\<lambda>err. bindM (auditFailure S ''DEPOSIT'' (Some ExternalAccountID) (Some dstID) (Some amount)
            requestID err) (\<lambda>_. throwM err))
      in
      if \<not> Money_IsPositive amount then fail ErrInvalidAmount
      else if dstID = ExternalAccountID then fail ErrSystemAccount
      else bindM (tryM (st_GetTransactionByIdempotencyKey S idemKey)) (\<lambda>found.
        case found of Inr existing \<Rightarrow> returnM existing
        | Inl _ \<Rightarrow> bindM (mapErr (Wrap ''service.Deposit uuid'') (NewV7 env)) (\<lambda>txID.
            commit_flow S ''DEPOSIT'' ExternalAccountID dstID amount requestID idemKey txID
              (Deposit_tx S dstID amount (mk_Transaction txID KindDeposit idemKey None)))))"
  unfolding Deposit_def commit_flow_def Let_def by (rule refl)

lemma Reverse_flow:
  "Reverse env S originalTxID idemKey requestID =
     bindM (tryM (st_GetTransactionByIdempotencyKey S idemKey)) (\<lambda>found.
     case found of
       Inr existing \<Rightarrow> returnM existing
     | Inl _ \<Rightarrow>
         bindM (tryM (st_GetTransaction S originalTxID)) (\<lambda>orig.
         case orig of
           Inl err \<Rightarrow> bindM (auditFailure S ''REVERSAL'' None None None requestID err) (\<lambda>_. throwM err)
         | Inr (origTx, origEntries) \<Rightarrow>
             if tKind origTx \<noteq> KindTransfer then
               bindM (auditFailure S ''REVERSAL'' None None None requestID ErrNotReversible)
                 (\<lambda>_. throwM ErrNotReversible)
             else
               let (origSrcID, origDstID, amount) = find_legs origEntries (UUID_Nil, UUID_Nil, Money_zero_value) in
               bindM (mapErr (Wrap ''service.Reverse uuid'') (NewV7 env)) (\<lambda>txID.
                 commit_flow S ''REVERSAL'' origDstID origSrcID amount requestID idemKey txID
                   (Reverse_tx S origSrcID origDstID amount
                      (mk_Transaction txID KindReversal idemKey (Some originalTxID))))))"
  unfolding Reverse_def commit_flow_def Let_def by (rule refl)

subsection \<open>What the service relies on\<close>

text \<open>A stored transaction and its legs, as the values a read returns.\<close>

definition entry_matches :: "Entry \<Rightarrow> entry_row \<Rightarrow> bool" where
  "entry_matches e l \<longleftrightarrow> eID e = er_id l \<and> eTransactionID e = er_transaction_id l \<and>
     eAccountID e = er_account_id l \<and> eDirection e = er_direction l \<and> eAmount e = of_units (er_amount l)"

definition stored :: "db \<Rightarrow> transaction_row \<Rightarrow> txres \<Rightarrow> bool" where
  "stored D row res \<longleftrightarrow>
     row \<in> set (transactions D) \<and> tID (fst res) = tr_id row \<and> tKind (fst res) = tr_kind row \<and>
     tIdempotencyKey (fst res) = tr_idempotency_key row \<and>
     tReversesTransactionID (fst res) = tr_reverses_transaction_id row \<and>
     tEntries (fst res) = snd res \<and> list_all2 entry_matches (snd res) (legs (tr_id row) (entries D))"

text \<open>What a transaction of some kind needs of the database it is posted to.\<close>

definition txn_ready :: "Transaction \<Rightarrow> UUID \<Rightarrow> UUID \<Rightarrow> int \<Rightarrow> db \<Rightarrow> bool" where
  "txn_ready txn from to amt D \<longleftrightarrow>
     (tKind txn = KindTransfer \<and> tReversesTransactionID txn = None \<and>
        from \<noteq> ExternalAccountID \<and> to \<noteq> ExternalAccountID) \<or>
     (tKind txn = KindDeposit \<and> tReversesTransactionID txn = None \<and> from = ExternalAccountID) \<or>
     (tKind txn = KindReversal \<and>
        (\<exists>orig\<in>set (transactions D). tReversesTransactionID txn = Some (tr_id orig) \<and> tr_kind orig = KindTransfer \<and>
           (\<exists>d c. legs (tr_id orig) (entries D) = [d, c] \<and> er_account_id d = to \<and> er_account_id c = from \<and>
              er_amount d = amt)))"

lemma txn_ready_rely:
  assumes "txn_ready txn from to amt D" "rely D D'" "ledger_ok D"
  shows "txn_ready txn from to amt D'"
proof -
  have "(\<exists>orig\<in>set (transactions D'). tReversesTransactionID txn = Some (tr_id orig) \<and> tr_kind orig = KindTransfer \<and>
         (\<exists>d c. legs (tr_id orig) (entries D') = [d, c] \<and> er_account_id d = to \<and> er_account_id c = from \<and> er_amount d = amt))"
    if "orig \<in> set (transactions D)" "tReversesTransactionID txn = Some (tr_id orig)" "tr_kind orig = KindTransfer"
      "legs (tr_id orig) (entries D) = [d, c]" "er_account_id d = to" "er_account_id c = from" "er_amount d = amt"
    for orig d c
    using that relyD(2,3) [OF assms(2,3) that(1)] by (intro bexI [of _ orig]) auto
  with assms(1) show ?thesis unfolding txn_ready_def by blast
qed

definition posting_of :: "Transaction \<Rightarrow> UUID \<Rightarrow> UUID \<Rightarrow> Money \<Rightarrow> posting \<Rightarrow> bool" where
  "posting_of txn from to amount P \<longleftrightarrow>
     p_src P = from \<and> p_dst P = to \<and> p_amount P = units amount \<and> tr_id (p_txn P) = tID txn \<and>
     tr_kind (p_txn P) = tKind txn \<and> tr_idempotency_key (p_txn P) = tIdempotencyKey txn \<and>
     tr_reverses_transaction_id (p_txn P) = tReversesTransactionID txn"

definition posted_result :: "Transaction \<Rightarrow> UUID \<Rightarrow> UUID \<Rightarrow> Money \<Rightarrow> txres" where
  "posted_result txn from to amount =
     (txn, [mk_Entry (tID txn) from DirectionDebit amount, mk_Entry (tID txn) to DirectionCredit amount])"

text \<open>The answer to a COMMIT was lost.\<close>

definition commit_lost :: "gerror \<Rightarrow> bool" where
  "commit_lost e \<longleftrightarrow> (\<exists>s. e = Wrap ''store.WithTx commit'' (DriverError s))"

text \<open>
  All or nothing: from the database \<open>D\<close> the transaction finds once it holds its locks, either nothing
  happens and the call fails, or exactly one posting happens and the call succeeds, unless the answer
  to the COMMIT is lost.
\<close>

definition posting_outcome ::
  "(db \<Rightarrow> db \<Rightarrow> bool) \<Rightarrow> Transaction \<Rightarrow> UUID \<Rightarrow> UUID \<Rightarrow> Money \<Rightarrow> db \<Rightarrow> gerror + txres \<Rightarrow> db \<Rightarrow> bool" where
  "posting_outcome R txn from to amount D0 r D1 \<longleftrightarrow>
     (\<exists>D. R D0 D \<and>
        ((\<exists>e. r = Inl e) \<and> D1 = D \<or>
         (\<exists>P. posting_of txn from to amount P \<and> posting_ok P D \<and> D1 = apply_posting P D \<and>
            (r = Inr (posted_result txn from to amount) \<or> (\<exists>e. r = Inl e \<and> commit_lost e)))))"

locale storer = interference ok R
  for ok :: "env \<Rightarrow> bool" and R :: "db \<Rightarrow> db \<Rightarrow> bool" +
  fixes S :: "env \<Rightarrow> Storer"
  assumes R_rely: "R D D' \<Longrightarrow> rely D D'"
    and get_key_keeps: "ok env \<Longrightarrow> keeps (lift_db R) (st_GetTransactionByIdempotencyKey (S env) key)"
    and get_tx_keeps: "ok env \<Longrightarrow> keeps (lift_db R) (st_GetTransaction (S env) i)"
    and write_audit_keeps: "ok env \<Longrightarrow> keeps (lift_db R) (st_WriteAudit (S env) e)"
    and get_key_found: "ok env \<Longrightarrow> ledger_ok (wdb w) \<Longrightarrow>
      st_GetTransactionByIdempotencyKey (S env) key w = (Inr res, w') \<Longrightarrow>
      \<exists>row. stored (wdb w') row res \<and> tr_idempotency_key row = key"
    and get_tx_found: "ok env \<Longrightarrow> ledger_ok (wdb w) \<Longrightarrow> st_GetTransaction (S env) i w = (Inr res, w') \<Longrightarrow>
      \<exists>row. stored (wdb w') row res \<and> tr_id row = i"
    and posting: "ok env \<Longrightarrow> ledger_ok (wdb w) \<Longrightarrow> money_like amount \<Longrightarrow>
      (from, to) = (if swapped then (b, a) else (a, b)) \<Longrightarrow>
      txn_ready txn from to (units amount) (wdb w) \<Longrightarrow>
      check \<or> from = ExternalAccountID \<Longrightarrow>
      ins = st_InsertTransaction (S env) \<or> ins = st_InsertReversalTransaction (S env) \<Longrightarrow>
      st_WithTx (S env) (posting_tx (S env) msg a b swapped check ins amount txn) w = (r, w') \<Longrightarrow>
      posting_outcome R txn from to amount (wdb w) r (wdb w')"

text \<open>
  The outcome of an operation: nothing of its own was posted, and a result is a transaction already
  stored under the key; or exactly one posting happened at one moment \<open>D\<close> of the run.
\<close>

definition op_outcome ::
  "(db \<Rightarrow> db \<Rightarrow> bool) \<Rightarrow> Transaction \<Rightarrow> UUID \<Rightarrow> UUID \<Rightarrow> Money \<Rightarrow> db \<Rightarrow> gerror + txres \<Rightarrow> db \<Rightarrow> bool" where
  "op_outcome R txn from to amount D0 r D1 \<longleftrightarrow>
     (R D0 D1 \<and> (\<forall>res. r = Inr res \<longrightarrow>
        (\<exists>row. stored D1 row res \<and> tr_idempotency_key row = tIdempotencyKey txn))) \<or>
     (\<exists>D P. R D0 D \<and> posting_of txn from to amount P \<and> posting_ok P D \<and> R (apply_posting P D) D1 \<and>
        (r = Inr (posted_result txn from to amount) \<or> (\<exists>e. r = Inl e \<and> commit_lost e)))"

lemma op_outcome_rely:
  assumes "op_outcome R txn from to amount D0 r D1" "\<And>D D'. R D D' \<Longrightarrow> rely D D'"
  shows "rely D0 D1"
proof -
  have "rely D0 D1" if "R D0 D" "posting_ok P D" "R (apply_posting P D) D1" for D P
    using that by (metis assms(2) rely_posting rely_trans)
  with assms show ?thesis unfolding op_outcome_def by blast
qed

lemma keepsD: "keeps R m \<Longrightarrow> m w = (r, w') \<Longrightarrow> R w w'"
  unfolding keeps_def by (metis snd_conv)

context storer
begin

lemma keepsR: "keeps (lift_db R) m \<Longrightarrow> m w = (r, w') \<Longrightarrow> R (wdb w) (wdb w')"
  using keepsD lift_db_def by metis

lemma audit_keeps: "ok env \<Longrightarrow> keeps (lift_db R) (audit (S env) e)"
  unfolding audit_def by (intro keeps_bind keeps_tryM keeps_pure write_audit_keeps)

lemma fail_keeps:
  "ok env \<Longrightarrow> keeps (lift_db R) (bindM (auditFailure (S env) op f t m rid err) (\<lambda>_. throwM e))"
  unfolding auditFailure_def by (intro keeps_bind keeps_pure audit_keeps)

lemma fail_run:
  assumes "ok env" "bindM (auditFailure (S env) op f t m rid err) (\<lambda>_. throwM e) w = (r, w')"
  shows "r = Inl e \<and> R (wdb w) (wdb w')"
proof -
  have "r = Inl e"
    using assms(2)
    by (auto simp: bindM_def throwM_def auditFailure_def audit_def tryM_def returnM_def split: prod.splits)
  with keepsR [OF fail_keeps [OF assms(1)] assms(2)] show ?thesis by simp
qed

lemma success_run:
  assumes "ok env" "bindM (auditSuccess (S env) op f t m rid x) (\<lambda>_. returnM res) w = (r, w')"
  shows "r = Inr res \<and> R (wdb w) (wdb w')"
proof -
  have "r = Inr res"
    using assms(2)
    by (auto simp: bindM_def auditSuccess_def audit_def tryM_def returnM_def split: prod.splits)
  moreover have "keeps (lift_db R) (bindM (auditSuccess (S env) op f t m rid x) (\<lambda>_. returnM res))"
    unfolding auditSuccess_def using assms(1) by (intro keeps_bind keeps_pure audit_keeps)
  ultimately show ?thesis using keepsR assms(2) by blast
qed

lemma keeps_ledger: "R D D' \<Longrightarrow> ledger_ok D \<Longrightarrow> ledger_ok D'"
  using R_rely relyD(1) by blast

lemma get_key_run:
  assumes "ok env" "ledger_ok (wdb w)" "st_GetTransactionByIdempotencyKey (S env) key w = (r, w')"
  shows "R (wdb w) (wdb w') \<and> (\<forall>res. r = Inr res \<longrightarrow> (\<exists>row. stored (wdb w') row res \<and> tr_idempotency_key row = key))"
  using keepsR [OF get_key_keeps [OF assms(1)] assms(3)] get_key_found [OF assms(1,2)] assms(3) by blast

lemma conflict_outcome:
  assumes ok: "ok env" and L: "ledger_ok (wdb w1)" and D: "R D0 (wdb w1)"
    and W: "st_WithTx (S env) body w = (Inl ErrIdempotencyConflict, w1)"
    and run: "commit_flow (S env) op f t m rid (tIdempotencyKey txn) txID body w = (r, w')"
  shows "op_outcome R txn from to amount D0 r (wdb w')"
proof -
  obtain r2 w2 where G: "st_GetTransactionByIdempotencyKey (S env) (tIdempotencyKey txn) w1 = (r2, w2)" by fastforce
  note g = get_key_run [OF ok L G]
  show ?thesis
  proof (cases r2)
    case (Inr res)
    with run W G have "r = Inr res" "w' = w2" by (auto simp: commit_flow_def run_eval)
    with g Inr D show ?thesis unfolding op_outcome_def by (metis db_trans)
  next
    case (Inl e2)
    with run W G have "bindM (auditFailure (S env) op (Some f) (Some t) (Some m) rid ErrIdempotencyConflict)
        (\<lambda>_. throwM ErrIdempotencyConflict) w2 = (r, w')"
      by (simp add: commit_flow_def run_eval)
    from fail_run [OF ok this] g D show ?thesis
      unfolding op_outcome_def by (metis db_trans sum.distinct(1))
  qed
qed

lemma commit_flow_outcome:
  assumes ok: "ok env" and L: "ledger_ok (wdb w)"
    and run: "commit_flow (S env) op f t m rid (tIdempotencyKey txn) txID body w = (r, w')"
    and body: "\<And>r w'. st_WithTx (S env) body w = (r, w') \<Longrightarrow> posting_outcome R txn from to amount (wdb w) r (wdb w')"
  shows "op_outcome R txn from to amount (wdb w) r (wdb w')"
proof -
  obtain r1 w1 where W: "st_WithTx (S env) body w = (r1, w1)" by fastforce
  from body [OF W] obtain D where D: "R (wdb w) D" and
    alt: "(\<exists>e. r1 = Inl e) \<and> wdb w1 = D \<or>
      (\<exists>P. posting_of txn from to amount P \<and> posting_ok P D \<and> wdb w1 = apply_posting P D \<and>
         (r1 = Inr (posted_result txn from to amount) \<or> (\<exists>e. r1 = Inl e \<and> commit_lost e)))"
    unfolding posting_outcome_def by blast
  show ?thesis
  proof (cases r1)
    case (Inr res)
    with run W have "bindM (auditSuccess (S env) op (Some f) (Some t) (Some m) rid (Some txID)) (\<lambda>_. returnM res) w1 = (r, w')"
      by (simp add: commit_flow_def run_eval)
    from success_run [OF ok this] Inr D alt show ?thesis
      unfolding op_outcome_def by auto
  next
    case (Inl e)
    have L1: "ledger_ok (wdb w1)"
      using alt D L keeps_ledger ledger_ok_posting by metis
    consider (conflict) "e = ErrIdempotencyConflict"
      | (other) "bindM (auditFailure (S env) op (Some f) (Some t) (Some m) rid e) (\<lambda>_. throwM e) w1 = (r, w')"
      using run W Inl by (cases "e = ErrIdempotencyConflict") (auto simp: commit_flow_def run_eval)
    then show ?thesis
    proof cases
      case other
      from fail_run [OF ok other] Inl D alt show ?thesis
        unfolding op_outcome_def by (metis db_trans old.sum.inject(1) sum.distinct(1))
    next
      case conflict
      then have "wdb w1 = D" using alt Inl by (auto simp: commit_lost_def)
      with conflict_outcome [OF ok L1 _ _ run] D W Inl conflict show ?thesis by simp
    qed
  qed
qed

lemma op_outcome_later: "R D0 D \<Longrightarrow> op_outcome R txn from to amount D r D1 \<Longrightarrow> op_outcome R txn from to amount D0 r D1"
  using db_trans [of D0 D] unfolding op_outcome_def by blast

lemma op_outcome_error: "R D0 D1 \<Longrightarrow> op_outcome R txn from to amount D0 (Inl e) D1"
  unfolding op_outcome_def by blast

lemma NewV7_db: "NewV7 env w = (x, w') \<Longrightarrow> wdb w' = wdb w"
  by (auto simp: NewV7_def split: prod.splits)

text \<open>A new id, then the transaction.\<close>

lemma fresh_flow:
  assumes ok: "ok env" and L: "ledger_ok (wdb w)"
    and run: "bindM (mapErr g (NewV7 env)) (\<lambda>txID. commit_flow (S env) op f t m rid key txID (body txID)) w = (r, w')"
    and key: "\<And>i. tIdempotencyKey (mk i) = key"
    and body: "\<And>i w1 r w'. ledger_ok (wdb w1) \<Longrightarrow> wdb w1 = wdb w \<Longrightarrow> st_WithTx (S env) (body i) w1 = (r, w') \<Longrightarrow>
      posting_outcome R (mk i) from to amount (wdb w1) r (wdb w')"
  shows "\<exists>i. op_outcome R (mk i) from to amount (wdb w) r (wdb w')"
proof -
  obtain x w1 where N: "NewV7 env w = (x, w1)" by fastforce
  note db = NewV7_db [OF N]
  show ?thesis
  proof (cases x)
    case (Inl e)
    with run N have "r = Inl (g e)" "w' = w1" by (simp_all add: run_eval)
    then show ?thesis using op_outcome_error [OF db_refl] db by metis
  next
    case (Inr i)
    with run N have "commit_flow (S env) op f t m rid key i (body i) w1 = (r, w')" by (simp add: run_eval)
    then show ?thesis
      using commit_flow_outcome [OF ok, of w1 op f t m rid "mk i" i "body i" r w' "from" to amount] L db key body
      by auto
  qed
qed

text \<open>Look the key up first.\<close>

lemma keyed_flow:
  assumes ok: "ok env" and L: "ledger_ok (wdb w)"
    and run: "bindM (tryM (st_GetTransactionByIdempotencyKey (S env) key)) (\<lambda>found.
      case found of Inr existing \<Rightarrow> returnM existing | Inl _ \<Rightarrow> rest) w = (r, w')"
    and key: "tIdempotencyKey (mk UUID_Nil) = key"
    and rest: "\<And>w1. ledger_ok (wdb w1) \<Longrightarrow> R (wdb w) (wdb w1) \<Longrightarrow> rest w1 = (r, w') \<Longrightarrow>
      \<exists>i from to amount. P i from to amount \<and> op_outcome R (mk i) from to amount (wdb w1) r (wdb w')"
    and any: "P UUID_Nil f0 t0 m0"
  shows "\<exists>i from to amount. P i from to amount \<and> op_outcome R (mk i) from to amount (wdb w) r (wdb w')"
proof -
  obtain x w1 where G: "st_GetTransactionByIdempotencyKey (S env) key w = (x, w1)" by fastforce
  note g = get_key_run [OF ok L G]
  show ?thesis
  proof (cases x)
    case (Inr res)
    with run G have "r = Inr res" "w' = w1" by (simp_all add: run_eval)
    with g Inr key have "op_outcome R (mk UUID_Nil) f0 t0 m0 (wdb w) r (wdb w')"
      unfolding op_outcome_def by auto
    with any show ?thesis by blast
  next
    case (Inl e)
    with run G have "rest w1 = (r, w')" by (simp add: run_eval)
    with rest g L keeps_ledger op_outcome_later show ?thesis by meson
  qed
qed

lemma Transfer_outcome:
  assumes ok: "ok env" and L: "ledger_ok (wdb w)" and m: "money_like amount"
    and run: "Transfer env (S env) srcID dstID amount key rid w = (r, w')"
  shows "\<exists>i. op_outcome R (mk_Transaction i KindTransfer key None) srcID dstID amount (wdb w) r (wdb w')"
proof (cases "Money_IsPositive amount \<and> srcID \<noteq> dstID \<and> srcID \<noteq> ExternalAccountID \<and> dstID \<noteq> ExternalAccountID")
  case False
  then obtain e where "bindM (auditFailure (S env) ''TRANSFER'' (Some srcID) (Some dstID) (Some amount) rid e)
      (\<lambda>_. throwM e) w = (r, w')"
    using run by (auto simp: Transfer_flow Let_def split: if_splits)
  from fail_run [OF ok this] show ?thesis using op_outcome_error by blast
next
  case True
  let ?mk = "\<lambda>i. mk_Transaction i KindTransfer key None"
  let ?rest = "bindM (mapErr (Wrap ''service.Transfer uuid'') (NewV7 env)) (\<lambda>txID.
    commit_flow (S env) ''TRANSFER'' srcID dstID amount rid key txID (Transfer_tx (S env) srcID dstID amount (?mk txID)))"
  have "bindM (tryM (st_GetTransactionByIdempotencyKey (S env) key)) (\<lambda>found.
      case found of Inr existing \<Rightarrow> returnM existing | Inl _ \<Rightarrow> ?rest) w = (r, w')"
    using run True by (simp add: Transfer_flow)
  then have "\<exists>i from to m. (from = srcID \<and> to = dstID \<and> m = amount) \<and>
      op_outcome R (?mk i) from to m (wdb w) r (wdb w')"
  proof (rule keyed_flow [OF ok L])
    fix w1 assume w1: "ledger_ok (wdb w1)" "?rest w1 = (r, w')"
    have "\<exists>i. op_outcome R (?mk i) srcID dstID amount (wdb w1) r (wdb w')"
    proof (rule fresh_flow [OF ok w1])
      fix i w2 r2 w3 assume "ledger_ok (wdb w2)" "st_WithTx (S env) (Transfer_tx (S env) srcID dstID amount (?mk i)) w2 = (r2, w3)"
      then show "posting_outcome R (?mk i) srcID dstID amount (wdb w2) r2 (wdb w3)"
        using True m unfolding tx_shapes
        by (intro posting [OF ok, where swapped = False and check = True and a = srcID and b = dstID])
            (auto simp: txn_ready_def mk_Transaction_def)
    qed (simp add: mk_Transaction_def)
    then show "\<exists>i from to m. (from = srcID \<and> to = dstID \<and> m = amount) \<and> op_outcome R (?mk i) from to m (wdb w1) r (wdb w')"
      by blast
  qed (auto simp: mk_Transaction_def)
  then show ?thesis by blast
qed

lemma Deposit_outcome:
  assumes ok: "ok env" and L: "ledger_ok (wdb w)" and m: "money_like amount"
    and run: "Deposit env (S env) dstID amount key rid w = (r, w')"
  shows "\<exists>i. op_outcome R (mk_Transaction i KindDeposit key None) ExternalAccountID dstID amount (wdb w) r (wdb w')"
proof (cases "Money_IsPositive amount \<and> dstID \<noteq> ExternalAccountID")
  case False
  then obtain e where "bindM (auditFailure (S env) ''DEPOSIT'' (Some ExternalAccountID) (Some dstID) (Some amount) rid e)
      (\<lambda>_. throwM e) w = (r, w')"
    using run by (auto simp: Deposit_flow Let_def split: if_splits)
  from fail_run [OF ok this] show ?thesis using op_outcome_error by blast
next
  case True
  let ?mk = "\<lambda>i. mk_Transaction i KindDeposit key None"
  let ?rest = "bindM (mapErr (Wrap ''service.Deposit uuid'') (NewV7 env)) (\<lambda>txID.
    commit_flow (S env) ''DEPOSIT'' ExternalAccountID dstID amount rid key txID (Deposit_tx (S env) dstID amount (?mk txID)))"
  have "bindM (tryM (st_GetTransactionByIdempotencyKey (S env) key)) (\<lambda>found.
      case found of Inr existing \<Rightarrow> returnM existing | Inl _ \<Rightarrow> ?rest) w = (r, w')"
    using run True by (simp add: Deposit_flow)
  then have "\<exists>i from to m. (from = ExternalAccountID \<and> to = dstID \<and> m = amount) \<and>
      op_outcome R (?mk i) from to m (wdb w) r (wdb w')"
  proof (rule keyed_flow [OF ok L])
    fix w1 assume w1: "ledger_ok (wdb w1)" "?rest w1 = (r, w')"
    have "\<exists>i. op_outcome R (?mk i) ExternalAccountID dstID amount (wdb w1) r (wdb w')"
    proof (rule fresh_flow [OF ok w1])
      fix i w2 r2 w3 assume "ledger_ok (wdb w2)" "st_WithTx (S env) (Deposit_tx (S env) dstID amount (?mk i)) w2 = (r2, w3)"
      then show "posting_outcome R (?mk i) ExternalAccountID dstID amount (wdb w2) r2 (wdb w3)"
        using True m unfolding tx_shapes
        by (intro posting [OF ok, where swapped = False and check = False and a = ExternalAccountID and b = dstID])
          (auto simp: txn_ready_def mk_Transaction_def)
    qed (simp add: mk_Transaction_def)
    then show "\<exists>i from to m. (from = ExternalAccountID \<and> to = dstID \<and> m = amount) \<and>
        op_outcome R (?mk i) from to m (wdb w1) r (wdb w')"
      by blast
  qed (auto simp: mk_Transaction_def)
  then show ?thesis by blast
qed

text \<open>The legs a reversal finds in a stored transfer.\<close>

lemma stored_transfer_legs:
  assumes "ledger_ok D" "stored D row res" "tKind (fst res) = KindTransfer"
  obtains d c where "legs (tr_id row) (entries D) = [d, c]" "row \<in> set (transactions D)" "tr_kind row = KindTransfer"
    "find_legs (snd res) acc = (er_account_id d, er_account_id c, of_units (er_amount d))"
proof -
  have row: "row \<in> set (transactions D)" "tr_kind row = KindTransfer"
    and es: "list_all2 entry_matches (snd res) (legs (tr_id row) (entries D))"
    using assms(2, 3) by (auto simp: stored_def)
  have "two_legs (legs (tr_id row) (entries D))"
    using assms(1) row(1) by (simp add: ledger_ok_def transaction_ok_def Let_def)
  then obtain d c where dc: "legs (tr_id row) (entries D) = [d, c]" "er_direction d = DirectionDebit"
    "er_direction c = DirectionCredit" by (elim two_legs_cases) blast
  with es obtain e f where "snd res = [e, f]" "entry_matches e d" "entry_matches f c"
    by (auto simp: list_all2_Cons2)
  with dc have "find_legs (snd res) acc = (er_account_id d, er_account_id c, of_units (er_amount d))"
    by (cases acc) (auto simp: entry_matches_def direction_defs)
  with dc row that show ?thesis by blast
qed

text \<open>The reversal of a transfer that was found, from the draw of its id on.\<close>

lemma reverse_found_outcome:
  assumes ok: "ok env" and L: "ledger_ok (wdb w)" and row: "stored (wdb w) row res" "tr_id row = orig"
    and kind: "tKind (fst res) = KindTransfer"
    and run: "(case find_legs (snd res) (UUID_Nil, UUID_Nil, Money_zero_value) of (s, t, m) \<Rightarrow>
      bindM (mapErr (Wrap ''service.Reverse uuid'') (NewV7 env)) (\<lambda>txID.
        commit_flow (S env) ''REVERSAL'' t s m rid key txID
          (Reverse_tx (S env) s t m (mk_Transaction txID KindReversal key (Some orig))))) w = (r, w')"
  shows "\<exists>i from to amount. op_outcome R (mk_Transaction i KindReversal key (Some orig)) from to amount (wdb w) r (wdb w')"
proof -
  let ?mk = "\<lambda>i. mk_Transaction i KindReversal key (Some orig)"
  from L row(1) kind obtain d c where dc: "legs (tr_id row) (entries (wdb w)) = [d, c]"
    "row \<in> set (transactions (wdb w))" "tr_kind row = KindTransfer"
    "find_legs (snd res) (UUID_Nil, UUID_Nil, Money_zero_value) = (er_account_id d, er_account_id c, of_units (er_amount d))"
    by (rule stored_transfer_legs)
  let ?s = "er_account_id d" and ?t = "er_account_id c" and ?m = "of_units (er_amount d)"
  have "bindM (mapErr (Wrap ''service.Reverse uuid'') (NewV7 env)) (\<lambda>txID.
      commit_flow (S env) ''REVERSAL'' ?t ?s ?m rid key txID (Reverse_tx (S env) ?s ?t ?m (?mk txID))) w = (r, w')"
    using run dc(4) by simp
  then have "\<exists>i. op_outcome R (?mk i) ?t ?s ?m (wdb w) r (wdb w')"
  proof (rule fresh_flow [OF ok L])
    fix i w3 r3 w4 assume w3: "ledger_ok (wdb w3)" "wdb w3 = wdb w"
      "st_WithTx (S env) (Reverse_tx (S env) ?s ?t ?m (?mk i)) w3 = (r3, w4)"
    have "txn_ready (?mk i) ?t ?s (units ?m) (wdb w3)"
      using dc row(2) w3(2) by (auto simp: txn_ready_def mk_Transaction_def)
    with w3 show "posting_outcome R (?mk i) ?t ?s ?m (wdb w3) r3 (wdb w4)"
      unfolding tx_shapes
      by (intro posting [OF ok, where swapped = True and check = True and a = ?s and b = ?t]) auto
  qed (simp add: mk_Transaction_def)
  then show ?thesis by blast
qed

lemma Reverse_outcome:
  assumes ok: "ok env" and L: "ledger_ok (wdb w)"
    and run: "Reverse env (S env) orig key rid w = (r, w')"
  shows "\<exists>i from to amount. op_outcome R (mk_Transaction i KindReversal key (Some orig)) from to amount (wdb w) r (wdb w')"
proof -
  let ?mk = "\<lambda>i. mk_Transaction i KindReversal key (Some orig)"
  have "\<exists>i from to amount. True \<and> op_outcome R (?mk i) from to amount (wdb w) r (wdb w')"
  proof (rule keyed_flow [OF ok L run [unfolded Reverse_flow]], goal_cases)
    case (2 w1)
    obtain x w2 where G: "st_GetTransaction (S env) orig w1 = (x, w2)" by fastforce
    have R12: "R (wdb w1) (wdb w2)" using keepsR [OF get_tx_keeps [OF ok] G] .
    have L2: "ledger_ok (wdb w2)" using keeps_ledger [OF R12 2(1)] .
    have fail: "\<exists>i from to amount. True \<and> op_outcome R (?mk i) from to amount (wdb w1) r (wdb w')"
      if "bindM (auditFailure (S env) ''REVERSAL'' None None None rid e) (\<lambda>_. throwM e) w2 = (r, w')" for e
      using fail_run [OF ok that] op_outcome_error db_trans [OF R12] by blast
    show ?case
    proof (cases x)
      case (Inl e)
      with 2(3) G fail show ?thesis by (simp add: run_eval)
    next
      case (Inr res)
      from get_tx_found [OF ok 2(1) G [unfolded Inr]] obtain row where
        row: "stored (wdb w2) row res" "tr_id row = orig" by blast
      show ?thesis
      proof (cases "tKind (fst res) = KindTransfer")
        case False
        with 2(3) G Inr fail [of ErrNotReversible] show ?thesis by (simp add: run_eval case_prod_beta)
      next
        case True
        with 2(3) G Inr have "(case find_legs (snd res) (UUID_Nil, UUID_Nil, Money_zero_value) of (s, t, m) \<Rightarrow>
            bindM (mapErr (Wrap ''service.Reverse uuid'') (NewV7 env)) (\<lambda>txID.
              commit_flow (S env) ''REVERSAL'' t s m rid key txID (Reverse_tx (S env) s t m (?mk txID)))) w2 = (r, w')"
          by (simp add: run_eval case_prod_beta)
        from reverse_found_outcome [OF ok L2 row True this]
        show ?thesis using op_outcome_later [OF R12] by blast
      qed
    qed
  qed (auto simp: mk_Transaction_def)
  then show ?thesis by blast
qed

end

end
