(* ===== verification/Store.thy ===== *)
theory Store
  imports Service "HOL-Library.Sublist"
begin

text \<open>
  Package \<^verbatim>\<open>internal/store\<close>: \<^verbatim>\<open>postgres.go\<close>, \<^verbatim>\<open>accounts.go\<close>, \<^verbatim>\<open>transactions.go\<close>, \<^verbatim>\<open>audit.go\<close>, function by
  function. The context argument only bounds how long a call may take; running out of time is a fate of
  the call. A method and the package-level function it wraps are one definition.
\<close>

subsection \<open>Rows to values\<close>

definition scanAccount :: "env \<Rightarrow> account_row \<Rightarrow> gerror + Account" where
  "scanAccount env r =
     (case scan_numeric (Some (numeric_send env (ar_balance r))) of
        Inl e \<Rightarrow> Inl (ScanError e)
      | Inr bal \<Rightarrow> Inr \<lparr>aID = ar_id r, aName = ar_name r, aBalance = NewFromDecimal bal,
          aIsSystem = ar_is_system r, aCreatedAt = ar_created_at r, aUpdatedAt = ar_updated_at r\<rparr>)"

definition collectAccounts :: "env \<Rightarrow> account_row list \<Rightarrow> Account list M" where
  "collectAccounts env rows =
     bindM (mapM (\<lambda>r. mapErr (Wrap ''store.collectAccounts scan'') (liftM (scanAccount env r))) rows) (\<lambda>accounts.
     bindM (mapErr (Wrap ''store.collectAccounts rows'') (stream_end env)) (\<lambda>_.
     returnM accounts))"

definition scanTransaction :: "transaction_row \<Rightarrow> Transaction" where
  "scanTransaction r = \<lparr>tID = tr_id r, tKind = tr_kind r, tIdempotencyKey = tr_idempotency_key r,
     tReversesTransactionID = tr_reverses_transaction_id r, tCreatedAt = tr_created_at r, tEntries = []\<rparr>"

definition scanTransactionRow :: "transaction_row \<Rightarrow> Transaction" where
  "scanTransactionRow r = \<lparr>tID = tr_id r, tKind = tr_kind r, tIdempotencyKey = tr_idempotency_key r,
     tReversesTransactionID = tr_reverses_transaction_id r, tCreatedAt = tr_created_at r, tEntries = []\<rparr>"

definition scanEntry :: "env \<Rightarrow> entry_row \<times> string \<Rightarrow> gerror + Entry" where
  "scanEntry env row =
     (case row of (r, name) \<Rightarrow>
        (case scan_numeric (Some (numeric_send env (er_amount r))) of
           Inl e \<Rightarrow> Inl (ScanError e)
         | Inr amt \<Rightarrow> Inr \<lparr>eID = er_id r, eTransactionID = er_transaction_id r, eAccountID = er_account_id r,
             eDirection = er_direction r, eAccountName = name, eAmount = NewFromDecimal amt,
             eCreatedAt = er_created_at r\<rparr>))"

text \<open>\<^verbatim>\<open>row.Scan\<close> of \<^verbatim>\<open>QueryRow\<close>: the first row, or \<^verbatim>\<open>pgx.ErrNoRows\<close>.\<close>

definition firstRow :: "'a list \<Rightarrow> 'a M" where
  "firstRow rows = (case rows of [] \<Rightarrow> throwM ErrNoRows | r # _ \<Rightarrow> returnM r)"

subsection \<open>Transactions of the database\<close>

text \<open>
  \<^verbatim>\<open>WithTx\<close>. The closure's result is the value it assigns to the variables it captures. The deferred
  trigger runs at COMMIT; a commit whose answer is lost has taken effect but is reported as failed.
\<close>

definition rollback :: "world \<Rightarrow> world" where
  "rollback w = w\<lparr>wdb := snap w, pending := []\<rparr>"

definition commit :: "env \<Rightarrow> 'a \<Rightarrow> 'a M" where
  "commit env x = (\<lambda>w.
     let ft = fate env (tick w); w' = w\<lparr>tick := tick w + 1\<rparr>
     in case ft of
          Fail_before s \<Rightarrow> (Inl (Wrap ''store.WithTx commit'' (DriverError s)), rollback w')
        | _ \<Rightarrow>
            if \<exists>t\<in>set (pending w). \<not> check_double_entry_balance t (wdb w)
            then (Inl (Wrap ''store.WithTx commit'' (pg_err ''P0001'' ''double-entry invariant violated'' [] [])),
                  rollback w')
            else ((case ft of Fail_after s \<Rightarrow> Inl (Wrap ''store.WithTx commit'' (DriverError s)) | _ \<Rightarrow> Inr x),
                  w'\<lparr>snap := wdb w, pending := []\<rparr>))"

definition begin_tx :: "env \<Rightarrow> unit M" where
  "begin_tx env = (\<lambda>w.
     case pool_call env (\<lambda>k D. Inr ((), D)) w of
       (Inl e, w') \<Rightarrow> (Inl e, w')
     | (Inr _, w') \<Rightarrow> (Inr (), w'\<lparr>snap := wdb w', pending := [], tx_start := micros (clock env (tick w))\<rparr>))"

definition WithTx :: "env \<Rightarrow> 'a M \<Rightarrow> 'a M" where
  "WithTx env fn =
     bindM (mapErr (Wrap ''store.WithTx begin'') (begin_tx env)) (\<lambda>_ w.
       case fn w of
         (Inl e, w') \<Rightarrow> (Inl e, rollback w')
       | (Inr x, w') \<Rightarrow> commit env x w')"

subsection \<open>Accounts\<close>

definition GetAccount :: "env \<Rightarrow> UUID \<Rightarrow> Account M" where
  "GetAccount env i =
     mapErr (\<lambda>err. if errors_Is err ErrNoRows then ErrAccountNotFound else Wrap ''store.GetAccount'' err)
       (bindM (pool_call env (query (\<lambda>k D. Inr (sql_account i D)))) (\<lambda>rows.
        bindM (firstRow rows) (\<lambda>r. liftM (scanAccount env r))))"

definition ListAccounts :: "env \<Rightarrow> Account list M" where
  "ListAccounts env =
     bindM (mapErr (Wrap ''store.ListAccounts query'')
       (pool_call env (query (\<lambda>k D. Inr (sql_list_accounts env k D))))) (collectAccounts env)"

definition sort_ids :: "UUID list \<Rightarrow> UUID list" where
  "sort_ids ids = sort_key UUID_String ids"

definition LockAccountsForUpdate :: "env \<Rightarrow> UUID list \<Rightarrow> Account list M" where
  "LockAccountsForUpdate env ids =
     (let sorted = sort_ids ids in
      bindM (mapErr (Wrap ''store.LockAccountsForUpdate'')
        (lock_call env (query (\<lambda>k D. Inr (sql_lock_accounts env sorted D))))) (collectAccounts env))"

definition UpdateBalance :: "env \<Rightarrow> UUID \<Rightarrow> Money \<Rightarrow> unit M" where
  "UpdateBalance env i newBalance =
     mapErr (Wrap ''store.UpdateBalance'')
       (tx_call env (\<lambda>k D. map_sum id (Pair ())
          (sql_update_balance i (Money_Decimal newBalance) (micros (clock env k)) D)))"

definition CreateAccount :: "env \<Rightarrow> string \<Rightarrow> Account M" where
  "CreateAccount env name =
     bindM (mapErr (Wrap ''store.CreateAccount uuid'') (NewV7 env)) (\<lambda>i.
     mapErr (Wrap ''store.CreateAccount'')
       (bindM (pool_call env (\<lambda>k D. sql_insert_account i name (micros (clock env k)) D)) (\<lambda>r.
        liftM (scanAccount env r))))"

subsection \<open>Transactions and entries\<close>

definition pgErrUniqueViolation :: string where
  "pgErrUniqueViolation = ''23505''"

text \<open>The row of \<^verbatim>\<open>INSERT INTO transactions\<close>; \<^verbatim>\<open>created_at\<close> defaults to the start of the transaction.\<close>

definition transaction_row_of :: "Transaction \<Rightarrow> timestamp \<Rightarrow> transaction_row" where
  "transaction_row_of t ts = \<lparr>tr_id = tID t, tr_kind = tKind t, tr_idempotency_key = tIdempotencyKey t,
     tr_reverses_transaction_id = tReversesTransactionID t, tr_created_at = ts\<rparr>"

definition exec_insert_transaction :: "env \<Rightarrow> Transaction \<Rightarrow> unit M" where
  "exec_insert_transaction env t = (\<lambda>w.
     tx_call env (\<lambda>k D. map_sum id (Pair ())
       (sql_insert_transaction (report env) (transaction_row_of t (tx_start w)) D)) w)"

definition InsertTransaction :: "env \<Rightarrow> Transaction \<Rightarrow> unit M" where
  "InsertTransaction env t =
     mapErr (\<lambda>err. case errors_As_PgError err of
         Some pgErr \<Rightarrow>
           if pgCode pgErr = pgErrUniqueViolation then ErrIdempotencyConflict
           else Wrap ''store.InsertTransaction'' err
       | None \<Rightarrow> Wrap ''store.InsertTransaction'' err)
       (exec_insert_transaction env t)"

text \<open>\<^verbatim>\<open>containsSubstr\<close>: a scan over the start positions.\<close>

function contains_from :: "string \<Rightarrow> string \<Rightarrow> nat \<Rightarrow> bool" where
  "contains_from s sub i =
     (if i + length sub \<le> length s
      then (if take (length sub) (drop i s) = sub then True else contains_from s sub (i + 1))
      else False)"
  by pat_completeness auto
termination by (relation "measure (\<lambda>(s, sub, i). Suc (length s) - i)") auto

declare contains_from.simps [simp del]

definition containsSubstr :: "string \<Rightarrow> string \<Rightarrow> bool" where
  "containsSubstr s sub \<longleftrightarrow> (if length sub = 0 then True else contains_from s sub 0)"

definition InsertReversalTransaction :: "env \<Rightarrow> Transaction \<Rightarrow> unit M" where
  "InsertReversalTransaction env t =
     mapErr (\<lambda>err. case errors_As_PgError err of
         Some pgErr \<Rightarrow>
           if pgCode pgErr = pgErrUniqueViolation then
             (if pgConstraintName pgErr = ''transactions_reverses_transaction_id_key'' then ErrAlreadyReversed
              else if pgConstraintName pgErr = ''transactions_idempotency_key_key'' then ErrIdempotencyConflict
              else if containsSubstr (pgDetail pgErr) ''reverses_transaction_id'' then ErrAlreadyReversed
              else ErrIdempotencyConflict)
           else Wrap ''store.InsertReversalTransaction'' err
       | None \<Rightarrow> Wrap ''store.InsertReversalTransaction'' err)
       (exec_insert_transaction env t)"

definition exec_insert_entry :: "env \<Rightarrow> Entry \<Rightarrow> unit M" where
  "exec_insert_entry env e = (\<lambda>w.
     bindM (tx_call env (\<lambda>k D. map_sum id (Pair ())
       (sql_insert_entry (nextval env k) (eTransactionID e) (eAccountID e) (eDirection e)
         (Money_Decimal (eAmount e)) (tx_start w) D)))
       (\<lambda>_ w'. (Inr (), w'\<lparr>pending := pending w' @ [eTransactionID e]\<rparr>)) w)"

fun insert_entries_loop :: "env \<Rightarrow> Entry list \<Rightarrow> unit M" where
  "insert_entries_loop env [] = returnM ()"
| "insert_entries_loop env (e # es) =
     bindM (mapErr (Wrap ''store.InsertEntries'') (exec_insert_entry env e)) (\<lambda>_. insert_entries_loop env es)"

definition InsertEntries :: "env \<Rightarrow> Entry list \<Rightarrow> unit M" where
  "InsertEntries env es =
     (if \<exists>e\<in>set es. \<not> Money_IsPositive (eAmount e) then throwM ErrInvalidAmount
      else insert_entries_loop env es)"

definition listEntries :: "env \<Rightarrow> UUID \<Rightarrow> Entry list M" where
  "listEntries env txID =
     bindM (mapErr (Wrap ''store.listEntries'') (pool_call env (query (\<lambda>k D. Inr (sql_entries txID D))))) (\<lambda>rows.
     bindM (mapM (\<lambda>r. mapErr (Wrap ''store.listEntries scan'') (liftM (scanEntry env r))) rows) (\<lambda>entries.
     bindM (stream_end env) (\<lambda>_. returnM entries)))"

definition GetTransactionByIdempotencyKey :: "env \<Rightarrow> string \<Rightarrow> (Transaction \<times> Entry list) M" where
  "GetTransactionByIdempotencyKey env key =
     bindM (mapErr (\<lambda>err. if errors_Is err ErrNoRows then ErrTransactionNotFound
                          else Wrap ''store.GetTransactionByIdempotencyKey'' err)
       (bindM (pool_call env (query (\<lambda>k D. Inr (sql_transaction_by_key key D)))) firstRow)) (\<lambda>r.
     let t = scanTransaction r in
     bindM (listEntries env (tID t)) (\<lambda>entries. returnM (t\<lparr>tEntries := entries\<rparr>, entries)))"

definition GetTransaction :: "env \<Rightarrow> UUID \<Rightarrow> (Transaction \<times> Entry list) M" where
  "GetTransaction env i =
     bindM (mapErr (\<lambda>err. if errors_Is err ErrNoRows then ErrTransactionNotFound
                          else Wrap ''store.GetTransaction'' err)
       (bindM (pool_call env (query (\<lambda>k D. Inr (sql_transaction i D)))) firstRow)) (\<lambda>r.
     let t = scanTransaction r in
     bindM (listEntries env (tID t)) (\<lambda>entries. returnM (t\<lparr>tEntries := entries\<rparr>, entries)))"

text \<open>The second loop of both listings: fill in the entries, one query per transaction.\<close>

definition fill_entries :: "env \<Rightarrow> Transaction list \<Rightarrow> Transaction list M" where
  "fill_entries env txns =
     mapM (\<lambda>t. bindM (listEntries env (tID t)) (\<lambda>entries. returnM (t\<lparr>tEntries := entries\<rparr>))) txns"

definition ListTransactionsForAccount :: "env \<Rightarrow> UUID \<Rightarrow> int \<Rightarrow> Transaction list M" where
  "ListTransactionsForAccount env accountID limit =
     bindM (mapErr (Wrap ''store.ListTransactionsForAccount'')
       (pool_call env (query (\<lambda>k D. sql_transactions_for_account env accountID limit k D)))) (\<lambda>rows.
     let txns = map scanTransactionRow rows in
     bindM (mapErr (Wrap ''store.ListTransactionsForAccount rows'') (stream_end env)) (\<lambda>_.
     fill_entries env txns))"

record ListTransactionsOpts =
  Limit :: int
  Offset :: int
  Kind :: "TransactionKind option"

definition ListTransactions :: "env \<Rightarrow> ListTransactionsOpts \<Rightarrow> Transaction list M" where
  "ListTransactions env opts =
     bindM (mapErr (Wrap ''store.ListTransactions'')
       (pool_call env (query (\<lambda>k D. sql_list_transactions (Kind opts) (Limit opts) (Offset opts) D)))) (\<lambda>rows.
     let txns = map scanTransactionRow rows in
     bindM (mapErr (Wrap ''store.ListTransactions rows'') (stream_end env)) (\<lambda>_.
     fill_entries env txns))"

subsection \<open>Audit log\<close>

definition scanAudit :: "env \<Rightarrow> audit_row \<Rightarrow> gerror + AuditEntry" where
  "scanAudit env r =
     (let e = \<lparr>auID = au_id r, auOperation = au_operation r, auFromAccount = au_from_account r,
            auToAccount = au_to_account r, auAmount = None, auOutcome = au_outcome r,
            auErrorReason = au_error_reason r, auTransactionID = au_transaction_id r,
            auRequestID = au_request_id r, auCreatedAt = au_created_at r\<rparr>
      in case au_amount r of
           None \<Rightarrow> Inr e
         | Some u \<Rightarrow>
             (case scan_numeric (Some (numeric_send env u)) of
                Inl err \<Rightarrow> Inl (ScanError err)
              | Inr amt \<Rightarrow> Inr (e\<lparr>auAmount := Some (NewFromDecimal amt)\<rparr>)))"

definition ListAuditForAccount :: "env \<Rightarrow> UUID \<Rightarrow> int \<Rightarrow> AuditEntry list M" where
  "ListAuditForAccount env accountID limit =
     bindM (mapErr (Wrap ''store.ListAuditForAccount'')
       (pool_call env (query (\<lambda>k D. sql_audit_for_account env accountID limit k D)))) (\<lambda>rows.
     bindM (mapM (\<lambda>r. mapErr (Wrap ''store.ListAuditForAccount scan'') (liftM (scanAudit env r))) rows) (\<lambda>entries.
     bindM (mapErr (Wrap ''store.ListAuditForAccount rows'') (stream_end env)) (\<lambda>_. returnM entries)))"

definition WriteAudit :: "env \<Rightarrow> AuditEntry \<Rightarrow> unit M" where
  "WriteAudit env entry =
     mapErr (Wrap ''store.WriteAudit'')
       (pool_call env (\<lambda>k D. map_sum id (Pair ())
          (sql_insert_audit (nextval env k) entry (micros (clock env k)) D)))"

subsection \<open>The store as the service's \<^verbatim>\<open>Storer\<close>\<close>

definition Store_Storer :: "env \<Rightarrow> Storer" where
  "Store_Storer env = \<lparr>st_WithTx = WithTx env,
     st_GetTransactionByIdempotencyKey = GetTransactionByIdempotencyKey env,
     st_GetTransaction = GetTransaction env, st_WriteAudit = WriteAudit env,
     st_LockAccountsForUpdate = LockAccountsForUpdate env, st_UpdateBalance = UpdateBalance env,
     st_InsertTransaction = InsertTransaction env,
     st_InsertReversalTransaction = InsertReversalTransaction env, st_InsertEntries = InsertEntries env\<rparr>"

lemma Store_Storer_sel [simp]:
  "st_WithTx (Store_Storer env) = WithTx env"
  "st_GetTransactionByIdempotencyKey (Store_Storer env) = GetTransactionByIdempotencyKey env"
  "st_GetTransaction (Store_Storer env) = GetTransaction env"
  "st_WriteAudit (Store_Storer env) = WriteAudit env"
  "st_LockAccountsForUpdate (Store_Storer env) = LockAccountsForUpdate env"
  "st_UpdateBalance (Store_Storer env) = UpdateBalance env"
  "st_InsertTransaction (Store_Storer env) = InsertTransaction env"
  "st_InsertReversalTransaction (Store_Storer env) = InsertReversalTransaction env"
  "st_InsertEntries (Store_Storer env) = InsertEntries env"
  by (simp_all add: Store_Storer_def)

subsection \<open>Reading rows\<close>

text \<open>The value of an account row.\<close>

definition account_of :: "account_row \<Rightarrow> Account" where
  "account_of r = \<lparr>aID = ar_id r, aName = ar_name r, aBalance = of_units (ar_balance r),
     aIsSystem = ar_is_system r, aCreatedAt = ar_created_at r, aUpdatedAt = ar_updated_at r\<rparr>"

definition entry_of :: "entry_row \<Rightarrow> string \<Rightarrow> Entry" where
  "entry_of r name = \<lparr>eID = er_id r, eTransactionID = er_transaction_id r, eAccountID = er_account_id r,
     eDirection = er_direction r, eAccountName = name, eAmount = of_units (er_amount r),
     eCreatedAt = er_created_at r\<rparr>"

lemma scanAccount_ok:
  assumes "env_ok env" "numeric_fits (ar_balance r)"
  shows "scanAccount env r = Inr (account_of r)"
  using scan_numeric_msg [OF env_okD(2) [OF assms]] by (auto simp: scanAccount_def account_of_def)

lemma scanEntry_ok:
  assumes "env_ok env" "numeric_fits (er_amount r)"
  shows "scanEntry env (r, name) = Inr (entry_of r name)"
  using scan_numeric_msg [OF env_okD(2) [OF assms]] by (auto simp: scanEntry_def entry_of_def)

lemma list_all2_map_Inr:
  "(\<And>r. r \<in> set rows \<Longrightarrow> h r = Inr (g r)) \<Longrightarrow> list_all2 (\<lambda>r y. h r = Inr y) rows ys \<longleftrightarrow> ys = map g rows"
  by (induction rows arbitrary: ys) (auto simp: list_all2_Cons1)

lemma stream_end_Inr:
  "stream_end env w = (Inr u, w') \<longleftrightarrow> fate env (tick w) = Proceed \<and> w' = w\<lparr>tick := tick w + 1\<rparr>"
  by (auto simp: stream_end_def run_simps)

lemma collectAccounts_Inr:
  assumes "env_ok env" "\<And>r. r \<in> set rows \<Longrightarrow> numeric_fits (ar_balance r)"
  shows "collectAccounts env rows w = (Inr as, w') \<longleftrightarrow>
    as = map account_of rows \<and> fate env (tick w) = Proceed \<and> w' = w\<lparr>tick := tick w + 1\<rparr>"
  using list_all2_map_Inr [of rows "scanAccount env" account_of] scanAccount_ok [OF assms(1)] assms(2)
  by (auto simp: collectAccounts_def run_simps mapM_lift stream_end_Inr)

lemma set_sort_ids [simp]: "set (sort_ids ids) = set ids"
  by (simp add: sort_ids_def)

lemma contains_from_iff:
  "contains_from s sub i \<longleftrightarrow> (\<exists>j\<ge>i. j + length sub \<le> length s \<and> take (length sub) (drop j s) = sub)"
proof (induction s sub i rule: contains_from.induct)
  case (1 s sub i)
  show ?case
  proof (cases "i + length sub \<le> length s")
    case False
    then show ?thesis by (subst contains_from.simps) auto
  next
    case True
    show ?thesis
    proof (cases "take (length sub) (drop i s) = sub")
      case True
      with \<open>i + length sub \<le> length s\<close> show ?thesis by (subst contains_from.simps) auto
    next
      case False
      with True 1 have "contains_from s sub i = contains_from s sub (i + 1)"
        by (subst contains_from.simps) simp
      with 1 [OF True False] False show ?thesis
        by (metis Suc_eq_plus1 Suc_leD not_less_eq_eq order_antisym_conv)
    qed
  qed
qed

lemma take_drop_sublist: "(\<exists>j. j + length sub \<le> length s \<and> take (length sub) (drop j s) = sub) \<longleftrightarrow> sublist sub s"
proof
  assume "\<exists>j. j + length sub \<le> length s \<and> take (length sub) (drop j s) = sub"
  then obtain j where "take (length sub) (drop j s) = sub" by blast
  then have "s = take j s @ sub @ drop (length sub) (drop j s)"
    by (metis append_take_drop_id)
  then show "sublist sub s" by (metis sublist_appendI)
next
  assume "sublist sub s"
  then obtain ps ss where "s = ps @ sub @ ss" by (auto simp: sublist_def)
  then show "\<exists>j. j + length sub \<le> length s \<and> take (length sub) (drop j s) = sub"
    by (intro exI [of _ "length ps"]) simp
qed

text \<open>The function \<^verbatim>\<open>containsSubstr\<close> decides whether a text occurs in another.\<close>

lemma containsSubstr_sublist: "containsSubstr s sub \<longleftrightarrow> sublist sub s"
  by (auto simp: containsSubstr_def contains_from_iff take_drop_sublist [symmetric])

end
