(* ===== verification/Store_Contract.thy ===== *)
theory Store_Contract
  imports Store
begin

text \<open>
  The PostgreSQL store keeps the contract \<open>storer\<close> of the service: inside a transaction the statements of
  a posting, run one after the other, leave exactly the abstract posting of theory \<^verbatim>\<open>Ledger\<close>; whatever
  fails, the database is as before or as after; reads return what is stored. The locale is interpreted
  twice: for a database shared with other clients, and for one this program has to itself.
\<close>

subsection \<open>A posting inside a transaction\<close>

lemma lock_call_Inr:
  assumes "wdb w = snap w"
  shows "lock_call env f w = (Inr x, w') \<longleftrightarrow>
    (let D = others env (tick w) (wdb w) in
     fate env (tick w) = Proceed \<and>
     (\<exists>D'. f (tick w) D = Inr (x, D') \<and> w' = w\<lparr>tick := tick w + 1, wdb := D', snap := D\<rparr>))"
  using assms by (auto simp: lock_call_def Let_def run_call_Inr)

lemma ledger_fits: "ledger_ok D \<Longrightarrow> r \<in> set (accounts D) \<Longrightarrow> numeric_fits (ar_balance r)"
  unfolding ledger_ok_def account_ok_def by blast

lemma set_lock_accounts: "set (sql_lock_accounts env ids D) = {r \<in> set (accounts D). ar_id r \<in> set ids}"
  by (auto simp: sql_lock_accounts_def)

lemma LockAccountsForUpdate_Inr:
  assumes "env_ok env" "wdb w = snap w" "ledger_ok (others env (tick w) (wdb w))"
    and "LockAccountsForUpdate env ids w = (Inr locked, w')"
  shows "let D = others env (tick w) (wdb w) in
    locked = map account_of (sql_lock_accounts env (sort_ids ids) D) \<and>
    w' = w\<lparr>tick := tick w + 2, wdb := D, snap := D\<rparr>"
proof -
  let ?D = "others env (tick w) (wdb w)"
  have "numeric_fits (ar_balance r)" if "r \<in> set (sql_lock_accounts env (sort_ids ids) ?D)" for r
    using that ledger_fits [OF assms(3)] by (simp add: set_lock_accounts)
  note ca = collectAccounts_Inr [OF assms(1) this]
  show ?thesis
    using assms(4) ca
    by (auto simp: LockAccountsForUpdate_def Let_def run_simps lock_call_Inr [OF assms(2)])
qed

lemma locked_pair:
  assumes "ledger_ok D" "length (sql_lock_accounts env ids D) = 2" "set ids = {a, b}"
  obtains ra rb where "a \<noteq> b" "ra \<in> set (accounts D)" "ar_id ra = a" "rb \<in> set (accounts D)" "ar_id rb = b"
    "\<And>acc. pick_accounts a b (map account_of (sql_lock_accounts env ids D)) acc = (account_of ra, account_of rb)"
proof -
  let ?rows = "sql_lock_accounts env ids D"
  obtain x y where xy: "?rows = [x, y]"
    using assms(2) by (auto simp: numeral_2_eq_2 length_Suc_conv)
  have di: "distinct (map ar_id (accounts D))" using assms(1) by (simp add: ledger_ok_def keys_ok_def)
  then have "distinct (accounts D)" by (simp add: distinct_map)
  then have "distinct ?rows" by (simp add: sql_lock_accounts_def)
  then have ne: "x \<noteq> y" by (simp add: xy)
  have "{x, y} = {r \<in> set (accounts D). ar_id r \<in> {a, b}}"
    using set_lock_accounts [of env ids D] assms(3) by (simp add: xy)
  then have m: "x \<in> set (accounts D)" "y \<in> set (accounts D)" "ar_id x \<in> {a, b}" "ar_id y \<in> {a, b}"
    by blast+
  with ne di have "ar_id x \<noteq> ar_id y" by (metis distinct_map inj_onD)
  with m consider "ar_id x = a" "ar_id y = b" "a \<noteq> b" | "ar_id x = b" "ar_id y = a" "a \<noteq> b" by auto
  then show ?thesis
    by cases (use m that [of x y] that [of y x] in \<open>auto simp: xy account_of_def\<close>)
qed

lemma numeric_20_4_money: "money_ok m \<Longrightarrow>
  numeric_20_4 (Money_Decimal m) = (if numeric_fits (units m) then Inr (units m)
    else Inl (pg_err ''22003'' ''numeric field overflow'' [] []))"
  by (simp add: numeric_20_4_def numeric_scaled_def Money_Decimal_def money_ok_def units_def)

lemma UpdateBalance_Inr:
  assumes "money_ok m" "UpdateBalance env i m w = (Inr u, w')"
  shows "numeric_fits (units m)"
    and "\<forall>r\<in>set (accounts (wdb w)). ar_id r = i \<and> \<not> ar_is_system r \<longrightarrow> 0 \<le> units m"
    and "w' = w\<lparr>tick := tick w + 1, wdb := (wdb w)\<lparr>accounts :=
      map (set_balance i (units m) (micros (clock env (tick w)))) (accounts (wdb w))\<rparr>\<rparr>"
  using assms
  by (auto simp: UpdateBalance_def run_simps sql_update_balance_def numeric_20_4_money split: if_splits)

lemma exec_insert_transaction_Inr:
  assumes "exec_insert_transaction env t w = (Inr u, w')"
  shows "violated_unique (transaction_row_of t (tx_start w)) (wdb w) = []"
    and "w' = w\<lparr>tick := tick w + 1, wdb := (wdb w)\<lparr>transactions :=
      transactions (wdb w) @ [transaction_row_of t (tx_start w)]\<rparr>\<rparr>"
  using assms
  by (auto simp: exec_insert_transaction_def run_simps sql_insert_transaction_def Let_def split: if_splits prod.splits)

lemma Insert_Inr:
  assumes "ins = InsertTransaction env \<or> ins = InsertReversalTransaction env" "ins t w = (Inr u, w')"
  shows "exec_insert_transaction env t w = (Inr u, w')"
  using assms by (auto simp: InsertTransaction_def InsertReversalTransaction_def run_simps)

lemma exec_insert_entry_Inr:
  assumes "money_ok (eAmount e)" "exec_insert_entry env e w = (Inr u, w')"
  shows "0 < units (eAmount e)" "numeric_fits (units (eAmount e))"
    and "w' = w\<lparr>tick := tick w + 1, pending := pending w @ [eTransactionID e], wdb := (wdb w)\<lparr>entries := entries (wdb w) @
      [\<lparr>er_id = nextval env (tick w), er_transaction_id = eTransactionID e, er_account_id = eAccountID e,
        er_direction = eDirection e, er_amount = units (eAmount e), er_created_at = tx_start w\<rparr>]\<rparr>\<rparr>"
  using assms
  by (auto simp: exec_insert_entry_def run_simps sql_insert_entry_def numeric_20_4_money split: if_splits)

lemma set_balance_twice:
  assumes "distinct (map ar_id xs)" "x \<in> set xs" "y \<in> set xs" "ar_id x \<noteq> ar_id y"
    "p_src P = ar_id x" "p_dst P = ar_id y"
  shows "map (set_balance (ar_id y) (ar_balance y + p_amount P) (p_dst_at P))
      (map (set_balance (ar_id x) (ar_balance x - p_amount P) (p_src_at P)) xs) = map (move_row P) xs"
proof -
  have "set_balance (ar_id y) (ar_balance y + p_amount P) (p_dst_at P)
      (set_balance (ar_id x) (ar_balance x - p_amount P) (p_src_at P) r) = move_row P r" if "r \<in> set xs" for r
  proof -
    have "ar_id r = ar_id x \<Longrightarrow> r = x" "ar_id r = ar_id y \<Longrightarrow> r = y"
      using assms(1-3) that by (auto simp: distinct_map dest: inj_onD)
    with assms(4-6) show ?thesis by (auto simp: set_balance_def move_row_def)
  qed
  then show ?thesis by simp
qed

lemma Money_ops_of_units:
  assumes "money_like a" "money_like b"
  shows "Money_Sub a b = of_units (units a - units b)" "Money_Add a b = of_units (units a + units b)"
  using Money_ops_units [OF assms] Money_ops_ok money_ok_eq by metis+

lemma violated_unique_frame: "transactions D' = transactions D \<Longrightarrow> violated_unique t D' = violated_unique t D"
  by (simp add: violated_unique_def)

lemma unique_row:
  "ledger_ok D \<Longrightarrow> r \<in> set (accounts D) \<Longrightarrow> r' \<in> set (accounts D) \<Longrightarrow> ar_id r = ar_id r' \<Longrightarrow> r = r'"
  unfolding ledger_ok_def keys_ok_def distinct_map by (metis inj_onD)

lemma kind_okI:
  assumes "txn_ready txn from to amt D" "p_txn P = transaction_row_of txn ts" "p_src P = from" "p_dst P = to"
    "p_amount P = amt"
  shows "kind_ok P D"
  using assms by (auto simp: txn_ready_def kind_ok_def transaction_row_of_def Let_def)

lemma posting_okI:
  assumes D: "ledger_ok D"
    and rows: "rf \<in> set (accounts D)" "ar_id rf = p_src P" "rt \<in> set (accounts D)" "ar_id rt = p_dst P" "p_src P \<noteq> p_dst P"
    and "violated_unique (p_txn P) D = []" "0 < p_amount P" "numeric_fits (p_amount P)" "p_debit_id P < p_credit_id P"
      "\<not> ar_is_system rf \<longrightarrow> p_amount P \<le> ar_balance rf" "kind_ok P D"
      "numeric_fits (ar_balance rf - p_amount P)" "numeric_fits (ar_balance rt + p_amount P)"
  shows "posting_ok P D"
proof -
  have "r = rf" if "r \<in> set (accounts D)" "ar_id r = p_src P" for r
    using unique_row [OF D that(1) rows(1)] that(2) rows(2) by simp
  moreover have "r = rt" if "r \<in> set (accounts D)" "ar_id r = p_dst P" for r
    using unique_row [OF D that(1) rows(3)] that(2) rows(4) by simp
  moreover have "p_src P \<in> ar_id ` set (accounts D)" "p_dst P \<in> ar_id ` set (accounts D)"
    using rows(1-4) by (metis imageI)+
  ultimately show ?thesis using assms(6-) unfolding posting_ok_def by (simp add: rows(5)) blast
qed

text \<open>The statements after the locks, in order, and the row each leaves.\<close>

lemma posting_effect:
  assumes env: "env_ok env" and D: "ledger_ok D" and wD: "wdb w = D"
    and m: "money_ok amount"
    and rows: "rf \<in> set (accounts D)" "ar_id rf = from" "rt \<in> set (accounts D)" "ar_id rt = to" "from \<noteq> to"
    and ins: "ins = InsertTransaction env \<or> ins = InsertReversalTransaction env"
    and s1: "UpdateBalance env from (Money_Sub (of_units (ar_balance rf)) amount) w = (Inr u1, w1)"
    and s2: "UpdateBalance env to (Money_Add (of_units (ar_balance rt)) amount) w1 = (Inr u2, w2)"
    and s3: "ins txn w2 = (Inr u3, w3)"
    and s4: "InsertEntries env [mk_Entry (tID txn) from DirectionDebit amount,
               mk_Entry (tID txn) to DirectionCredit amount] w3 = (Inr u4, w4)"
  obtains P ts where "p_txn P = transaction_row_of txn ts" "p_src P = from" "p_dst P = to" "p_amount P = units amount"
    "wdb w4 = apply_posting P D" "snap w4 = snap w" "violated_unique (p_txn P) D = []" "0 < units amount" "numeric_fits (units amount)"
    "p_debit_id P < p_credit_id P" "numeric_fits (ar_balance rf - units amount)" "numeric_fits (ar_balance rt + units amount)"
proof -
  let ?a = "units amount"
  have sub: "Money_Sub (of_units (ar_balance rf)) amount = of_units (ar_balance rf - ?a)"
    and add: "Money_Add (of_units (ar_balance rt)) amount = of_units (ar_balance rt + ?a)"
    using Money_ops_of_units [of "of_units _" amount] m by simp_all
  note u1 = UpdateBalance_Inr [OF money_ok_of_units s1 [unfolded sub]]
  note u2 = UpdateBalance_Inr [OF money_ok_of_units s2 [unfolded add]]
  note i3 = exec_insert_transaction_Inr [OF Insert_Inr [OF ins s3]]
  obtain w3' where e1: "exec_insert_entry env (mk_Entry (tID txn) from DirectionDebit amount) w3 = (Inr (), w3')"
    and e2: "exec_insert_entry env (mk_Entry (tID txn) to DirectionCredit amount) w3' = (Inr (), w4)"
    using s4 by (auto simp: InsertEntries_def run_simps split: if_splits)
  define P where "P = \<lparr>p_txn = transaction_row_of txn (tx_start w2), p_src = from, p_dst = to, p_amount = ?a,
    p_debit_id = nextval env (tick w3), p_credit_id = nextval env (tick w3'),
    p_src_at = micros (clock env (tick w)), p_dst_at = micros (clock env (tick w1)), p_at = tx_start w2\<rparr>"
  have P: "p_txn P = transaction_row_of txn (tx_start w2)" "p_src P = from" "p_dst P = to" "p_amount P = ?a"
    by (simp_all add: P_def)
  have me: "money_ok (eAmount (mk_Entry (tID txn) x d amount))" for x d using m by (simp add: mk_Entry_def)
  note f1 = exec_insert_entry_Inr [OF me e1] and f2 = exec_insert_entry_Inr [OF me e2]
  have tick: "tick w3 < tick w3'" using f1(3) by simp
  have acc: "accounts (wdb w4) = map (move_row P) (accounts D)"
  proof -
    have "accounts (wdb w4) = map (set_balance to (ar_balance rt + ?a) (p_dst_at P))
        (map (set_balance from (ar_balance rf - ?a) (p_src_at P)) (accounts D))"
      using u1(3) u2(3) i3(2) f1(3) f2(3) wD by (simp add: P_def)
    then show ?thesis
      using set_balance_twice [of "accounts D" rf rt P] rows D by (simp add: P ledger_ok_def keys_ok_def)
  qed
  have ent: "entries (wdb w4) = entries D @ [debit_leg P, credit_leg P]"
    using u1(3) u2(3) i3(2) f1(3) f2(3) wD
    by (simp add: P_def debit_leg_def credit_leg_def mk_Entry_def transaction_row_of_def)
  have txs: "transactions (wdb w4) = transactions D @ [p_txn P]" "audit_log (wdb w4) = audit_log D"
    and sn: "snap w4 = snap w" and tx2: "transactions (wdb w2) = transactions D"
    using u1(3) u2(3) i3(2) f1(3) f2(3) wD by (simp_all add: P)
  have res: "wdb w4 = apply_posting P D"
    using acc ent txs by (simp add: apply_posting_def)
  show thesis
  proof (rule that [OF P res sn])
    show "violated_unique (p_txn P) D = []"
      using i3(1) violated_unique_frame [OF tx2] by (simp add: P)
    show "0 < ?a" "numeric_fits ?a" using f1(1, 2) by (simp_all add: mk_Entry_def)
    show "p_debit_id P < p_credit_id P"
      using env_okD(5) [OF env] tick by (simp add: P_def strict_mono_less)
    show "numeric_fits (ar_balance rf - ?a)" "numeric_fits (ar_balance rt + ?a)"
      using u1(1) u2(1) by simp_all
  qed
qed

lemma posting_steps:
  assumes env: "env_ok env" and D: "ledger_ok D" and wD: "wdb w = D"
    and m: "money_ok amount"
    and rows: "rf \<in> set (accounts D)" "ar_id rf = from" "rt \<in> set (accounts D)" "ar_id rt = to" "from \<noteq> to"
    and ready: "txn_ready txn from to (units amount) D"
    and funds: "(\<not> Money_LessThan (of_units (ar_balance rf)) amount) \<or> from = ExternalAccountID"
    and ins: "ins = InsertTransaction env \<or> ins = InsertReversalTransaction env"
    and s1: "UpdateBalance env from (Money_Sub (of_units (ar_balance rf)) amount) w = (Inr u1, w1)"
    and s2: "UpdateBalance env to (Money_Add (of_units (ar_balance rt)) amount) w1 = (Inr u2, w2)"
    and s3: "ins txn w2 = (Inr u3, w3)"
    and s4: "InsertEntries env [mk_Entry (tID txn) from DirectionDebit amount,
               mk_Entry (tID txn) to DirectionCredit amount] w3 = (Inr u4, w4)"
  shows "\<exists>P. posting_of txn from to amount P \<and> posting_ok P D \<and> wdb w4 = apply_posting P D \<and> snap w4 = snap w"
proof -
  obtain P ts where P: "p_txn P = transaction_row_of txn ts" "p_src P = from" "p_dst P = to" "p_amount P = units amount"
    and w4: "wdb w4 = apply_posting P D" "snap w4 = snap w"
    and fit: "violated_unique (p_txn P) D = []" "0 < units amount" "numeric_fits (units amount)"
      "p_debit_id P < p_credit_id P" "numeric_fits (ar_balance rf - units amount)" "numeric_fits (ar_balance rt + units amount)"
    by (rule posting_effect [OF env D wD m rows ins s1 s2 s3 s4])
  have "posting_ok P D"
    by (rule posting_okI [OF D rows [folded P] _ _ _ _ _ kind_okI [OF ready P]])
      (use fit funds m rows(1, 2) D in \<open>auto simp: P Money_cmp_units ledger_ok_def account_ok_def\<close>)
  moreover have "posting_of txn from to amount P"
    by (simp add: posting_of_def P transaction_row_of_def)
  ultimately show ?thesis using w4 by blast
qed

lemma posting_success:
  assumes env: "env_ok env" and sn: "wdb w = snap w" and DD: "D = others env (tick w) (wdb w)"
    and D: "ledger_ok D" and m: "money_like amount"
    and ft: "(from, to) = (if swapped then (b, a) else (a, b))"
    and ready: "txn_ready txn from to (units amount) D"
    and check: "check \<or> from = ExternalAccountID"
    and ins: "ins = InsertTransaction env \<or> ins = InsertReversalTransaction env"
    and run: "posting_tx (Store_Storer env) msg a b swapped check ins amount txn w = (Inr res, w')"
  shows "\<exists>P. posting_of txn from to amount P \<and> posting_ok P D \<and> wdb w' = apply_posting P D \<and> snap w' = D \<and>
    res = posted_result txn from to amount"
proof -
  let ?es = "[mk_Entry (tID txn) from DirectionDebit amount, mk_Entry (tID txn) to DirectionCredit amount]"
  let ?ids = "sort_ids [a, b]"
  obtain locked w0 where L: "LockAccountsForUpdate env [a, b] w = (Inr locked, w0)" and len: "length locked = 2"
    using run by (auto simp: posting_tx_def run_simps split: if_splits)
  from LockAccountsForUpdate_Inr [OF env sn _ L] D DD
  have locked: "locked = map account_of (sql_lock_accounts env ?ids D)"
    and w0: "w0 = w\<lparr>tick := tick w + 2, wdb := D, snap := D\<rparr>" by (simp_all add: Let_def)
  have "set ?ids = {a, b}" by simp
  from locked_pair [OF D _ this, of env] len locked obtain ra rb where
    r: "a \<noteq> b" "ra \<in> set (accounts D)" "ar_id ra = a" "rb \<in> set (accounts D)" "ar_id rb = b"
    and pick: "\<And>acc. pick_accounts a b locked acc = (account_of ra, account_of rb)" by (metis length_map)
  define rf rt where "rf = (if swapped then rb else ra)" and "rt = (if swapped then ra else rb)"
  have rows: "rf \<in> set (accounts D)" "ar_id rf = from" "rt \<in> set (accounts D)" "ar_id rt = to" "from \<noteq> to"
    using r ft by (auto simp: rf_def rt_def split: if_splits)
  have bal: "aBalance (account_of r) = of_units (ar_balance r)" for r by (simp add: account_of_def)
  obtain w1 w2 w3 where
    s1: "UpdateBalance env from (Money_Sub (of_units (ar_balance rf)) amount) w0 = (Inr (), w1)" and
    s2: "UpdateBalance env to (Money_Add (of_units (ar_balance rt)) amount) w1 = (Inr (), w2)" and
    s3: "ins txn w2 = (Inr (), w3)" and
    s4: "InsertEntries env ?es w3 = (Inr (), w')" and res: "res = (txn, ?es)" and
    funds: "\<not> (check \<and> Money_LessThan (of_units (ar_balance rf)) amount)"
    using run L len pick ft
    by (cases swapped) (auto simp: posting_tx_def run_simps bal rf_def rt_def Let_def split: if_splits)
  have "Money_IsPositive amount"
    using s4 by (auto simp: InsertEntries_def run_simps mk_Entry_def split: if_splits)
  then have mo: "money_ok amount"
    using m by (auto simp: money_like_def Money_zero_value_def Money_IsPositive_def go_eval)
  have "\<exists>P. posting_of txn from to amount P \<and> posting_ok P D \<and> wdb w' = apply_posting P D \<and> snap w' = snap w0"
    by (rule posting_steps [OF env D _ mo rows ready _ ins s1 s2 s3 s4]) (use w0 funds check in auto)
  then show ?thesis using w0 res by (auto simp: posted_result_def)
qed

subsection \<open>Transactions are atomic\<close>

definition lift_snap :: "(db \<Rightarrow> db \<Rightarrow> bool) \<Rightarrow> world \<Rightarrow> world \<Rightarrow> bool" where
  "lift_snap R w w' \<longleftrightarrow> R (snap w) (snap w')"

sublocale interference \<subseteq> snap: world_preorder "lift_snap R"
  by unfold_locales (simp_all add: lift_snap_def db_refl, erule (1) db_trans)

context interference
begin

text \<open>What a rollback goes back to moves only by what others commit.\<close>

lemma snap_tx_call: "keeps (lift_snap R) (tx_call env f)"
  by (auto simp: keeps_def tx_call_def run_call_def lift_snap_def db_refl split: fate.splits sum.splits)

lemma snap_lock_call: "ok env \<Longrightarrow> keeps (lift_snap R) (lock_call env f)"
  using snap_tx_call [of env f]
  by (auto simp: keeps_def lock_call_def run_call_def lift_snap_def Let_def db_refl
      split: fate.splits sum.splits) (metis db_others)+

lemma snap_LockAccounts: "ok env \<Longrightarrow> keeps (lift_snap R) (LockAccountsForUpdate env ids)"
  unfolding LockAccountsForUpdate_def Let_def collectAccounts_def stream_end_def
  by (intro snap.keeps_intros snap_lock_call snap_tx_call)

lemma snap_UpdateBalance: "keeps (lift_snap R) (UpdateBalance env i m)"
  unfolding UpdateBalance_def by (intro snap.keeps_intros snap_tx_call)

lemma snap_Insert:
  "keeps (lift_snap R) (InsertTransaction env t)" "keeps (lift_snap R) (InsertReversalTransaction env t)"
proof -
  have "keeps (lift_snap R) (exec_insert_transaction env t)"
    using snap_tx_call unfolding exec_insert_transaction_def keeps_def by blast
  then show "keeps (lift_snap R) (InsertTransaction env t)" "keeps (lift_snap R) (InsertReversalTransaction env t)"
    by (simp_all add: InsertTransaction_def InsertReversalTransaction_def snap.keeps_mapErr)
qed

lemma snap_InsertEntries: "keeps (lift_snap R) (InsertEntries env es)"
proof -
  have P: "keeps (lift_snap R) (\<lambda>w. (Inr (), w\<lparr>pending := pending w @ [x]\<rparr>))" for x
    by (simp add: keeps_def lift_snap_def db_refl)
  have "keeps (lift_snap R) (exec_insert_entry env e)" for e
    unfolding keeps_def
  proof
    fix w :: world
    have "keeps (lift_snap R) (bindM (tx_call env (\<lambda>k D. map_sum id (Pair ())
        (sql_insert_entry (nextval env k) (eTransactionID e) (eAccountID e) (eDirection e)
          (Money_Decimal (eAmount e)) (tx_start w) D)))
        (\<lambda>_ w'. (Inr (), w'\<lparr>pending := pending w' @ [eTransactionID e]\<rparr>)))"
      by (intro snap.keeps_bind snap_tx_call P)
    then show "lift_snap R w (snd (exec_insert_entry env e w))"
      by (simp add: exec_insert_entry_def keeps_def)
  qed
  then have "keeps (lift_snap R) (insert_entries_loop env es)"
    by (induction es) (auto intro!: snap.keeps_intros)
  then show ?thesis
    unfolding InsertEntries_def by (auto intro!: snap.keeps_intros)
qed

lemma snap_posting_tx:
  assumes "ok env" "ins = InsertTransaction env \<or> ins = InsertReversalTransaction env"
  shows "keeps (lift_snap R) (posting_tx (Store_Storer env) msg a b swapped check ins amount txn)"
proof -
  have "keeps (lift_snap R) (ins txn)" using assms(2) snap_Insert by auto
  then show ?thesis
    unfolding posting_tx_def Let_def case_prod_beta Store_Storer_sel
    using assms(1)
    by (auto intro!: snap.keeps_intros snap_LockAccounts snap_UpdateBalance snap_InsertEntries)
qed

lemma begin_tx_run:
  assumes "ok env" "begin_tx env w = (r, w')"
  shows "R (wdb w) (wdb w') \<and> (\<forall>u. r = Inr u \<longrightarrow> snap w' = wdb w')"
  using assms db_others [OF assms(1), of "wdb w" "tick w"]
  by (auto simp: begin_tx_def pool_call_def run_call_def split: fate.splits)

lemma commit_cases:
  assumes "commit env x w = (r, w')"
  shows "(\<exists>e. r = Inl e) \<and> wdb w' = snap w \<or>
    wdb w' = wdb w \<and> (r = Inr x \<or> (\<exists>e. r = Inl e \<and> commit_lost e))"
  using assms by (auto simp: commit_def Let_def rollback_def commit_lost_def split: fate.splits if_splits)

lemma WithTx_posting:
  assumes ok: "ok env" "env_ok env" and R_rely: "\<And>D D'. R D D' \<Longrightarrow> rely D D'"
    and L: "ledger_ok (wdb w)" and m: "money_like amount"
    and ft: "(from, to) = (if swapped then (b, a) else (a, b))"
    and ready: "txn_ready txn from to (units amount) (wdb w)"
    and check: "check \<or> from = ExternalAccountID"
    and ins: "ins = InsertTransaction env \<or> ins = InsertReversalTransaction env"
    and run: "WithTx env (posting_tx (Store_Storer env) msg a b swapped check ins amount txn) w = (r, w')"
  shows "posting_outcome R txn from to amount (wdb w) r (wdb w')"
proof -
  let ?tx = "posting_tx (Store_Storer env) msg a b swapped check ins amount txn"
  obtain x w1 where B: "begin_tx env w = (x, w1)" by fastforce
  note b = begin_tx_run [OF ok(1) B]
  show ?thesis
  proof (cases x)
    case (Inl e)
    with run B b show ?thesis by (auto simp: WithTx_def run_eval posting_outcome_def)
  next
    case (Inr u)
    with b have w1: "R (wdb w) (wdb w1)" "wdb w1 = snap w1" by auto
    let ?D = "others env (tick w1) (wdb w1)"
    have RD: "R (wdb w) ?D" using db_trans [OF w1(1) db_others [OF ok(1)]] .
    have LD: "ledger_ok ?D" "txn_ready txn from to (units amount) ?D"
      using relyD(1) [OF R_rely [OF RD] L] txn_ready_rely [OF ready R_rely [OF RD] L] by auto
    obtain y w2 where T: "?tx w1 = (y, w2)" by fastforce
    have S2: "R (wdb w) (snap w2)"
      using keepsD [OF snap_posting_tx [OF ok(1) ins] T] w1 db_trans by (auto simp: lift_snap_def)
    show ?thesis
    proof (cases y)
      case (Inl e)
      with run B T \<open>x = Inr u\<close> have "r = Inl e" "w' = rollback w2" by (simp_all add: WithTx_def run_eval)
      with S2 show ?thesis by (auto simp: posting_outcome_def rollback_def)
    next
      case (Inr res)
      with run B T \<open>x = Inr u\<close> have C: "commit env res w2 = (r, w')" by (simp add: WithTx_def run_eval)
      from posting_success [OF ok(2) w1(2) refl LD(1) m ft LD(2) check ins T [unfolded Inr]] obtain P where
        P: "posting_of txn from to amount P" "posting_ok P ?D" "wdb w2 = apply_posting P ?D"
          "res = posted_result txn from to amount" by blast
      from commit_cases [OF C] consider (no) e where "r = Inl e" "wdb w' = snap w2"
        | (yes) "wdb w' = wdb w2" "r = Inr res \<or> (\<exists>e. r = Inl e \<and> commit_lost e)" by blast
      then show ?thesis
      proof cases
        case no
        with S2 show ?thesis by (auto simp: posting_outcome_def)
      next
        case yes
        with P RD show ?thesis unfolding posting_outcome_def by (intro exI [of _ ?D]) auto
      qed
    qed
  qed
qed

end

subsection \<open>Reads\<close>

context interference
begin

lemma firstRow_keeps: "keeps (lift_db R) (firstRow rows)"
  by (cases rows) (simp_all add: firstRow_def keeps_pure)

lemma listEntries_keeps: "ok env \<Longrightarrow> keeps (lift_db R) (listEntries env t)"
  unfolding listEntries_def by (intro keeps_intros keeps_pool_query keeps_stream_end)

lemma GetTransaction_keeps:
  assumes "ok env"
  shows "keeps (lift_db R) (GetTransactionByIdempotencyKey env key)" "keeps (lift_db R) (GetTransaction env i)"
  unfolding GetTransactionByIdempotencyKey_def GetTransaction_def Let_def
  by (intro keeps_intros keeps_pool_query firstRow_keeps listEntries_keeps assms)+

lemma WriteAudit_keeps:
  assumes "ok env" "\<And>a D. R D (add_audit a D)"
  shows "keeps (lift_db R) (WriteAudit env e)"
  unfolding WriteAudit_def
proof (intro keeps_mapErr keeps_pool_call [OF assms(1)])
  fix k D u D'
  assume "map_sum id (Pair ()) (sql_insert_audit (nextval env k) e (micros (clock env k)) D) = Inr (u, D')"
  then obtain a where "D' = add_audit a D"
    by (auto simp: map_sum_Pair sql_insert_audit_def add_audit_def split: sum.splits if_splits)
  then show "R D D'" using assms(2) by simp
qed

lemma CreateAccount_keeps:
  assumes "ok env" "\<And>r D. ar_id r \<notin> ar_id ` set (accounts D) \<Longrightarrow> wf_uuid (ar_id r) \<Longrightarrow> \<not> ar_is_system r \<Longrightarrow>
      ar_balance r = 0 \<Longrightarrow> R D (add_account r D)"
    and "env_ok env"
  shows "keeps (lift_db R) (CreateAccount env name)"
proof -
  have ins: "keeps (lift_db R) (mapErr (Wrap ''store.CreateAccount'')
      (bindM (pool_call env (\<lambda>k D. sql_insert_account i name (micros (clock env k)) D))
        (\<lambda>r. liftM (scanAccount env r))))" if "wf_uuid i" for i
  proof (intro keeps_intros keeps_pool_call [OF assms(1)])
    fix k D r D'
    assume "sql_insert_account i name (micros (clock env k)) D = Inr (r, D')"
    then have "D' = add_account r D" "ar_id r \<notin> ar_id ` set (accounts D)" "ar_id r = i" "\<not> ar_is_system r"
      "ar_balance r = 0"
      by (auto simp: sql_insert_account_def add_account_def Let_def split: if_splits)
    with assms(2) that show "R D D'" by simp
  qed
  show ?thesis
    unfolding keeps_def
  proof
    fix w :: world
    obtain x w1 where N: "NewV7 env w = (x, w1)" by fastforce
    have w1: "lift_db R w w1" using keepsD [OF keeps_NewV7 N] .
    show "lift_db R w (snd (CreateAccount env name w))"
    proof (cases x)
      case (Inl e)
      with N w1 show ?thesis by (simp add: CreateAccount_def run_eval)
    next
      case (Inr i)
      have "wf_uuid i"
        using N Inr env_okD(6) [OF assms(3)]
        by (auto simp: NewV7_def UUID_NewV7_def NewRandomFromReader_def set_version4_def makeV7_def wf_uuid_def
            map_sum_def split: prod.splits sum.splits)
      from ins [OF this] have "lift_db R w1 (snd (CreateAccount env name w))"
        using N Inr by (simp add: CreateAccount_def run_eval keeps_def)
      with w1 show ?thesis by (rule R_trans)
    qed
  qed
qed

lemma query_keeps:
  assumes "ok env"
  shows "keeps (lift_db R) (GetAccount env i)" "keeps (lift_db R) (ListAccounts env)"
    "keeps (lift_db R) (ListTransactionsForAccount env i n)" "keeps (lift_db R) (ListTransactions env opts)"
    "keeps (lift_db R) (ListAuditForAccount env i n)"
  unfolding GetAccount_def ListAccounts_def ListTransactionsForAccount_def ListTransactions_def
    ListAuditForAccount_def collectAccounts_def fill_entries_def Let_def
  by (intro keeps_intros keeps_pool_query keeps_stream_end firstRow_keeps listEntries_keeps assms)+

end

lemma pool_query_Inr:
  "pool_call env (query q) w = (Inr x, w') \<longleftrightarrow>
     fate env (tick w) = Proceed \<and> q (tick w) (others env (tick w) (wdb w)) = Inr x \<and>
     w' = w\<lparr>tick := tick w + 1, wdb := others env (tick w) (wdb w)\<rparr>"
  by (auto simp: pool_call_def run_simps)

lemma filter_unique:
  assumes "distinct (map f xs)" "x \<in> set xs"
  shows "filter (\<lambda>y. f y = f x) xs = [x]"
  using assms by (induction xs) (auto simp: filter_empty_conv, metis imageI)

lemma sql_entries_legs:
  assumes "ledger_ok D"
  shows "sql_entries t D = map (\<lambda>e. (e, ar_name (hd (filter (\<lambda>a. ar_id a = er_account_id e) (accounts D)))))
    (legs t (entries D))"
proof -
  have "map (\<lambda>a. (e, ar_name a)) (filter (\<lambda>a. ar_id a = er_account_id e) (accounts D)) =
      [(e, ar_name (hd (filter (\<lambda>a. ar_id a = er_account_id e) (accounts D))))]"
    if "e \<in> set (legs t (entries D))" for e
  proof -
    have "er_account_id e \<in> ar_id ` set (accounts D)"
      using that assms by (auto simp: legs_def ledger_ok_def entry_ok_def)
    then obtain a where "a \<in> set (accounts D)" "er_account_id e = ar_id a" by blast
    then show ?thesis
      using filter_unique [of ar_id "accounts D" a] assms by (simp add: ledger_ok_def keys_ok_def)
  qed
  then have "map (\<lambda>e. map (\<lambda>a. (e, ar_name a)) (filter (\<lambda>a. ar_id a = er_account_id e) (accounts D))) (legs t (entries D))
      = map (\<lambda>e. [(e, ar_name (hd (filter (\<lambda>a. ar_id a = er_account_id e) (accounts D))))]) (legs t (entries D))"
    by (intro map_cong) auto
  then show ?thesis unfolding sql_entries_def legs_def [symmetric] by (simp only: concat_map_singleton)
qed

lemma listEntries_Inr:
  assumes "env_ok env" "ledger_ok (others env (tick w) (wdb w))" "listEntries env t w = (Inr es, w')"
  shows "wdb w' = others env (tick w) (wdb w)" "list_all2 entry_matches es (legs t (entries (wdb w')))"
proof -
  let ?D = "others env (tick w) (wdb w)"
  let ?nm = "\<lambda>e. ar_name (hd (filter (\<lambda>a. ar_id a = er_account_id e) (accounts ?D)))"
  have fits: "numeric_fits (er_amount e)" if "e \<in> set (legs t (entries ?D))" for e
    using that assms(2) by (auto simp: legs_def ledger_ok_def entry_ok_def)
  have "list_all2 (\<lambda>r y. scanEntry env r = Inr y) (sql_entries t ?D) es" and w': "wdb w' = ?D"
    using assms(3) by (auto simp: listEntries_def run_simps pool_query_Inr mapM_lift stream_end_Inr)
  moreover have "scanEntry env r = Inr (entry_of (fst r) (snd r))" if "r \<in> set (sql_entries t ?D)" for r
    using that scanEntry_ok [OF assms(1) fits] by (auto simp: sql_entries_legs [OF assms(2)])
  ultimately have "es = map (\<lambda>r. entry_of (fst r) (snd r)) (sql_entries t ?D)"
    using list_all2_map_Inr [of "sql_entries t ?D" "scanEntry env" "\<lambda>r. entry_of (fst r) (snd r)" es] by blast
  then have es: "es = map (\<lambda>e. entry_of e (?nm e)) (legs t (entries ?D))"
    by (simp add: sql_entries_legs [OF assms(2)])
  show "wdb w' = ?D" by (rule w')
  show "list_all2 entry_matches es (legs t (entries (wdb w')))"
    unfolding es w' by (simp add: list_all2_map1 entry_matches_def entry_of_def list.rel_refl)
qed

lemma stored_read:
  assumes env: "env_ok env" and L: "ledger_ok D" and row: "row \<in> set (transactions D)"
    and w1: "wdb w1 = D" and run: "listEntries env (tr_id row) w1 = (Inr es, w')"
  shows "stored (wdb w') row ((scanTransaction row)\<lparr>tEntries := es\<rparr>, es)"
proof -
  have D': "rely D (others env (tick w1) (wdb w1))" using env_okD(1) [OF env] w1 by simp
  have "ledger_ok (others env (tick w1) (wdb w1))" using relyD(1) [OF D' L] .
  note le = listEntries_Inr [OF env this run]
  show ?thesis
    using le relyD(2) [OF D' L row] by (simp add: stored_def scanTransaction_def)
qed

lemma GetTransactionByIdempotencyKey_found:
  assumes env: "env_ok env" and L: "ledger_ok (wdb w)"
    and run: "GetTransactionByIdempotencyKey env key w = (Inr res, w')"
  shows "\<exists>row. stored (wdb w') row res \<and> tr_idempotency_key row = key"
proof -
  let ?D = "others env (tick w) (wdb w)"
  let ?w1 = "w\<lparr>tick := tick w + 1, wdb := ?D\<rparr>"
  obtain row rows es where q: "sql_transaction_by_key key ?D = row # rows" "wdb ?w1 = ?D"
    "listEntries env (tr_id row) ?w1 = (Inr es, w')" "res = ((scanTransaction row)\<lparr>tEntries := es\<rparr>, es)"
    using run by (auto simp: GetTransactionByIdempotencyKey_def run_simps pool_query_Inr firstRow_def Let_def
        scanTransaction_def split: list.splits)
  then have "row \<in> set (transactions ?D)" "tr_idempotency_key row = key"
    by (auto simp: sql_transaction_by_key_def filter_eq_Cons_iff)
  with stored_read [OF env relyD(1) [OF env_okD(1) [OF env] L] this(1) q(2,3)] q(4) show ?thesis by blast
qed

lemma GetTransaction_found:
  assumes env: "env_ok env" and L: "ledger_ok (wdb w)" and run: "GetTransaction env i w = (Inr res, w')"
  shows "\<exists>row. stored (wdb w') row res \<and> tr_id row = i"
proof -
  let ?D = "others env (tick w) (wdb w)"
  let ?w1 = "w\<lparr>tick := tick w + 1, wdb := ?D\<rparr>"
  obtain row rows es where q: "sql_transaction i ?D = row # rows" "wdb ?w1 = ?D"
    "listEntries env (tr_id row) ?w1 = (Inr es, w')" "res = ((scanTransaction row)\<lparr>tEntries := es\<rparr>, es)"
    using run by (auto simp: GetTransaction_def run_simps pool_query_Inr firstRow_def Let_def
        scanTransaction_def split: list.splits)
  then have "row \<in> set (transactions ?D)" "tr_id row = i"
    by (auto simp: sql_transaction_def filter_eq_Cons_iff)
  with stored_read [OF env relyD(1) [OF env_okD(1) [OF env] L] this(1) q(2,3)] q(4) show ?thesis by blast
qed

subsection \<open>The contract holds\<close>

lemma env_alone_ok: "env_alone env \<Longrightarrow> env_ok env"
  by (simp add: env_alone_def)

lemma books_kept_add_audit: "books_kept D (add_audit a D)"
  by (auto simp: books_kept_def add_audit_def)

interpretation pg: storer env_ok rely Store_Storer
proof unfold_locales
  fix env amount "from" to swapped b a txn check ins msg r
  fix w w' :: world
  assume "env_ok env" "ledger_ok (wdb w)" "money_like amount" "(from, to) = (if swapped then (b, a) else (a, b))"
    "txn_ready txn from to (units amount) (wdb w)" "check \<or> from = ExternalAccountID"
    "ins = st_InsertTransaction (Store_Storer env) \<or> ins = st_InsertReversalTransaction (Store_Storer env)"
    "st_WithTx (Store_Storer env) (posting_tx (Store_Storer env) msg a b swapped check ins amount txn) w = (r, w')"
  then show "posting_outcome rely txn from to amount (wdb w) r (wdb w')"
    by (intro ir.WithTx_posting) auto
qed (simp_all add: ir.GetTransaction_keeps ir.WriteAudit_keeps rely_add_audit
    GetTransactionByIdempotencyKey_found GetTransaction_found)

interpretation solo: storer env_alone books_kept Store_Storer
proof unfold_locales
  fix env amount "from" to swapped b a txn check ins msg r
  fix w w' :: world
  assume "env_alone env" "ledger_ok (wdb w)" "money_like amount" "(from, to) = (if swapped then (b, a) else (a, b))"
    "txn_ready txn from to (units amount) (wdb w)" "check \<or> from = ExternalAccountID"
    "ins = st_InsertTransaction (Store_Storer env) \<or> ins = st_InsertReversalTransaction (Store_Storer env)"
    "st_WithTx (Store_Storer env) (posting_tx (Store_Storer env) msg a b swapped check ins amount txn) w = (r, w')"
  then show "posting_outcome books_kept txn from to amount (wdb w) r (wdb w')"
    by (intro ib.WithTx_posting) (auto simp: env_alone_def intro: books_kept_rely)
qed (simp_all add: ib.GetTransaction_keeps ib.WriteAudit_keeps books_kept_add_audit books_kept_rely
    GetTransactionByIdempotencyKey_found [OF env_alone_ok] GetTransaction_found [OF env_alone_ok])

end
