(* ===== verification/Handlers.thy ===== *)
theory Handlers
  imports Store_Contract
begin

text \<open>
  \<^verbatim>\<open>internal/httpapi/handlers.go\<close>: the nine routes, handler by handler, over the service and the store.
  A request is what the handlers read of it: method, path segments, headers, query parameters and the
  JSON value the body starts with. A response is its status and the value that is encoded. The
  handlers' \<^verbatim>\<open>queryer\<close> is the PostgreSQL store. A run that ends in \<open>Inl\<close> is a handler that panicked; the
  server then drops the connection.
\<close>

subsection \<open>Requests, JSON bodies, responses\<close>

text \<open>
  JSON values. Numbers, strings, arrays and objects carry their text, which is what \<^verbatim>\<open>UnmarshalJSON\<close>
  is given; strings also carry their decoded bytes.
\<close>

datatype json =
    JNull
  | JBool bool
  | JNumber string
  | JString string string
  | JArray string
  | JObject string "(string \<times> json) list"

fun json_text :: "json \<Rightarrow> string" where
  "json_text JNull = ''null''"
| "json_text (JBool b) = (if b then ''true'' else ''false'')"
| "json_text (JNumber t) = t"
| "json_text (JString t s) = t"
| "json_text (JArray t) = t"
| "json_text (JObject t fs) = t"

record request =
  r_method :: string
  r_path :: "string list"
  r_headers :: "(string \<times> string) list"
  r_query :: "(string \<times> string) list"
  r_body :: "json option"

datatype payload =
    PAccounts "Account list"
  | PAccount Account
  | PTransaction Transaction
  | PTransactions "Transaction list"
  | PAudit "AuditEntry list"
  | PError string string
  | PErrorCode string
  | PNone

record response =
  status :: int
  payload :: payload

text \<open>\<^verbatim>\<open>Header.Get\<close> and \<^verbatim>\<open>Query().Get\<close>: the first value, or the empty text.\<close>

definition get_value :: "string \<Rightarrow> (string \<times> string) list \<Rightarrow> string" where
  "get_value k kvs = (case map_of kvs k of None \<Rightarrow> [] | Some v \<Rightarrow> v)"

definition writeJSON :: "int \<Rightarrow> payload \<Rightarrow> response" where
  "writeJSON st v = \<lparr>status = st, payload = v\<rparr>"

definition writeError :: "int \<Rightarrow> string \<Rightarrow> string \<Rightarrow> response" where
  "writeError st code message = writeJSON st (PError code message)"

definition internalError :: "gerror \<Rightarrow> response" where
  "internalError err = writeError 500 ''internal_error'' ''an internal error occurred''"

definition mapError :: "gerror \<Rightarrow> response" where
  "mapError err =
     (if errors_Is err ErrAccountNotFound \<or> errors_Is err ErrTransactionNotFound
      then writeError 404 ''not_found'' (err_msg err)
      else if errors_Is err ErrAlreadyReversed \<or> errors_Is err ErrIdempotencyConflict
      then writeError 409 ''conflict'' (err_msg err)
      else if errors_Is err ErrInsufficientFunds \<or> errors_Is err ErrNotReversible \<or>
        errors_Is err ErrSelfTransfer \<or> errors_Is err ErrSystemAccount \<or> errors_Is err ErrInvalidAmount
      then writeError 422 ''unprocessable'' (err_msg err)
      else internalError err)"

text \<open>\<^verbatim>\<open>parseUUID\<close> and \<^verbatim>\<open>parseUUIDField\<close>: the response written on failure, or the id.\<close>

definition parseUUID :: "string \<Rightarrow> response + UUID" where
  "parseUUID s =
     (case UUID_Parse s of
        Inl _ \<Rightarrow> Inl (writeError 400 ''bad_request'' ''invalid UUID in path'')
      | Inr i \<Rightarrow> Inr i)"

definition parseUUIDField :: "string \<Rightarrow> string \<Rightarrow> response + UUID" where
  "parseUUIDField s field =
     (if s = [] then Inl (writeError 400 ''bad_request'' (field @ '' is required''))
      else case UUID_Parse s of
             Inl _ \<Rightarrow> Inl (writeError 400 ''bad_request'' (field @ '' is not a valid UUID''))
           | Inr i \<Rightarrow> Inr i)"

definition parseLimit :: "request \<Rightarrow> int \<Rightarrow> int \<Rightarrow> int" where
  "parseLimit r defaultVal cap =
     (let raw = get_value ''limit'' (r_query r) in
      if raw = [] then defaultVal
      else case Atoi raw of
             Inl _ \<Rightarrow> defaultVal
           | Inr n \<Rightarrow> if n \<le> 0 then defaultVal else if n > cap then cap else n)"

text \<open>\<^verbatim>\<open>uuid.New\<close> panics when the random source fails.\<close>

definition panicM :: "'a M" where
  "panicM = throwM (DriverError ''panic'')"

definition NewM :: "env \<Rightarrow> UUID M" where
  "NewM env = (\<lambda>w.
     case UUID_New (random env (tick w)) of
       None \<Rightarrow> panicM (w\<lparr>tick := tick w + 1\<rparr>)
     | Some u \<Rightarrow> (Inr u, w\<lparr>tick := tick w + 1\<rparr>))"

definition resolveRequestID :: "env \<Rightarrow> request \<Rightarrow> string M" where
  "resolveRequestID env r =
     (let i = get_value ''X-Request-ID'' (r_headers r) in
      if i \<noteq> [] then returnM i
      else bindM (tryM (NewV7 env)) (\<lambda>res.
        case res of
          Inl _ \<Rightarrow> bindM (NewM env) (\<lambda>u. returnM (UUID_String u))
        | Inr u \<Rightarrow> returnM (UUID_String u)))"

subsection \<open>Decoding a body into a struct\<close>

text \<open>
  \<^verbatim>\<open>encoding/json\<close>: a key names the field it equals, or else the first field it equals up to case
  (Unicode folding: the long s and the Kelvin sign fold to ASCII letters). A later key overwrites an earlier one. Null leaves a
  string field as it is and is passed to \<^verbatim>\<open>UnmarshalJSON\<close>; any other mismatch is an error.
\<close>

fun fold_name :: "string \<Rightarrow> string" where
  "fold_name (a # b # c # cs) =
     (if a = CHR 0xC5 \<and> b = CHR 0xBF then CHR ''s'' # fold_name (c # cs)
      else if a = CHR 0xE2 \<and> b = CHR 0x84 \<and> c = CHR 0xAA then CHR ''k'' # fold_name cs
      else ascii_lower a # fold_name (b # c # cs))"
| "fold_name [a, b] = (if a = CHR 0xC5 \<and> b = CHR 0xBF then ''s'' else [ascii_lower a, ascii_lower b])"
| "fold_name [a] = [ascii_lower a]"
| "fold_name [] = []"

definition names_field :: "string \<Rightarrow> string \<Rightarrow> bool" where
  "names_field key field \<longleftrightarrow> key = field \<or> fold_name key = fold_name field"

definition decode_string :: "json \<Rightarrow> string \<Rightarrow> string option" where
  "decode_string v old =
     (case v of JString t s \<Rightarrow> Some s | JNull \<Rightarrow> Some old | _ \<Rightarrow> None)"

definition decode_money :: "json \<Rightarrow> Money option" where
  "decode_money v = (case Money_UnmarshalJSON (json_text v) of Inl _ \<Rightarrow> None | Inr m \<Rightarrow> Some m)"

record transfer_body =
  SrcID :: string
  DstID :: string
  Amount :: Money

definition transfer_body_zero :: transfer_body where
  "transfer_body_zero = \<lparr>SrcID = [], DstID = [], Amount = Money_zero_value\<rparr>"

text \<open>The fields of the body, with the \<^verbatim>\<open>json\<close> tags present: all three for a transfer, two for a deposit.\<close>

definition set_field :: "string list \<Rightarrow> string \<times> json \<Rightarrow> transfer_body \<Rightarrow> transfer_body option" where
  "set_field tags kv b =
     (case kv of (k, v) \<Rightarrow>
        (case find (names_field k) tags of
           None \<Rightarrow> Some b
         | Some f \<Rightarrow>
             if f = ''src_account_id'' then map_option (\<lambda>s. b\<lparr>SrcID := s\<rparr>) (decode_string v (SrcID b))
             else if f = ''dst_account_id'' then map_option (\<lambda>s. b\<lparr>DstID := s\<rparr>) (decode_string v (DstID b))
             else map_option (\<lambda>m. b\<lparr>Amount := m\<rparr>) (decode_money v)))"

fun set_fields :: "string list \<Rightarrow> (string \<times> json) list \<Rightarrow> transfer_body \<Rightarrow> transfer_body option" where
  "set_fields tags [] b = Some b"
| "set_fields tags (kv # kvs) b = Option.bind (set_field tags kv b) (set_fields tags kvs)"

definition decode_body :: "string list \<Rightarrow> json option \<Rightarrow> transfer_body option" where
  "decode_body tags body =
     (case body of
        Some (JObject t fs) \<Rightarrow> set_fields tags fs transfer_body_zero
      | Some JNull \<Rightarrow> Some transfer_body_zero
      | _ \<Rightarrow> None)"

fun set_name :: "(string \<times> json) list \<Rightarrow> string \<Rightarrow> string option" where
  "set_name [] n = Some n"
| "set_name ((k, v) # kvs) n =
     (if names_field k ''name'' then Option.bind (decode_string v n) (set_name kvs) else set_name kvs n)"

definition decode_name :: "json option \<Rightarrow> string option" where
  "decode_name body =
     (case body of Some (JObject t fs) \<Rightarrow> set_name fs [] | Some JNull \<Rightarrow> Some [] | _ \<Rightarrow> None)"

subsection \<open>Handlers\<close>

definition listAccounts :: "env \<Rightarrow> request \<Rightarrow> response M" where
  "listAccounts env r =
     bindM (tryM (ListAccounts env)) (\<lambda>res. returnM
       (case res of Inl err \<Rightarrow> internalError err | Inr as \<Rightarrow> writeJSON 200 (PAccounts as)))"

definition createAccount :: "env \<Rightarrow> request \<Rightarrow> response M" where
  "createAccount env r =
     (case decode_name (r_body r) of
        None \<Rightarrow> returnM (writeError 400 ''bad_request'' ''invalid JSON body'')
      | Some name \<Rightarrow>
          if name = [] then returnM (writeError 400 ''validation_error'' ''name is required'')
          else bindM (tryM (CreateAccount env name)) (\<lambda>res. returnM
            (case res of Inl err \<Rightarrow> internalError err | Inr a \<Rightarrow> writeJSON 201 (PAccount a))))"

definition getAccount :: "env \<Rightarrow> string \<Rightarrow> request \<Rightarrow> response M" where
  "getAccount env i r =
     (case parseUUID i of
        Inl resp \<Rightarrow> returnM resp
      | Inr u \<Rightarrow>
          bindM (tryM (GetAccount env u)) (\<lambda>res. returnM
            (case res of Inl err \<Rightarrow> mapError err | Inr a \<Rightarrow> writeJSON 200 (PAccount a))))"

definition createTransfer :: "env \<Rightarrow> Storer \<Rightarrow> request \<Rightarrow> response M" where
  "createTransfer env S r =
     (let idemKey = get_value ''Idempotency-Key'' (r_headers r) in
      if idemKey = []
      then returnM (writeError 400 ''missing_idempotency_key'' ''Idempotency-Key header is required'')
      else bindM (resolveRequestID env r) (\<lambda>requestID.
        case decode_body [''src_account_id'', ''dst_account_id'', ''amount''] (r_body r) of
          None \<Rightarrow> returnM (writeError 400 ''bad_request'' ''invalid JSON body'')
        | Some body \<Rightarrow>
            (case parseUUIDField (SrcID body) ''src_account_id'' of
               Inl resp \<Rightarrow> returnM resp
             | Inr srcID \<Rightarrow>
                 (case parseUUIDField (DstID body) ''dst_account_id'' of
                    Inl resp \<Rightarrow> returnM resp
                  | Inr dstID \<Rightarrow>
                      bindM (tryM (Transfer env S srcID dstID (Amount body) idemKey requestID)) (\<lambda>res. returnM
                        (case res of Inl err \<Rightarrow> mapError err
                         | Inr (txn, _) \<Rightarrow> writeJSON 201 (PTransaction txn)))))))"

definition reverseTransfer :: "env \<Rightarrow> Storer \<Rightarrow> string \<Rightarrow> request \<Rightarrow> response M" where
  "reverseTransfer env S i r =
     (let idemKey = get_value ''Idempotency-Key'' (r_headers r) in
      if idemKey = []
      then returnM (writeError 400 ''missing_idempotency_key'' ''Idempotency-Key header is required'')
      else bindM (resolveRequestID env r) (\<lambda>requestID.
        case parseUUID i of
          Inl resp \<Rightarrow> returnM resp
        | Inr originalID \<Rightarrow>
            bindM (tryM (Reverse env S originalID idemKey requestID)) (\<lambda>res. returnM
              (case res of Inl err \<Rightarrow> mapError err
               | Inr (txn, _) \<Rightarrow> writeJSON 201 (PTransaction txn)))))"

definition createDeposit :: "env \<Rightarrow> Storer \<Rightarrow> request \<Rightarrow> response M" where
  "createDeposit env S r =
     (let idemKey = get_value ''Idempotency-Key'' (r_headers r) in
      if idemKey = []
      then returnM (writeError 400 ''missing_idempotency_key'' ''Idempotency-Key header is required'')
      else bindM (resolveRequestID env r) (\<lambda>requestID.
        case decode_body [''dst_account_id'', ''amount''] (r_body r) of
          None \<Rightarrow> returnM (writeError 400 ''bad_request'' ''invalid JSON body'')
        | Some body \<Rightarrow>
            (case parseUUIDField (DstID body) ''dst_account_id'' of
               Inl resp \<Rightarrow> returnM resp
             | Inr dstID \<Rightarrow>
                 bindM (tryM (Deposit env S dstID (Amount body) idemKey requestID)) (\<lambda>res. returnM
                   (case res of Inl err \<Rightarrow> mapError err
                    | Inr (txn, _) \<Rightarrow> writeJSON 201 (PTransaction txn))))))"

definition listTransactions :: "env \<Rightarrow> string \<Rightarrow> request \<Rightarrow> response M" where
  "listTransactions env i r =
     (case parseUUID i of
        Inl resp \<Rightarrow> returnM resp
      | Inr u \<Rightarrow>
          bindM (tryM (ListTransactionsForAccount env u (parseLimit r 50 200))) (\<lambda>res. returnM
            (case res of Inl err \<Rightarrow> internalError err | Inr ts \<Rightarrow> writeJSON 200 (PTransactions ts))))"

definition validKinds :: "string list" where
  "validKinds = [''TRANSFER'', ''REVERSAL'', ''DEPOSIT'', ''WITHDRAWAL'']"

definition parseOffset :: "request \<Rightarrow> int" where
  "parseOffset r =
     (let raw = get_value ''offset'' (r_query r) in
      if raw = [] then 0
      else case Atoi raw of Inl _ \<Rightarrow> 0 | Inr n \<Rightarrow> if n > 0 then n else 0)"

definition listAllTransactions :: "env \<Rightarrow> request \<Rightarrow> response M" where
  "listAllTransactions env r =
     (let limit = parseLimit r 50 200; offset = parseOffset r;
          k = get_value ''kind'' (r_query r)
      in if k \<noteq> [] \<and> k \<notin> set validKinds then returnM (writeJSON 400 (PErrorCode ''invalid_kind''))
         else bindM (tryM (ListTransactions env \<lparr>Limit = limit, Offset = offset,
             Kind = (if k \<noteq> [] then Some k else None)\<rparr>)) (\<lambda>res. returnM
           (case res of Inl err \<Rightarrow> internalError err | Inr ts \<Rightarrow> writeJSON 200 (PTransactions ts))))"

definition listAudit :: "env \<Rightarrow> string \<Rightarrow> request \<Rightarrow> response M" where
  "listAudit env i r =
     (case parseUUID i of
        Inl resp \<Rightarrow> returnM resp
      | Inr u \<Rightarrow>
          bindM (tryM (ListAuditForAccount env u (parseLimit r 50 200))) (\<lambda>res. returnM
            (case res of Inl err \<Rightarrow> internalError err | Inr es \<Rightarrow> writeJSON 200 (PAudit es))))"

text \<open>
  \<^verbatim>\<open>RegisterRoutes\<close> with \<^verbatim>\<open>http.ServeMux\<close>: the handler of the route whose pattern matches the path
  and the method; a GET pattern also takes HEAD. A path of the API with another method gets 405,
  any other path 404.
\<close>

datatype route =
    ListAccountsR | CreateAccountR | GetAccountR string | TransferR | ReverseR string | DepositR
  | ListTransactionsR string | AuditR string | AllTransactionsR

definition is_get :: "string \<Rightarrow> bool" where
  "is_get m \<longleftrightarrow> m = ''GET'' \<or> m = ''HEAD''"

definition RegisterRoutes :: "string \<Rightarrow> string list \<Rightarrow> int + route" where
  "RegisterRoutes m path =
     (if path = [''api'', ''accounts''] then
        (if is_get m then Inr ListAccountsR else if m = ''POST'' then Inr CreateAccountR else Inl 405)
      else if path = [''api'', ''transfers''] then (if m = ''POST'' then Inr TransferR else Inl 405)
      else if path = [''api'', ''deposits''] then (if m = ''POST'' then Inr DepositR else Inl 405)
      else if path = [''api'', ''transactions''] then (if is_get m then Inr AllTransactionsR else Inl 405)
      else case path of
             [a, b, i] \<Rightarrow>
               if a = ''api'' \<and> b = ''accounts'' \<and> i \<noteq> []
               then (if is_get m then Inr (GetAccountR i) else Inl 405) else Inl 404
           | [a, b, i, c] \<Rightarrow>
               if a = ''api'' \<and> b = ''accounts'' \<and> i \<noteq> [] \<and> c = ''transactions''
               then (if is_get m then Inr (ListTransactionsR i) else Inl 405)
               else if a = ''api'' \<and> b = ''accounts'' \<and> i \<noteq> [] \<and> c = ''audit''
               then (if is_get m then Inr (AuditR i) else Inl 405)
               else if a = ''api'' \<and> b = ''transfers'' \<and> i \<noteq> [] \<and> c = ''reverse''
               then (if m = ''POST'' then Inr (ReverseR i) else Inl 405)
               else Inl 404
           | _ \<Rightarrow> Inl 404)"

definition serve :: "env \<Rightarrow> request \<Rightarrow> response M" where
  "serve env r =
     (let S = Store_Storer env in
      case RegisterRoutes (r_method r) (r_path r) of
        Inl st \<Rightarrow> returnM (writeJSON st PNone)
      | Inr ListAccountsR \<Rightarrow> listAccounts env r
      | Inr CreateAccountR \<Rightarrow> createAccount env r
      | Inr (GetAccountR i) \<Rightarrow> getAccount env i r
      | Inr TransferR \<Rightarrow> createTransfer env S r
      | Inr (ReverseR i) \<Rightarrow> reverseTransfer env S i r
      | Inr DepositR \<Rightarrow> createDeposit env S r
      | Inr (ListTransactionsR i) \<Rightarrow> listTransactions env i r
      | Inr (AuditR i) \<Rightarrow> listAudit env i r
      | Inr AllTransactionsR \<Rightarrow> listAllTransactions env r)"

text \<open>The requests the server handles one after the other, each with its response.\<close>

fun serve_all :: "env \<Rightarrow> request list \<Rightarrow> world \<Rightarrow> (gerror + response) list \<times> world" where
  "serve_all env [] w = ([], w)"
| "serve_all env (r # rs) w =
     (case serve env r w of (resp, w1) \<Rightarrow> case serve_all env rs w1 of (resps, w2) \<Rightarrow> (resp # resps, w2))"

subsection \<open>What requests keep\<close>

lemma decode_money_ok: "decode_money v = Some m \<Longrightarrow> money_ok m"
  by (auto simp: decode_money_def intro: Money_UnmarshalJSON_ok split: sum.splits)

lemma set_field_like: "set_field tags kv b = Some b' \<Longrightarrow> money_like (Amount b) \<Longrightarrow> money_like (Amount b')"
  by (auto simp: set_field_def dest!: decode_money_ok split: prod.splits option.splits if_splits)

lemma set_fields_like: "set_fields tags kvs b = Some b' \<Longrightarrow> money_like (Amount b) \<Longrightarrow> money_like (Amount b')"
  by (induction kvs arbitrary: b) (auto simp: bind_eq_Some_conv dest: set_field_like)

lemma decode_body_like: "decode_body tags body = Some b \<Longrightarrow> money_like (Amount b)"
proof -
  have "money_like (Amount transfer_body_zero)" by (simp add: transfer_body_zero_def money_like_def)
  then show "decode_body tags body = Some b \<Longrightarrow> money_like (Amount b)"
    by (auto simp: decode_body_def dest: set_fields_like split: option.splits json.splits)
qed

lemma op_keeps:
  assumes "\<And>w r w'. ledger_ok (wdb w) \<Longrightarrow> m w = (r, w') \<Longrightarrow> rely (wdb w) (wdb w')"
  shows "keeps (lift_db rely) m"
  unfolding keeps_def lift_db_def
proof
  fix w
  obtain r w' where "m w = (r, w')" by fastforce
  with assms show "rely (wdb w) (wdb (snd (m w)))"
    by (cases "ledger_ok (wdb w)") (auto simp: rely_def)
qed

lemma service_keeps:
  assumes env: "env_ok env"
  shows "money_like amount \<Longrightarrow> keeps (lift_db rely) (Transfer env (Store_Storer env) s d amount key rid)"
    "money_like amount \<Longrightarrow> keeps (lift_db rely) (Deposit env (Store_Storer env) d amount key rid)"
    "keeps (lift_db rely) (Reverse env (Store_Storer env) i key rid)"
proof -
  show "keeps (lift_db rely) (Transfer env (Store_Storer env) s d amount key rid)" if "money_like amount"
    by (rule op_keeps) (use pg.Transfer_outcome [OF env _ that] op_outcome_rely in blast)
  show "keeps (lift_db rely) (Deposit env (Store_Storer env) d amount key rid)" if "money_like amount"
    by (rule op_keeps) (use pg.Deposit_outcome [OF env _ that] op_outcome_rely in blast)
  show "keeps (lift_db rely) (Reverse env (Store_Storer env) i key rid)"
    by (rule op_keeps) (use pg.Reverse_outcome [OF env] op_outcome_rely in blast)
qed

lemma NewM_keeps: "keeps (lift_db rely) (NewM env)"
  by (auto simp: keeps_def lift_db_def NewM_def panicM_def throwM_def split: option.splits)

lemma resolveRequestID_keeps: "keeps (lift_db rely) (resolveRequestID env r)"
proof -
  have "keeps (lift_db rely) (case res of Inl _ \<Rightarrow> bindM (NewM env) (\<lambda>u. returnM (UUID_String u))
      | Inr u \<Rightarrow> returnM (UUID_String u))" for res :: "gerror + UUID"
    by (cases res) (auto intro!: ir.keeps_intros NewM_keeps)
  then show ?thesis
    unfolding resolveRequestID_def Let_def by (auto intro!: ir.keeps_intros ir.keeps_NewV7)
qed

lemma CreateAccount_rely: "env_ok env \<Longrightarrow> keeps (lift_db rely) (CreateAccount env name)"
  by (rule ir.CreateAccount_keeps) (auto intro!: rely_add_account simp: new_account_ok_def)

lemma reads_keep:
  assumes "env_ok env"
  shows "keeps (lift_db rely) (listAccounts env r)" "keeps (lift_db rely) (getAccount env i r)"
    "keeps (lift_db rely) (listTransactions env i r)" "keeps (lift_db rely) (listAllTransactions env r)"
    "keeps (lift_db rely) (listAudit env i r)"
  unfolding listAccounts_def getAccount_def listTransactions_def listAllTransactions_def listAudit_def Let_def
  by (auto intro!: ir.keeps_intros ir.query_keeps [OF assms] split: sum.splits)

lemma writes_keep:
  assumes env: "env_ok env"
  shows "keeps (lift_db rely) (createAccount env r)"
    "keeps (lift_db rely) (createTransfer env (Store_Storer env) r)"
    "keeps (lift_db rely) (reverseTransfer env (Store_Storer env) i r)"
    "keeps (lift_db rely) (createDeposit env (Store_Storer env) r)"
proof -
  note ks = ir.keeps_intros CreateAccount_rely [OF env] resolveRequestID_keeps service_keeps [OF env]
  show "keeps (lift_db rely) (createAccount env r)"
    unfolding createAccount_def by (auto intro!: ks split: option.splits)
  show "keeps (lift_db rely) (reverseTransfer env (Store_Storer env) i r)"
    unfolding reverseTransfer_def Let_def by (auto intro!: ks split: sum.splits)
  show "keeps (lift_db rely) (createTransfer env (Store_Storer env) r)"
    unfolding createTransfer_def Let_def
    by (auto intro!: ks decode_body_like split: option.splits sum.splits)
  show "keeps (lift_db rely) (createDeposit env (Store_Storer env) r)"
    unfolding createDeposit_def Let_def
    by (auto intro!: ks decode_body_like split: option.splits sum.splits)
qed

lemma serve_keeps: "env_ok env \<Longrightarrow> keeps (lift_db rely) (serve env r)"
  unfolding serve_def Let_def
  by (auto intro!: ir.keeps_pure reads_keep writes_keep split: sum.splits route.splits)

lemma serve_all_keeps: "env_ok env \<Longrightarrow> serve_all env rs w = (resps, w') \<Longrightarrow> rely (wdb w) (wdb w')"
proof (induction rs arbitrary: w resps w')
  case (Cons r rs)
  obtain resp w1 where s: "serve env r w = (resp, w1)" by fastforce
  obtain resps' w2 where t: "serve_all env rs w1 = (resps', w2)" by fastforce
  have "rely (wdb w) (wdb w1)"
    using keepsD [OF serve_keeps [OF Cons.prems(1)] s] by (simp add: lift_db_def)
  with Cons.IH [OF Cons.prems(1) t] Cons.prems(2) s t show ?case by (auto intro: rely_trans)
qed simp

end
