(* ===== verification/Migrations.thy ===== *)
theory Migrations
  imports Ledger
begin

text \<open>
  The SQL files of \<^verbatim>\<open>migrations/\<close> as functions on the database, statement by statement: the schema
  (empty tables), the EXTERNAL account, the three demo accounts with their opening deposits, and the
  down migrations of the two seeds. \<open>now\<close> is the value of \<^verbatim>\<open>now()\<close>, \<open>seq\<close> the next value of the sequence
  of \<^verbatim>\<open>entries.id\<close>. The lemmas: the seeded database is a correct ledger, and running a seed twice
  changes nothing.
\<close>

subsection \<open>Identifiers\<close>

definition uuid_lit :: "string \<Rightarrow> UUID" where
  "uuid_lit s = the (UUID_MustParse s)"

definition external_id :: UUID where "external_id = uuid_lit ''00000000-0000-0000-0000-000000000001''"
definition alice_id :: UUID where "alice_id = uuid_lit ''00000000-0000-0000-0000-000000000002''"
definition bob_id :: UUID where "bob_id = uuid_lit ''00000000-0000-0000-0000-000000000003''"
definition charlie_id :: UUID where "charlie_id = uuid_lit ''00000000-0000-0000-0000-000000000004''"
definition seed_tx1 :: UUID where "seed_tx1 = uuid_lit ''01900000-0000-7000-8000-000000000001''"
definition seed_tx2 :: UUID where "seed_tx2 = uuid_lit ''01900000-0000-7000-8000-000000000002''"
definition seed_tx3 :: UUID where "seed_tx3 = uuid_lit ''01900000-0000-7000-8000-000000000003''"

lemma seed_ids:
  "external_id = [0, 0, 0, 0, 0, 0, 0, 0, 0, 0, 0, 0, 0, 0, 0, 1]"
  "alice_id = [0, 0, 0, 0, 0, 0, 0, 0, 0, 0, 0, 0, 0, 0, 0, 2]"
  "bob_id = [0, 0, 0, 0, 0, 0, 0, 0, 0, 0, 0, 0, 0, 0, 0, 3]"
  "charlie_id = [0, 0, 0, 0, 0, 0, 0, 0, 0, 0, 0, 0, 0, 0, 0, 4]"
  "seed_tx1 = [1, 0x90, 0, 0, 0, 0, 0x70, 0, 0x80, 0, 0, 0, 0, 0, 0, 1]"
  "seed_tx2 = [1, 0x90, 0, 0, 0, 0, 0x70, 0, 0x80, 0, 0, 0, 0, 0, 0, 2]"
  "seed_tx3 = [1, 0x90, 0, 0, 0, 0, 0x70, 0, 0x80, 0, 0, 0, 0, 0, 0, 3]"
  by (simp_all add: external_id_def alice_id_def bob_id_def charlie_id_def seed_tx1_def seed_tx2_def
      seed_tx3_def uuid_lit_def go_eval)

lemma seed_ids_distinct:
  "distinct [external_id, alice_id, bob_id, charlie_id]" "distinct [charlie_id, bob_id, alice_id, external_id]"
  "distinct [seed_tx1, seed_tx2, seed_tx3]" "distinct [seed_tx3, seed_tx2, seed_tx1]"
  by (simp_all add: seed_ids)

lemmas seed_neq = seed_ids_distinct [simplified]

subsection \<open>Statements\<close>

text \<open>\<^verbatim>\<open>INSERT ... ON CONFLICT DO NOTHING\<close>, row by row.\<close>

definition insert_account :: "timestamp \<Rightarrow> UUID \<Rightarrow> string \<Rightarrow> bool \<Rightarrow> int \<Rightarrow> db \<Rightarrow> db" where
  "insert_account now i name sys bal D =
     (if i \<in> ar_id ` set (accounts D) then D
      else D\<lparr>accounts := accounts D @ [\<lparr>ar_id = i, ar_name = name, ar_balance = bal, ar_is_system = sys,
             ar_created_at = now, ar_updated_at = now\<rparr>]\<rparr>)"

definition insert_transaction :: "timestamp \<Rightarrow> UUID \<Rightarrow> string \<Rightarrow> string \<Rightarrow> db \<Rightarrow> db" where
  "insert_transaction now i kind key D =
     (if i \<in> tr_id ` set (transactions D) \<or> key \<in> tr_idempotency_key ` set (transactions D) then D
      else D\<lparr>transactions := transactions D @ [\<lparr>tr_id = i, tr_kind = kind, tr_idempotency_key = key,
             tr_reverses_transaction_id = None, tr_created_at = now\<rparr>]\<rparr>)"

text \<open>\<^verbatim>\<open>INSERT INTO entries ... SELECT ... WHERE NOT EXISTS\<close>.\<close>

definition insert_seed_entry :: "timestamp \<Rightarrow> int \<Rightarrow> UUID \<Rightarrow> UUID \<Rightarrow> string \<Rightarrow> int \<Rightarrow> db \<Rightarrow> db" where
  "insert_seed_entry now i t a dir amt D =
     (if \<exists>e\<in>set (entries D). er_transaction_id e = t \<and> er_account_id e = a \<and> er_direction e = dir then D
      else D\<lparr>entries := entries D @ [\<lparr>er_id = i, er_transaction_id = t, er_account_id = a,
             er_direction = dir, er_amount = amt, er_created_at = now\<rparr>]\<rparr>)"

subsection \<open>The migrations\<close>

definition init_up :: db where
  "init_up = \<lparr>accounts = [], transactions = [], entries = [], audit_log = []\<rparr>"

definition seed_system_account_up :: "timestamp \<Rightarrow> db \<Rightarrow> db" where
  "seed_system_account_up now D = insert_account now external_id ''EXTERNAL'' True 0 D"

definition set_external_balance :: "timestamp \<Rightarrow> int \<Rightarrow> db \<Rightarrow> db" where
  "set_external_balance now u D = D\<lparr>accounts := map (set_balance external_id u now) (accounts D)\<rparr>"

text \<open>The guarded UPDATE of the EXTERNAL balance.\<close>

definition charge_external :: "timestamp \<Rightarrow> db \<Rightarrow> db" where
  "charge_external now D =
     (if ''seed-deposit-alice-001'' \<in> tr_idempotency_key ` set (transactions D) then D
      else set_external_balance now (-300000000) D)"

definition seed_demo_accounts_up :: "timestamp \<Rightarrow> int \<Rightarrow> db \<Rightarrow> db" where
  "seed_demo_accounts_up now seq D =
     insert_seed_entry now (seq + 5) seed_tx3 charlie_id ''CREDIT'' 100000000
     (insert_seed_entry now (seq + 4) seed_tx3 external_id ''DEBIT'' 100000000
     (insert_seed_entry now (seq + 3) seed_tx2 bob_id ''CREDIT'' 100000000
     (insert_seed_entry now (seq + 2) seed_tx2 external_id ''DEBIT'' 100000000
     (insert_seed_entry now (seq + 1) seed_tx1 alice_id ''CREDIT'' 100000000
     (insert_seed_entry now seq seed_tx1 external_id ''DEBIT'' 100000000
     (insert_transaction now seed_tx3 ''DEPOSIT'' ''seed-deposit-charlie-001''
     (insert_transaction now seed_tx2 ''DEPOSIT'' ''seed-deposit-bob-001''
     (insert_transaction now seed_tx1 ''DEPOSIT'' ''seed-deposit-alice-001''
     (charge_external now
     (insert_account now charlie_id ''Charlie'' False 100000000
     (insert_account now bob_id ''Bob'' False 100000000
     (insert_account now alice_id ''Alice'' False 100000000 D))))))))))))"

text \<open>
  The down migrations. A DELETE is refused while a row that stays refers to one that goes. The
  statements of a file are sent as one query, so that a refused one undoes those before it.
\<close>

definition fk_restrict :: "string \<Rightarrow> gerror" where
  "fk_restrict name =
     pg_err ''23503'' (''update or delete violates foreign key constraint '' @ name) [] name"

definition delete_entries :: "(entry_row \<Rightarrow> bool) \<Rightarrow> db \<Rightarrow> db" where
  "delete_entries p D = D\<lparr>entries := filter (\<lambda>e. \<not> p e) (entries D)\<rparr>"

definition delete_transactions :: "(transaction_row \<Rightarrow> bool) \<Rightarrow> db \<Rightarrow> gerror + db" where
  "delete_transactions p D =
     (let gone = tr_id ` set (filter p (transactions D)); kept = filter (\<lambda>t. \<not> p t) (transactions D) in
      if \<exists>e\<in>set (entries D). er_transaction_id e \<in> gone
      then Inl (fk_restrict ''entries_transaction_id_fkey'')
      else if \<exists>t\<in>set kept. tr_reverses_transaction_id t \<in> Some ` gone
      then Inl (fk_restrict ''transactions_reverses_transaction_id_fkey'')
      else Inr (D\<lparr>transactions := kept\<rparr>))"

definition delete_accounts :: "(account_row \<Rightarrow> bool) \<Rightarrow> db \<Rightarrow> gerror + db" where
  "delete_accounts p D =
     (if \<exists>e\<in>set (entries D). er_account_id e \<in> ar_id ` set (filter p (accounts D))
      then Inl (fk_restrict ''entries_account_id_fkey'')
      else Inr (D\<lparr>accounts := filter (\<lambda>r. \<not> p r) (accounts D)\<rparr>))"

text \<open>The subquery of 0002: the transactions with a leg on the EXTERNAL account.\<close>

definition external_transactions :: "db \<Rightarrow> UUID set" where
  "external_transactions D =
     er_transaction_id ` set (filter (\<lambda>e. er_account_id e = external_id) (entries D))"

definition seed_system_account_down :: "db \<Rightarrow> gerror + db" where
  "seed_system_account_down D =
     (let D1 = delete_entries (\<lambda>e. er_transaction_id e \<in> external_transactions D) D in
      case delete_transactions (\<lambda>t. tr_id t \<in> external_transactions D1) D1 of
        Inl e \<Rightarrow> Inl e
      | Inr D2 \<Rightarrow> delete_accounts (\<lambda>r. ar_id r = external_id) D2)"

definition seed_demo_accounts_down :: "timestamp \<Rightarrow> db \<Rightarrow> gerror + db" where
  "seed_demo_accounts_down now D =
     (let D1 = delete_entries (\<lambda>e. er_transaction_id e \<in> {seed_tx1, seed_tx2, seed_tx3}) D in
      case delete_transactions (\<lambda>t. tr_idempotency_key t \<in>
          {''seed-deposit-alice-001'', ''seed-deposit-bob-001'', ''seed-deposit-charlie-001''}) D1 of
        Inl e \<Rightarrow> Inl e
      | Inr D2 \<Rightarrow>
          (case delete_accounts (\<lambda>r. ar_id r \<in> {alice_id, bob_id, charlie_id}) D2 of
             Inl e \<Rightarrow> Inl e
           | Inr D3 \<Rightarrow> Inr (set_external_balance now 0 D3)))"

text \<open>What \<^verbatim>\<open>migrate.Up\<close> leaves in a fresh database.\<close>

definition seed_db :: "timestamp \<Rightarrow> db" where
  "seed_db now = seed_demo_accounts_up now 1 (seed_system_account_up now init_up)"

lemma seed_db_eq:
  "seed_db now =
     \<lparr>accounts = [\<lparr>ar_id = external_id, ar_name = ''EXTERNAL'', ar_balance = -300000000, ar_is_system = True,
            ar_created_at = now, ar_updated_at = now\<rparr>,
          \<lparr>ar_id = alice_id, ar_name = ''Alice'', ar_balance = 100000000, ar_is_system = False,
            ar_created_at = now, ar_updated_at = now\<rparr>,
          \<lparr>ar_id = bob_id, ar_name = ''Bob'', ar_balance = 100000000, ar_is_system = False,
            ar_created_at = now, ar_updated_at = now\<rparr>,
          \<lparr>ar_id = charlie_id, ar_name = ''Charlie'', ar_balance = 100000000, ar_is_system = False,
            ar_created_at = now, ar_updated_at = now\<rparr>],
      transactions = map (\<lambda>(t, k). \<lparr>tr_id = t, tr_kind = ''DEPOSIT'', tr_idempotency_key = k,
            tr_reverses_transaction_id = None, tr_created_at = now\<rparr>)
          [(seed_tx1, ''seed-deposit-alice-001''), (seed_tx2, ''seed-deposit-bob-001''),
           (seed_tx3, ''seed-deposit-charlie-001'')],
      entries = map (\<lambda>(i, t, a, d). \<lparr>er_id = i, er_transaction_id = t, er_account_id = a, er_direction = d,
            er_amount = 100000000, er_created_at = now\<rparr>)
          [(1, seed_tx1, external_id, ''DEBIT''), (2, seed_tx1, alice_id, ''CREDIT''),
           (3, seed_tx2, external_id, ''DEBIT''), (4, seed_tx2, bob_id, ''CREDIT''),
           (5, seed_tx3, external_id, ''DEBIT''), (6, seed_tx3, charlie_id, ''CREDIT'')],
      audit_log = []\<rparr>"
  by (simp add: seed_db_def seed_demo_accounts_up_def seed_system_account_up_def init_up_def insert_account_def
      insert_transaction_def insert_seed_entry_def charge_external_def set_external_balance_def set_balance_def seed_neq)

lemma external_id_eq: "external_id = ExternalAccountID"
  by (simp add: external_id_def uuid_lit_def ExternalAccountID_def)

lemma seed_wf: "wf_uuid external_id" "wf_uuid alice_id" "wf_uuid bob_id" "wf_uuid charlie_id"
  by (simp_all add: seed_ids wf_uuid_def)

lemma seed_ledger_ok: "ledger_ok (seed_db now)"
proof -
  have "keys_ok (seed_db now)"
    by (simp add: keys_ok_def seed_db_eq seed_neq)
  moreover have "\<forall>r\<in>set (accounts (seed_db now)). account_ok (seed_db now) r"
    by (simp add: seed_db_eq account_ok_def account_net_def signed_def numeric_fits_def seed_neq seed_wf
        external_id_eq [symmetric])
  moreover have "\<forall>e\<in>set (entries (seed_db now)). entry_ok (seed_db now) e"
    by (simp add: seed_db_eq entry_ok_def numeric_fits_def)
  moreover have "\<forall>t\<in>set (transactions (seed_db now)). transaction_ok (seed_db now) t"
    by (simp add: seed_db_eq transaction_ok_def legs_def seed_neq direction_defs kind_defs Let_def
        external_id_eq [symmetric])
  moreover have "ExternalAccountID \<in> ar_id ` set (accounts (seed_db now))"
    by (simp add: seed_db_eq external_id_eq)
  ultimately show ?thesis by (simp add: ledger_ok_def)
qed

lemma ledger_external:
  assumes "ledger_ok D"
  shows "external_id \<in> ar_id ` set (accounts D)"
  using assms by (simp add: ledger_ok_def external_id_eq)

text \<open>The seeds on a database that already has them.\<close>

definition seeded :: "db \<Rightarrow> bool" where
  "seeded D \<longleftrightarrow>
     {external_id, alice_id, bob_id, charlie_id} \<subseteq> ar_id ` set (accounts D) \<and>
     {seed_tx1, seed_tx2, seed_tx3} \<subseteq> tr_id ` set (transactions D) \<and>
     ''seed-deposit-alice-001'' \<in> tr_idempotency_key ` set (transactions D) \<and>
     (\<forall>(t, a, d)\<in>{(seed_tx1, external_id, ''DEBIT''), (seed_tx1, alice_id, ''CREDIT''),
         (seed_tx2, external_id, ''DEBIT''), (seed_tx2, bob_id, ''CREDIT''),
         (seed_tx3, external_id, ''DEBIT''), (seed_tx3, charlie_id, ''CREDIT'')}.
       \<exists>e\<in>set (entries D). er_transaction_id e = t \<and> er_account_id e = a \<and> er_direction e = d)"

lemma seeded_seed_db: "seeded (seed_db now)"
  by (simp add: seeded_def seed_db_eq)

lemma seed_rerun:
  assumes "seeded D"
  shows "seed_system_account_up now D = D" "seed_demo_accounts_up now seq D = D"
  using assms
  by (simp_all add: seeded_def seed_system_account_up_def seed_demo_accounts_up_def insert_account_def
      insert_transaction_def insert_seed_entry_def charge_external_def)

text \<open>
  The migrations leave a correct ledger: the seeded database satisfies the whole invariant, its
  balances sum to zero, and it is unchanged when the two seeds run again, at any later time.
\<close>

theorem seeds_correct:
  "ledger_ok (seed_db now) \<and> total_balance (seed_db now) = 0 \<and>
   seed_system_account_up later (seed_db now) = seed_db now \<and>
   seed_demo_accounts_up later seq (seed_db now) = seed_db now"
  using seed_ledger_ok ledger_total [OF seed_ledger_ok] seed_rerun [OF seeded_seed_db] by blast

lemma seed_demo_down_refused:
  assumes "ledger_ok D" "e \<in> set (entries D)" "er_account_id e \<in> {alice_id, bob_id, charlie_id}"
    "er_transaction_id e \<notin> {seed_tx1, seed_tx2, seed_tx3}"
  shows "\<exists>name. seed_demo_accounts_down now D = Inl (fk_restrict name)"
proof -
  let ?D1 = "delete_entries (\<lambda>e. er_transaction_id e \<in> {seed_tx1, seed_tx2, seed_tx3}) D"
  have "er_account_id e \<in> ar_id ` set (accounts D)"
    using assms(1, 2) by (simp add: ledger_ok_def entry_ok_def)
  then obtain r where r: "r \<in> set (accounts D)" "ar_id r = er_account_id e" by auto
  have e: "e \<in> set (entries ?D1)" using assms(2, 4) by (simp add: delete_entries_def)
  have acc: "\<exists>name. delete_accounts p D2 = Inl (fk_restrict name)"
    if "entries D2 = entries ?D1" "accounts D2 = accounts D" "p r" for p D2
  proof -
    have "er_account_id e \<in> ar_id ` set (filter p (accounts D2))" using that r by force
    with e that(1) show ?thesis unfolding delete_accounts_def by metis
  qed
  show ?thesis
  proof (cases "delete_transactions (\<lambda>t. tr_idempotency_key t \<in>
      {''seed-deposit-alice-001'', ''seed-deposit-bob-001'', ''seed-deposit-charlie-001''}) ?D1")
    case (Inl err)
    then show ?thesis
      by (auto simp: seed_demo_accounts_down_def delete_transactions_def Let_def split: if_splits)
  next
    case (Inr D2)
    then have "entries D2 = entries ?D1" "accounts D2 = accounts D"
      by (auto simp: delete_transactions_def delete_entries_def Let_def split: if_splits)
    from acc [OF this, of "\<lambda>r. ar_id r \<in> {alice_id, bob_id, charlie_id}"] r assms(3) obtain name where
      "delete_accounts (\<lambda>r. ar_id r \<in> {alice_id, bob_id, charlie_id}) D2 = Inl (fk_restrict name)" by auto
    with Inr show ?thesis by (intro exI [of _ name]) (simp add: seed_demo_accounts_down_def Let_def)
  qed
qed

text \<open>
  Undoing the demo accounts on the freshly seeded database gives back the database before them.
\<close>

theorem seed_demo_roundtrip:
  "seed_demo_accounts_down now (seed_db now) = Inr (seed_system_account_up now init_up)"
  by (simp add: seed_demo_accounts_down_def seed_db_eq delete_entries_def delete_transactions_def
      delete_accounts_def set_external_balance_def set_balance_def seed_system_account_up_def init_up_def
      insert_account_def seed_neq Let_def)

text \<open>
  C35: undoing the EXTERNAL account removes the legs of every deposit but leaves all transaction rows:
  the legs are gone when the second statement looks for them.
\<close>

theorem seed_system_down_orphans:
  assumes "ledger_ok D" "t \<in> set (transactions D)" "tr_kind t = KindDeposit"
  shows "\<exists>D'. seed_system_account_down D = Inr D' \<and> transactions D' = transactions D \<and>
    two_legs (legs (tr_id t) (entries D)) \<and> legs (tr_id t) (entries D') = []"
proof -
  let ?D1 = "delete_entries (\<lambda>e. er_transaction_id e \<in> external_transactions D) D"
  have none: "\<forall>e\<in>set (entries ?D1). er_account_id e \<noteq> external_id"
    by (auto simp: delete_entries_def external_transactions_def)
  have ext: "external_transactions D' = {}" if "\<forall>e\<in>set (entries D'). er_account_id e \<noteq> external_id" for D'
    using that by (simp add: external_transactions_def)
  have "transaction_ok D t" using assms(1, 2) by (simp add: ledger_ok_def)
  then have legs: "two_legs (legs (tr_id t) (entries D))"
    "er_account_id (hd (legs (tr_id t) (entries D))) = external_id"
    using assms(3) by (simp_all add: transaction_ok_def Let_def external_id_eq)
  then have "hd (legs (tr_id t) (entries D)) \<in> set (legs (tr_id t) (entries D))"
    by (elim two_legs_cases) simp
  then obtain e where "e \<in> set (entries D)" "er_transaction_id e = tr_id t" "er_account_id e = external_id"
    using legs(2) by (auto simp: legs_def)
  then have "tr_id t \<in> external_transactions D"
    by (force simp: external_transactions_def)
  then have "filter (\<lambda>e. er_transaction_id e = tr_id t) (entries ?D1) = []"
    by (auto simp: delete_entries_def filter_empty_conv)
  then have "legs (tr_id t) (entries ?D1) = []" by (simp add: legs_def)
  moreover have "seed_system_account_down D = delete_accounts (\<lambda>r. ar_id r = external_id) ?D1"
    unfolding seed_system_account_down_def Let_def ext [OF none] by (simp add: delete_transactions_def)
  ultimately show ?thesis
    using legs(1) none by (simp add: delete_accounts_def image_iff) (simp add: delete_entries_def)
qed

theorem seed_system_down_orphans_witness:
  "\<exists>D'. seed_system_account_down (seed_db 0) = Inr D' \<and> transactions D' = transactions (seed_db 0) \<and>
    two_legs (legs seed_tx1 (entries (seed_db 0))) \<and> legs seed_tx1 (entries D') = []"
  using seed_system_down_orphans [OF seed_ledger_ok, of "hd (transactions (seed_db 0))" 0]
  by (simp add: seed_db_eq kind_defs)

end
