(* ===== verification/Operations.thy ===== *)
theory Operations
  imports Handlers Migrations
begin

text \<open>
  The operations when no other client interferes and no call fails (\<open>calm\<close>): each one completes, with
  the result and the effect its description promises. The first part evaluates the store's functions
  forward; the second puts them together with what theory \<^verbatim>\<open>Store_Contract\<close> says about any run.
\<close>

subsection \<open>Forward evaluation\<close>

lemma calmD:
  assumes "calm env"
  shows "fate env k = Proceed" "others env k D = D" "\<exists>b. random env k = Inr b" "alone env"
  using assms by (auto simp: calm_def alone_def)

lemma calm_pool_query:
  assumes "calm env" "q (tick w) (wdb w) = Inr x"
  shows "pool_call env (query q) w = (Inr x, w\<lparr>tick := tick w + 1\<rparr>)"
  using assms by (simp add: pool_query_Inr calmD)

lemma calm_NewV7:
  assumes "calm env" "env_ok env"
  obtains i t where "NewV7 env w = (Inr i, w\<lparr>lastV7time := t, tick := tick w + 1\<rparr>)" "wf_uuid i"
proof -
  obtain b where b: "random env (tick w) = Inr b" using calmD(3) [OF assms(1)] by blast
  obtain i t where u: "UUID_NewV7 (lastV7time w) (clock env (tick w)) (Inr b) = (Inr i, t)"
    by (cases "getV7Time (lastV7time w) (clock env (tick w))")
      (simp add: UUID_NewV7_def NewRandomFromReader_def)
  with b that NewV7_version [OF env_okD(6) [OF assms(2) b] u] show ?thesis
    by (simp add: NewV7_def)
qed

lemma calm_key_missing:
  assumes "calm env" "key \<notin> tr_idempotency_key ` set (transactions (wdb w))"
  shows "GetTransactionByIdempotencyKey env key w = (Inl ErrTransactionNotFound, w\<lparr>tick := tick w + 1\<rparr>)"
proof -
  have "sql_transaction_by_key key (wdb w) = []"
    using assms(2) by (auto simp: sql_transaction_by_key_def filter_empty_conv)
  then have "pool_call env (query (\<lambda>k D. Inr (sql_transaction_by_key key D))) w = (Inr [], w\<lparr>tick := tick w + 1\<rparr>)"
    by (intro calm_pool_query [OF assms(1)]) simp
  then show ?thesis
    by (simp add: GetTransactionByIdempotencyKey_def run_eval firstRow_def)
qed

lemma calm_listEntries:
  assumes "calm env" "env_ok env" "ledger_ok (wdb w)"
  obtains es where "listEntries env t w = (Inr es, w\<lparr>tick := tick w + 2\<rparr>)"
    "list_all2 entry_matches es (legs t (entries (wdb w)))"
proof -
  let ?es = "map (\<lambda>r. entry_of (fst r) (snd r)) (sql_entries t (wdb w))"
  have "scanEntry env r = Inr (entry_of (fst r) (snd r))" if "r \<in> set (sql_entries t (wdb w))" for r
  proof -
    have "fst r \<in> set (entries (wdb w))"
      using that by (auto simp: sql_entries_legs [OF assms(3)] legs_def)
    then have "numeric_fits (er_amount (fst r))" using assms(3) by (simp add: ledger_ok_def entry_ok_def)
    then show ?thesis using scanEntry_ok [OF assms(2)] by (cases r) simp
  qed
  then have "list_all2 (\<lambda>r y. scanEntry env r = Inr y) (sql_entries t (wdb w)) ?es"
    by (simp add: list_all2_map_Inr)
  then have run: "listEntries env t w = (Inr ?es, w\<lparr>tick := tick w + 2\<rparr>)"
    using assms(1) by (simp add: listEntries_def run_simps pool_query_Inr mapM_lift stream_end_Inr calmD)
  with listEntries_Inr(2) [OF assms(2) _ run] assms(1, 3) that show ?thesis by (simp add: calmD)
qed

lemma calm_key_found:
  assumes "calm env" "env_ok env" "ledger_ok (wdb w)" "row \<in> set (transactions (wdb w))"
    "tr_idempotency_key row = key"
  obtains es where "GetTransactionByIdempotencyKey env key w =
      (Inr ((scanTransaction row)\<lparr>tEntries := es\<rparr>, es), w\<lparr>tick := tick w + 3\<rparr>)"
    "list_all2 entry_matches es (legs (tr_id row) (entries (wdb w)))"
proof -
  have "sql_transaction_by_key key (wdb w) = [row]"
    using filter_unique [of tr_idempotency_key "transactions (wdb w)" row] assms(3-5)
    by (simp add: sql_transaction_by_key_def ledger_ok_def keys_ok_def)
  then have q: "pool_call env (query (\<lambda>k D. Inr (sql_transaction_by_key key D))) w = (Inr [row], w\<lparr>tick := tick w + 1\<rparr>)"
    by (intro calm_pool_query [OF assms(1)]) simp
  let ?w = "w\<lparr>tick := tick w + 1\<rparr>"
  have "ledger_ok (wdb ?w)" using assms(3) by simp
  then obtain es where es: "listEntries env (tr_id row) ?w = (Inr es, ?w\<lparr>tick := tick ?w + 2\<rparr>)"
    "list_all2 entry_matches es (legs (tr_id row) (entries (wdb ?w)))"
    by (rule calm_listEntries [OF assms(1,2)])
  have "tID (scanTransaction row) = tr_id row" by (simp add: scanTransaction_def)
  with q es(1) have "GetTransactionByIdempotencyKey env key w = (Inr ((scanTransaction row)\<lparr>tEntries := es\<rparr>, es), w\<lparr>tick := tick w + 3\<rparr>)"
    by (simp add: GetTransactionByIdempotencyKey_def run_eval firstRow_def Let_def)
  with es(2) that show ?thesis by simp
qed

lemma calm_GetTransaction:
  assumes "calm env" "env_ok env" "ledger_ok (wdb w)" "row \<in> set (transactions (wdb w))"
  obtains es where "GetTransaction env (tr_id row) w =
      (Inr ((scanTransaction row)\<lparr>tEntries := es\<rparr>, es), w\<lparr>tick := tick w + 3\<rparr>)"
    "list_all2 entry_matches es (legs (tr_id row) (entries (wdb w)))"
proof -
  have "sql_transaction (tr_id row) (wdb w) = [row]"
    using filter_unique [of tr_id "transactions (wdb w)" row] assms(3,4)
    by (simp add: sql_transaction_def ledger_ok_def keys_ok_def)
  then have q: "pool_call env (query (\<lambda>k D. Inr (sql_transaction (tr_id row) D))) w = (Inr [row], w\<lparr>tick := tick w + 1\<rparr>)"
    by (intro calm_pool_query [OF assms(1)]) simp
  let ?w = "w\<lparr>tick := tick w + 1\<rparr>"
  have "ledger_ok (wdb ?w)" using assms(3) by simp
  then obtain es where es: "listEntries env (tr_id row) ?w = (Inr es, ?w\<lparr>tick := tick ?w + 2\<rparr>)"
    "list_all2 entry_matches es (legs (tr_id row) (entries (wdb ?w)))"
    by (rule calm_listEntries [OF assms(1,2)])
  have "tID (scanTransaction row) = tr_id row" by (simp add: scanTransaction_def)
  with q es(1) have "GetTransaction env (tr_id row) w = (Inr ((scanTransaction row)\<lparr>tEntries := es\<rparr>, es), w\<lparr>tick := tick w + 3\<rparr>)"
    by (simp add: GetTransaction_def run_eval firstRow_def Let_def)
  with es(2) that show ?thesis by simp
qed

lemma calm_Lock:
  assumes "calm env" "env_ok env" "ledger_ok (wdb w)" "wdb w = snap w"
  shows "LockAccountsForUpdate env ids w =
    (Inr (map account_of (sql_lock_accounts env (sort_ids ids) (wdb w))), w\<lparr>tick := tick w + 2\<rparr>)"
proof -
  let ?rows = "sql_lock_accounts env (sort_ids ids) (wdb w)"
  have fits: "numeric_fits (ar_balance r)" if "r \<in> set ?rows" for r
    using that ledger_fits [OF assms(3)] by (simp add: set_lock_accounts)
  have "w\<lparr>tick := tick w + 1, snap := wdb w\<rparr> = w\<lparr>tick := tick w + 1\<rparr>" using assms(4) by simp
  then show ?thesis
    using assms(1)
    by (simp add: LockAccountsForUpdate_def Let_def run_simps lock_call_Inr [OF assms(4)] calmD
        collectAccounts_Inr [OF assms(2) fits])
qed

subsection \<open>A posting goes through\<close>

lemma length_lock_pair:
  assumes "ledger_ok D" "ra \<in> set (accounts D)" "rb \<in> set (accounts D)" "ar_id ra \<noteq> ar_id rb"
    "set ids = {ar_id ra, ar_id rb}"
  shows "length (sql_lock_accounts env ids D) = 2"
proof -
  have "distinct (map ar_id (accounts D))" using assms(1) by (simp add: ledger_ok_def keys_ok_def)
  then have "distinct (accounts D)" by (simp add: distinct_map)
  then have "distinct (sql_lock_accounts env ids D)" by (simp add: sql_lock_accounts_def)
  moreover have "set (sql_lock_accounts env ids D) = {ra, rb}"
    using assms unique_row [OF assms(1)] by (auto simp: set_lock_accounts)
  moreover have "ra \<noteq> rb" using assms(4) by auto
  ultimately show ?thesis by (metis card_2_iff distinct_card)
qed

lemma calm_UpdateBalance:
  assumes "calm env" "money_ok m" "numeric_fits (units m)"
    "\<forall>r\<in>set (accounts (wdb w)). ar_id r = i \<and> \<not> ar_is_system r \<longrightarrow> 0 \<le> units m"
  shows "UpdateBalance env i m w = (Inr (), w\<lparr>tick := tick w + 1, wdb := (wdb w)\<lparr>accounts :=
      map (set_balance i (units m) (micros (clock env (tick w)))) (accounts (wdb w))\<rparr>\<rparr>)"
  using assms by (auto simp: UpdateBalance_def run_simps calmD sql_update_balance_def numeric_20_4_money)

lemma calm_update:
  assumes "calm env" "numeric_fits u"
    "\<And>r. r \<in> set (accounts (wdb w)) \<Longrightarrow> ar_id r = i \<Longrightarrow> \<not> ar_is_system r \<Longrightarrow> 0 \<le> u"
  obtains w' where "UpdateBalance env i (of_units u) w = (Inr (), w')"
    "accounts (wdb w') = map (set_balance i u (micros (clock env (tick w)))) (accounts (wdb w))"
    "transactions (wdb w') = transactions (wdb w)" "snap w' = snap w"
  using calm_UpdateBalance [OF assms(1) money_ok_of_units [of u], of w i] assms(2,3) by (simp add: that)

lemma id_set_balance [simp]: "ar_id (set_balance i u ts r) = ar_id r"
  by (simp add: set_balance_def)

lemma calm_insert_transaction:
  assumes "calm env" "kind_check (tKind t)" "violated_unique (transaction_row_of t (tx_start w)) (wdb w) = []"
    "\<forall>r. tReversesTransactionID t = Some r \<longrightarrow> r \<in> tr_id ` set (transactions (wdb w))"
  shows "exec_insert_transaction env t w = (Inr (), w\<lparr>tick := tick w + 1, wdb := (wdb w)\<lparr>transactions :=
      transactions (wdb w) @ [transaction_row_of t (tx_start w)]\<rparr>\<rparr>)"
  using assms
  by (auto simp: exec_insert_transaction_def run_simps calmD sql_insert_transaction_def transaction_row_of_def
      split: option.splits)

lemma calm_insert_entry:
  assumes "calm env" "money_ok m" "0 < units m" "numeric_fits (units m)" "d = DirectionDebit \<or> d = DirectionCredit"
    "t \<in> tr_id ` set (transactions (wdb w))" "a \<in> ar_id ` set (accounts (wdb w))"
  obtains w' where "exec_insert_entry env (mk_Entry t a d m) w = (Inr (), w')"
    "transactions (wdb w') = transactions (wdb w)" "accounts (wdb w') = accounts (wdb w)"
proof -
  have "d \<in> {''DEBIT'', ''CREDIT''}" using assms(5) by (auto simp: direction_defs)
  with assms that show ?thesis
    by (simp add: exec_insert_entry_def run_simps calmD sql_insert_entry_def numeric_20_4_money mk_Entry_def)
qed

text \<open>What a posting of the service needs to go through.\<close>

definition can_post :: "Transaction \<Rightarrow> UUID \<Rightarrow> UUID \<Rightarrow> Money \<Rightarrow> db \<Rightarrow> bool" where
  "can_post txn from to amount D \<longleftrightarrow>
     money_ok amount \<and> 0 < units amount \<and> numeric_fits (units amount) \<and> from \<noteq> to \<and>
     (\<exists>r\<in>set (accounts D). ar_id r = from \<and> (ar_is_system r \<or> units amount \<le> ar_balance r) \<and>
        numeric_fits (ar_balance r - units amount)) \<and>
     (\<exists>r\<in>set (accounts D). ar_id r = to \<and> numeric_fits (ar_balance r + units amount)) \<and>
     (\<forall>ts. violated_unique (transaction_row_of txn ts) D = []) \<and>
     txn_ready txn from to (units amount) D"

lemma can_post_rows:
  assumes L: "ledger_ok D" and c: "can_post txn from to amount D"
    and rows: "rf \<in> set (accounts D)" "ar_id rf = from" "rt \<in> set (accounts D)" "ar_id rt = to"
  shows "ar_is_system rf \<or> units amount \<le> ar_balance rf" "numeric_fits (ar_balance rf - units amount)"
    "numeric_fits (ar_balance rt + units amount)"
proof -
  have "\<exists>r\<in>set (accounts D). ar_id r = from \<and> (ar_is_system r \<or> units amount \<le> ar_balance r) \<and>
      numeric_fits (ar_balance r - units amount)" "\<exists>r\<in>set (accounts D). ar_id r = to \<and> numeric_fits (ar_balance r + units amount)"
    using c by (simp_all add: can_post_def)
  then show "ar_is_system rf \<or> units amount \<le> ar_balance rf" "numeric_fits (ar_balance rf - units amount)"
    "numeric_fits (ar_balance rt + units amount)"
    using unique_row [OF L _ rows(1)] unique_row [OF L _ rows(3)] rows(2,4) by metis+
qed

lemma calm_posting_balances:
  assumes env: "calm env" and L: "ledger_ok (wdb w)" and c: "can_post txn from to amount (wdb w)"
    and rows: "rf \<in> set (accounts (wdb w))" "ar_id rf = from" "rt \<in> set (accounts (wdb w))" "ar_id rt = to"
  obtains w1 w2 where
    "UpdateBalance env from (Money_Sub (of_units (ar_balance rf)) amount) w = (Inr (), w1)"
    "UpdateBalance env to (Money_Add (of_units (ar_balance rt)) amount) w1 = (Inr (), w2)"
    "ar_id ` set (accounts (wdb w2)) = ar_id ` set (accounts (wdb w))" "transactions (wdb w2) = transactions (wdb w)"
proof -
  let ?a = "units amount"
  have m: "money_ok amount" "0 < ?a" and fr: "from \<noteq> to" using c by (auto simp: can_post_def)
  note fit = can_post_rows [OF L c rows]
  have sub: "Money_Sub (of_units (ar_balance rf)) amount = of_units (ar_balance rf - ?a)"
    and add: "Money_Add (of_units (ar_balance rt)) amount = of_units (ar_balance rt + ?a)"
    using Money_ops_of_units [of "of_units _" amount] m by simp_all
  have p1: "r = rf" if "r \<in> set (accounts (wdb w))" "ar_id r = from" for r
    using unique_row [OF L that(1) rows(1)] that(2) rows(2) by simp
  obtain w1 where s1: "UpdateBalance env from (of_units (ar_balance rf - ?a)) w = (Inr (), w1)"
    and w1: "accounts (wdb w1) = map (set_balance from (ar_balance rf - ?a) (micros (clock env (tick w)))) (accounts (wdb w))"
      "transactions (wdb w1) = transactions (wdb w)"
    by (rule calm_update [OF env fit(2), of w "from"]) (use fit p1 in fastforce)+
  have nn: "0 \<le> ar_balance rt" if "\<not> ar_is_system rt"
    using that rows(3) L by (auto simp: ledger_ok_def account_ok_def)
  have p2: "r = rt \<or> ar_id r \<noteq> to" if "r \<in> set (accounts (wdb w))" for r
    using unique_row [OF L that rows(3)] rows(4) by auto
  have b2: "0 \<le> ar_balance rt + ?a" if "r \<in> set (accounts (wdb w1))" "ar_id r = to" "\<not> ar_is_system r" for r
    using that p2 nn m(2) fr by (fastforce simp: w1 set_balance_def)
  obtain w2 where s2: "UpdateBalance env to (of_units (ar_balance rt + ?a)) w1 = (Inr (), w2)"
    and w2: "ar_id ` set (accounts (wdb w2)) = ar_id ` set (accounts (wdb w))"
      "transactions (wdb w2) = transactions (wdb w)"
    by (rule calm_update [OF env fit(3), of w1 to]) (use b2 w1 in \<open>auto simp: image_image\<close>)
  from that s1 s2 w2 sub add show ?thesis by simp
qed

lemma calm_posting_rows:
  assumes env: "calm env" and c: "can_post txn from to amount D"
    and w: "transactions (wdb w) = transactions D" "from \<in> ar_id ` set (accounts (wdb w))" "to \<in> ar_id ` set (accounts (wdb w))"
    and ins: "ins = InsertTransaction env \<or> ins = InsertReversalTransaction env"
  obtains w1 w2 where "ins txn w = (Inr (), w1)"
    "InsertEntries env [mk_Entry (tID txn) from DirectionDebit amount,
               mk_Entry (tID txn) to DirectionCredit amount] w1 = (Inr (), w2)"
proof -
  have m: "money_ok amount" "0 < units amount" "numeric_fits (units amount)" using c by (auto simp: can_post_def)
  have "kind_check (tKind txn)" "\<forall>r. tReversesTransactionID txn = Some r \<longrightarrow> r \<in> tr_id ` set (transactions (wdb w))"
    using c w(1) by (auto simp: can_post_def txn_ready_def kind_check_def kind_defs)
  moreover have "violated_unique (transaction_row_of txn (tx_start w)) (wdb w) = []"
    using c violated_unique_frame [OF w(1)] by (simp add: can_post_def)
  ultimately obtain w1 where s: "exec_insert_transaction env txn w = (Inr (), w1)"
    and w1: "accounts (wdb w1) = accounts (wdb w)" "tID txn \<in> tr_id ` set (transactions (wdb w1))"
    using calm_insert_transaction [OF env] by (force simp: transaction_row_of_def)
  have 1: "ins txn w = (Inr (), w1)"
    using ins s by (auto simp: InsertTransaction_def InsertReversalTransaction_def run_simps)
  have ids: "from \<in> ar_id ` set (accounts (wdb w1))" "to \<in> ar_id ` set (accounts (wdb w1))"
    using w w1(1) by auto
  obtain w' where e1: "exec_insert_entry env (mk_Entry (tID txn) from DirectionDebit amount) w1 = (Inr (), w')"
    "transactions (wdb w') = transactions (wdb w1)" "accounts (wdb w') = accounts (wdb w1)"
    by (rule calm_insert_entry [OF env m _ w1(2) ids(1)]) auto
  obtain w2 where e2: "exec_insert_entry env (mk_Entry (tID txn) to DirectionCredit amount) w' = (Inr (), w2)"
    by (rule calm_insert_entry [OF env m, of DirectionCredit "tID txn" w' to]) (use e1 w1(2) ids(2) in auto)
  have "InsertEntries env [mk_Entry (tID txn) from DirectionDebit amount,
      mk_Entry (tID txn) to DirectionCredit amount] w1 = (Inr (), w2)"
    using e1(1) e2 m by (simp add: InsertEntries_def run_eval mk_Entry_def Money_sign_units)
  with that 1 show ?thesis .
qed

lemma calm_posting_steps:
  assumes env: "calm env" and L: "ledger_ok (wdb w)" and c: "can_post txn from to amount (wdb w)"
    and rows: "rf \<in> set (accounts (wdb w))" "ar_id rf = from" "rt \<in> set (accounts (wdb w))" "ar_id rt = to"
    and ins: "ins = InsertTransaction env \<or> ins = InsertReversalTransaction env"
  obtains w1 w2 w3 w4 where
    "UpdateBalance env from (Money_Sub (of_units (ar_balance rf)) amount) w = (Inr (), w1)"
    "UpdateBalance env to (Money_Add (of_units (ar_balance rt)) amount) w1 = (Inr (), w2)"
    "ins txn w2 = (Inr (), w3)"
    "InsertEntries env [mk_Entry (tID txn) from DirectionDebit amount,
               mk_Entry (tID txn) to DirectionCredit amount] w3 = (Inr (), w4)"
proof (rule calm_posting_balances [OF env L c rows])
  fix w1 w2
  assume s: "UpdateBalance env from (Money_Sub (of_units (ar_balance rf)) amount) w = (Inr (), w1)"
    "UpdateBalance env to (Money_Add (of_units (ar_balance rt)) amount) w1 = (Inr (), w2)"
    and w2: "ar_id ` set (accounts (wdb w2)) = ar_id ` set (accounts (wdb w))" "transactions (wdb w2) = transactions (wdb w)"
  show thesis
    by (rule calm_posting_rows [OF env c w2(2) _ _ ins]) (use w2(1) rows that [OF s] in auto)
qed

lemma calm_begin:
  assumes "calm env"
  shows "begin_tx env w = (Inr (), w\<lparr>tick := tick w + 1, snap := wdb w, pending := [],
    tx_start := micros (clock env (tick w))\<rparr>)"
  using assms by (simp add: begin_tx_def pool_call_def run_call_def calmD)

lemma calm_locked:
  assumes env: "calm env" "env_ok env" and L: "ledger_ok (wdb w)" and sn: "wdb w = snap w"
    and r: "ra \<in> set (accounts (wdb w))" "ar_id ra = a" "rb \<in> set (accounts (wdb w))" "ar_id rb = b" "a \<noteq> b"
  obtains locked where "LockAccountsForUpdate env [a, b] w = (Inr locked, w\<lparr>tick := tick w + 2\<rparr>)" "length locked = 2"
    "\<And>acc. pick_accounts a b locked acc = (account_of ra, account_of rb)"
proof -
  let ?rows = "sql_lock_accounts env (sort_ids [a, b]) (wdb w)"
  have ids: "set (sort_ids [a, b]) = {a, b}" by simp
  have len: "length ?rows = 2"
    by (rule length_lock_pair [OF L r(1,3)]) (use r in auto)
  obtain ra' rb' where r': "ra' \<in> set (accounts (wdb w))" "ar_id ra' = a" "rb' \<in> set (accounts (wdb w))" "ar_id rb' = b"
    and pick: "\<And>acc. pick_accounts a b (map account_of ?rows) acc = (account_of ra', account_of rb')"
    using locked_pair [OF L len ids] by metis
  have "ra' = ra" "rb' = rb" using unique_row [OF L] r r' by metis+
  with pick len that [OF calm_Lock [OF env L sn]] show ?thesis by simp
qed

lemma calm_posting_tx:
  assumes env: "calm env" "env_ok env" and L: "ledger_ok (wdb w)" and sn: "wdb w = snap w"
    and ft: "(from, to) = (if swapped then (b, a) else (a, b))"
    and c: "can_post txn from to amount (wdb w)" and check: "check \<longrightarrow> from \<noteq> ExternalAccountID"
    and ins: "ins = InsertTransaction env \<or> ins = InsertReversalTransaction env"
  obtains w' where
    "posting_tx (Store_Storer env) msg a b swapped check ins amount txn w = (Inr (posted_result txn from to amount), w')"
proof -
  let ?D = "wdb w"
  have m: "money_ok amount" "from \<noteq> to" "a \<noteq> b" using c ft by (auto simp: can_post_def split: if_splits)
  obtain rf rt where rows: "rf \<in> set (accounts ?D)" "ar_id rf = from" "rt \<in> set (accounts ?D)" "ar_id rt = to"
    and funds: "ar_is_system rf \<or> units amount \<le> ar_balance rf"
    using c unfolding can_post_def by blast
  define ra rb where rab: "ra = (if swapped then rt else rf)" "rb = (if swapped then rf else rt)"
  have r: "ra \<in> set (accounts ?D)" "ar_id ra = a" "rb \<in> set (accounts ?D)" "ar_id rb = b"
    using ft rows by (auto simp: rab split: if_splits)
  obtain locked where lock: "LockAccountsForUpdate env [a, b] w = (Inr locked, w\<lparr>tick := tick w + 2\<rparr>)"
    "length locked = 2" "\<And>acc. pick_accounts a b locked acc = (account_of ra, account_of rb)"
    by (rule calm_locked [OF env L sn r m(3)]) (rule that)
  have "check \<longrightarrow> \<not> ar_is_system rf"
    using check rows(1,2) L by (auto simp: ledger_ok_def account_ok_def)
  then have fund: "\<not> (check \<and> Money_LessThan (of_units (ar_balance rf)) amount)"
    using funds m(1) by (auto simp: Money_cmp_units)
  let ?w = "w\<lparr>tick := tick w + 2\<rparr>"
  have D: "wdb ?w = ?D" by simp
  obtain w1 w2 w3 w4 where s:
    "UpdateBalance env from (Money_Sub (of_units (ar_balance rf)) amount) ?w = (Inr (), w1)"
    "UpdateBalance env to (Money_Add (of_units (ar_balance rt)) amount) w1 = (Inr (), w2)"
    "ins txn w2 = (Inr (), w3)"
    "InsertEntries env [mk_Entry (tID txn) from DirectionDebit amount,
               mk_Entry (tID txn) to DirectionCredit amount] w3 = (Inr (), w4)"
    by (rule calm_posting_steps [OF env(1) _ _ _ rows(2) _ rows(4) ins, of ?w]) (use D L c rows in simp_all)
  have bal: "aBalance (account_of r) = of_units (ar_balance r)" for r by (simp add: account_of_def)
  have "posting_tx (Store_Storer env) msg a b swapped check ins amount txn w = (Inr (posted_result txn from to amount), w4)"
    using lock s ft rab fund
    by (cases swapped) (simp_all add: posting_tx_def run_eval posted_result_def Let_def bal)
  with that show ?thesis by blast
qed

lemma ledger_check: "ledger_ok D \<Longrightarrow> check_double_entry_balance t D"
proof (cases "t \<in> tr_id ` set (transactions D)")
  case False
  assume "ledger_ok D"
  with False have "filter (\<lambda>e. er_transaction_id e = t) (entries D) = []"
    by (auto simp: ledger_ok_def entry_ok_def filter_empty_conv)
  then show ?thesis by (simp add: check_double_entry_balance_def tx_net_def)
qed (auto simp: check_double_entry_balance_def ledger_tx_net)

lemma calm_posting:
  assumes env: "calm env" "env_ok env" and L: "ledger_ok (wdb w)"
    and ft: "(from, to) = (if swapped then (b, a) else (a, b))"
    and c: "can_post txn from to amount (wdb w)" and check: "check \<longleftrightarrow> from \<noteq> ExternalAccountID"
    and ins: "ins = InsertTransaction env \<or> ins = InsertReversalTransaction env"
  obtains w' P where
    "WithTx env (posting_tx (Store_Storer env) msg a b swapped check ins amount txn) w = (Inr (posted_result txn from to amount), w')"
    "posting_of txn from to amount P" "posting_ok P (wdb w)" "wdb w' = apply_posting P (wdb w)"
proof -
  let ?tx = "posting_tx (Store_Storer env) msg a b swapped check ins amount txn"
  define w1 where "w1 = w\<lparr>tick := tick w + 1, snap := wdb w, pending := [], tx_start := micros (clock env (tick w))\<rparr>"
  have b: "begin_tx env w = (Inr (), w1)" using calm_begin [OF env(1)] by (simp add: w1_def)
  have w1: "wdb w1 = wdb w" "snap w1 = wdb w" by (simp_all add: w1_def)
  obtain w2 where t: "?tx w1 = (Inr (posted_result txn from to amount), w2)"
    by (rule calm_posting_tx [OF env _ _ ft _ _ ins, of w1 txn amount check msg]) (use w1 L c check in auto)
  have m: "money_like amount" "txn_ready txn from to (units amount) (wdb w)" using c by (auto simp: can_post_def)
  have o: "wdb w1 = snap w1" "wdb w = others env (tick w1) (wdb w1)" "check \<or> from = ExternalAccountID"
    using w1 check calmD(2) [OF env(1)] by auto
  obtain P where P: "posting_of txn from to amount P" "posting_ok P (wdb w)" "wdb w2 = apply_posting P (wdb w)"
    using posting_success [OF env(2) o(1,2) L m(1) ft m(2) o(3) ins t] by blast
  then have "ledger_ok (wdb w2)" using ledger_ok_posting L by metis
  then have "commit env (posted_result txn from to amount) w2 = (Inr (posted_result txn from to amount),
      w2\<lparr>tick := tick w2 + 1, snap := wdb w2, pending := []\<rparr>)"
    using env(1) by (simp add: commit_def Let_def calmD ledger_check)
  with b t have "WithTx env ?tx w = (Inr (posted_result txn from to amount),
      w2\<lparr>tick := tick w2 + 1, snap := wdb w2, pending := []\<rparr>)"
    by (simp add: WithTx_def run_eval)
  from that [OF this P(1,2)] P(3) show ?thesis by simp
qed

subsection \<open>Refusals inside the transaction\<close>

lemma calm_lock_missing:
  assumes "\<not> (\<exists>ra\<in>set (accounts D). ar_id ra = a) \<or> \<not> (\<exists>rb\<in>set (accounts D). ar_id rb = b)" "a \<noteq> b" "ledger_ok D"
  shows "length (sql_lock_accounts env (sort_ids [a, b]) D) \<noteq> 2"
proof
  assume "length (sql_lock_accounts env (sort_ids [a, b]) D) = 2"
  then show False
    by (rule locked_pair [OF assms(3), where a = a and b = b]) (use assms(1) in auto)
qed

lemma calm_refused:
  assumes "calm env" "\<And>w1. wdb w1 = wdb w \<Longrightarrow> snap w1 = wdb w \<Longrightarrow> \<exists>w2. body w1 = (Inl e, w2) \<and> snap w2 = wdb w"
  obtains w' where "WithTx env body w = (Inl e, w')" "wdb w' = wdb w"
proof -
  let ?w1 = "w\<lparr>tick := tick w + 1, snap := wdb w, pending := [], tx_start := micros (clock env (tick w))\<rparr>"
  obtain w2 where "body ?w1 = (Inl e, w2)" "snap w2 = wdb w"
    using assms(2) [of ?w1] by auto
  with that [of "rollback w2"] show ?thesis
    using calm_begin [OF assms(1)] by (simp add: WithTx_def run_eval rollback_def)
qed

lemma calm_missing:
  assumes env: "calm env" "env_ok env" and L: "ledger_ok (wdb w)"
    and miss: "a \<notin> ar_id ` set (accounts (wdb w)) \<or> b \<notin> ar_id ` set (accounts (wdb w))" "a \<noteq> b"
  obtains w' where
    "WithTx env (posting_tx (Store_Storer env) msg a b swapped check ins amount txn) w = (Inl ErrAccountNotFound, w')"
    "wdb w' = wdb w"
proof (rule calm_refused [OF env(1)])
  fix w1 :: world assume w1: "wdb w1 = wdb w" "snap w1 = wdb w"
  have "length (sql_lock_accounts env (sort_ids [a, b]) (wdb w1)) \<noteq> 2"
    by (rule calm_lock_missing) (use miss L w1 in auto)
  with calm_Lock [OF env, of w1 "[a, b]"] w1 L
  show "\<exists>w2. posting_tx (Store_Storer env) msg a b swapped check ins amount txn w1 = (Inl ErrAccountNotFound, w2) \<and>
      snap w2 = wdb w"
    by (simp add: posting_tx_def run_eval)
qed (use that in blast)

lemma calm_insufficient:
  assumes env: "calm env" "env_ok env" and L: "ledger_ok (wdb w)" and m: "money_ok amount"
    and r: "ra \<in> set (accounts (wdb w))" "ar_id ra = a" "rb \<in> set (accounts (wdb w))" "ar_id rb = b" "a \<noteq> b"
    and poor: "ar_balance (if swapped then rb else ra) < units amount"
  obtains w' where
    "WithTx env (posting_tx (Store_Storer env) msg a b swapped True ins amount txn) w = (Inl ErrInsufficientFunds, w')"
    "wdb w' = wdb w"
proof (rule calm_refused [OF env(1)])
  fix w1 :: world assume w1: "wdb w1 = wdb w" "snap w1 = wdb w"
  obtain locked where "LockAccountsForUpdate env [a, b] w1 = (Inr locked, w1\<lparr>tick := tick w1 + 2\<rparr>)" "length locked = 2"
    "\<And>acc. pick_accounts a b locked acc = (account_of ra, account_of rb)"
    by (rule calm_locked [OF env _ _ _ r(2) _ r(4,5), of w1]) (use L w1 r in auto)
  moreover have "aBalance (account_of r) = of_units (ar_balance r)" for r by (simp add: account_of_def)
  ultimately show "\<exists>w2. posting_tx (Store_Storer env) msg a b swapped True ins amount txn w1 = (Inl ErrInsufficientFunds, w2) \<and>
      snap w2 = wdb w"
    using poor w1 m by (cases swapped) (simp_all add: posting_tx_def run_eval Let_def Money_cmp_units)
qed (use that in blast)

end
