(* ===== verification/Outcomes.thy ===== *)
theory Outcomes
  imports Operations
begin

text \<open>
  What each operation of the service decides. A verdict is computed from the tables alone, by the
  rules in the order the code applies them; the theorems say that, when nothing interferes, the
  operation does what its verdict says: it refuses with that error and an audit row, returns the
  transaction already stored under the key and changes nothing, or makes exactly one posting.
\<close>

subsection \<open>Verdicts\<close>

datatype verdict = Refuse gerror | Replay transaction_row | Post

definition find_key :: "string \<Rightarrow> db \<Rightarrow> transaction_row option" where
  "find_key key D = find (\<lambda>t. tr_idempotency_key t = key) (transactions D)"

definition find_account :: "UUID \<Rightarrow> db \<Rightarrow> account_row option" where
  "find_account i D = find (\<lambda>r. ar_id r = i) (accounts D)"

text \<open>Both accounts are there, and the payer has the funds unless it is the EXTERNAL account.\<close>

definition funds_verdict :: "UUID \<Rightarrow> UUID \<Rightarrow> int \<Rightarrow> db \<Rightarrow> verdict" where
  "funds_verdict from to amt D =
     (case (find_account from D, find_account to D) of
        (Some r, Some r') \<Rightarrow>
          if from \<noteq> ExternalAccountID \<and> ar_balance r < amt then Refuse ErrInsufficientFunds else Post
      | _ \<Rightarrow> Refuse ErrAccountNotFound)"

definition Transfer_verdict :: "UUID \<Rightarrow> UUID \<Rightarrow> int \<Rightarrow> string \<Rightarrow> db \<Rightarrow> verdict" where
  "Transfer_verdict src dst amt key D =
     (if amt \<le> 0 then Refuse ErrInvalidAmount
      else if src = dst then Refuse ErrSelfTransfer
      else if src = ExternalAccountID \<or> dst = ExternalAccountID then Refuse ErrSystemAccount
      else case find_key key D of Some row \<Rightarrow> Replay row | None \<Rightarrow> funds_verdict src dst amt D)"

definition Deposit_verdict :: "UUID \<Rightarrow> int \<Rightarrow> string \<Rightarrow> db \<Rightarrow> verdict" where
  "Deposit_verdict dst amt key D =
     (if amt \<le> 0 then Refuse ErrInvalidAmount
      else if dst = ExternalAccountID then Refuse ErrSystemAccount
      else case find_key key D of Some row \<Rightarrow> Replay row | None \<Rightarrow> funds_verdict ExternalAccountID dst amt D)"

text \<open>A reversal finds the legs of the original. The funds are looked at before an earlier reversal.\<close>

definition Reverse_verdict :: "UUID \<Rightarrow> string \<Rightarrow> db \<Rightarrow> verdict" where
  "Reverse_verdict orig key D =
     (case find_key key D of
        Some row \<Rightarrow> Replay row
      | None \<Rightarrow>
          (case find (\<lambda>t. tr_id t = orig) (transactions D) of
             None \<Rightarrow> Refuse ErrTransactionNotFound
           | Some t \<Rightarrow>
               if tr_kind t \<noteq> KindTransfer then Refuse ErrNotReversible
               else
                 (case legs orig (entries D) of
                    [d, c] \<Rightarrow>
                      (case funds_verdict (er_account_id c) (er_account_id d) (er_amount d) D of
                         Post \<Rightarrow>
                           if Some orig \<in> tr_reverses_transaction_id ` set (transactions D)
                           then Refuse ErrAlreadyReversed else Post
                       | v \<Rightarrow> v)
                  | _ \<Rightarrow> Refuse ErrNotReversible)))"

text \<open>The row an operation leaves in the audit log, up to its id and time.\<close>

definition audit_says ::
  "string \<Rightarrow> (UUID \<times> UUID \<times> int) option \<Rightarrow> string \<Rightarrow> string option \<Rightarrow> UUID option \<Rightarrow> string \<Rightarrow> audit_row \<Rightarrow> bool" where
  "audit_says op move outcome reason tx rid a \<longleftrightarrow>
     au_operation a = op \<and> au_outcome a = outcome \<and> au_error_reason a = reason \<and> au_transaction_id a = tx \<and>
     au_request_id a = Some rid \<and> au_from_account a = map_option fst move \<and>
     au_to_account a = map_option (fst \<circ> snd) move \<and> au_amount a = map_option (snd \<circ> snd) move"

text \<open>The movement a reversal makes: the legs of the original the other way round.\<close>

definition reverse_move :: "UUID \<Rightarrow> db \<Rightarrow> (UUID \<times> UUID \<times> int) option" where
  "reverse_move orig D =
     (case find (\<lambda>t. tr_id t = orig) (transactions D) of
        None \<Rightarrow> None
      | Some t \<Rightarrow>
          if tr_kind t \<noteq> KindTransfer then None
          else (case legs orig (entries D) of
                  [d, c] \<Rightarrow> Some (er_account_id c, er_account_id d, er_amount d) | _ \<Rightarrow> None))"

text \<open>
  An operation named \<open>op\<close> that is to make the movement \<open>move\<close> under the header \<open>mk i\<close>, run from the
  database \<open>D\<close>, has met the verdict when its result is \<open>r\<close> and the database is \<open>D'\<close>.
\<close>

definition meets ::
  "string \<Rightarrow> (UUID \<Rightarrow> Transaction) \<Rightarrow> (UUID \<times> UUID \<times> int) option \<Rightarrow> string \<Rightarrow> verdict \<Rightarrow>
    db \<Rightarrow> gerror + txres \<Rightarrow> db \<Rightarrow> bool" where
  "meets op mk move rid v D r D' \<longleftrightarrow>
     (case v of
        Refuse e \<Rightarrow> r = Inl e \<and>
          (\<exists>a. audit_says op move OutcomeFailure (Some (err_msg e)) None rid a \<and> D' = add_audit a D)
      | Replay row \<Rightarrow> (\<exists>res. r = Inr res \<and> stored D row res) \<and> D' = D
      | Post \<Rightarrow> \<exists>from to amt i P a. move = Some (from, to, amt) \<and>
          r = Inr (posted_result (mk i) from to (of_units amt)) \<and>
          posting_of (mk i) from to (of_units amt) P \<and> posting_ok P D \<and>
          audit_says op move OutcomeSuccess None (Some i) rid a \<and>
          D' = add_audit a (apply_posting P D))"

subsection \<open>The audit row\<close>

lemma money_numeric:
  assumes "money_like m" "numeric_fits (units m)"
  shows "numeric_20_4 (Money_Decimal m) = Inr (units m)"
proof (cases "money_ok m")
  case False
  with assms(1) have "m = Money_zero_value" by (simp add: money_like_def)
  then show ?thesis
    by (simp add: Money_zero_value_def Money_Decimal_def numeric_20_4_def numeric_scaled_def numeric_fits_def
        units_def Decimal_nil_def bigval_def)
qed (simp add: numeric_20_4_money assms(2))

lemma positive_money_ok: "money_like m \<Longrightarrow> 0 < units m \<Longrightarrow> money_ok m"
  by (auto simp: money_like_def units_def Money_zero_value_def Decimal_nil_def bigval_def)

lemma calm_WriteAudit:
  assumes "calm env" "auOutcome e \<in> {OutcomeSuccess, OutcomeFailure}"
    "\<And>m. auAmount e = Some m \<Longrightarrow> money_like m \<and> numeric_fits (units m)"
  obtains a where "WriteAudit env e w = (Inr (), w\<lparr>tick := tick w + 1, wdb := add_audit a (wdb w)\<rparr>)"
    "au_operation a = auOperation e" "au_from_account a = auFromAccount e" "au_to_account a = auToAccount e"
    "au_amount a = map_option units (auAmount e)" "au_outcome a = auOutcome e"
    "au_error_reason a = auErrorReason e" "au_transaction_id a = auTransactionID e" "au_request_id a = auRequestID e"
proof -
  let ?a = "\<lparr>au_id = nextval env (tick w), au_operation = auOperation e,
    au_from_account = auFromAccount e, au_to_account = auToAccount e, au_amount = map_option units (auAmount e),
    au_outcome = auOutcome e, au_error_reason = auErrorReason e, au_transaction_id = auTransactionID e,
    au_request_id = auRequestID e, au_created_at = micros (clock env (tick w))\<rparr>"
  have o: "auOutcome e \<in> {''SUCCESS'', ''FAILURE''}" using assms(2) by (auto simp: OutcomeSuccess_def OutcomeFailure_def)
  have "sql_insert_audit (nextval env (tick w)) e (micros (clock env (tick w))) (wdb w) = Inr (add_audit ?a (wdb w))"
    using o assms(3) by (cases "auAmount e") (simp_all add: sql_insert_audit_def add_audit_def money_numeric)
  then have "WriteAudit env e w = (Inr (), w\<lparr>tick := tick w + 1, wdb := add_audit ?a (wdb w)\<rparr>)"
    using assms(1) by (simp add: WriteAudit_def run_simps pool_call_def calmD)
  then show ?thesis by (rule that) simp_all
qed

lemma calm_fail:
  assumes "calm env" "\<And>m. amount = Some m \<Longrightarrow> money_like m \<and> numeric_fits (units m)"
  obtains a w' where "bindM (auditFailure (Store_Storer env) op f t amount rid e) (\<lambda>_. throwM e) w = (Inl e, w')"
    "wdb w' = add_audit a (wdb w)"
    "au_operation a = op" "au_from_account a = f" "au_to_account a = t" "au_amount a = map_option units amount"
    "au_outcome a = OutcomeFailure" "au_error_reason a = Some (err_msg e)" "au_transaction_id a = None"
    "au_request_id a = Some rid"
proof -
  let ?e = "\<lparr>auID = 0, auOperation = op, auFromAccount = f, auToAccount = t, auAmount = amount,
       auOutcome = OutcomeFailure, auErrorReason = Some (err_msg e), auTransactionID = None,
       auRequestID = Some rid, auCreatedAt = zero_time\<rparr>"
  obtain a where a: "WriteAudit env ?e w = (Inr (), w\<lparr>tick := tick w + 1, wdb := add_audit a (wdb w)\<rparr>)"
    "au_operation a = auOperation ?e" "au_from_account a = auFromAccount ?e" "au_to_account a = auToAccount ?e"
    "au_amount a = map_option units (auAmount ?e)" "au_outcome a = auOutcome ?e"
    "au_error_reason a = auErrorReason ?e" "au_transaction_id a = auTransactionID ?e" "au_request_id a = auRequestID ?e"
    by (rule calm_WriteAudit [OF assms(1), of ?e w]) (use assms(2) in auto)
  show ?thesis
    by (rule that [of "w\<lparr>tick := tick w + 1, wdb := add_audit a (wdb w)\<rparr>" a])
      (use a in \<open>simp_all add: auditFailure_def audit_def run_eval\<close>)
qed

lemma calm_fail_move:
  assumes "calm env" "money_like m" "numeric_fits (units m)"
  obtains a w' where "bindM (auditFailure (Store_Storer env) op (Some f) (Some t) (Some m) rid e) (\<lambda>_. throwM e) w = (Inl e, w')"
    "wdb w' = add_audit a (wdb w)" "audit_says op (Some (f, t, units m)) OutcomeFailure (Some (err_msg e)) None rid a"
  by (rule calm_fail [OF assms(1), of "Some m" op "Some f" "Some t" rid e w])
    (use assms(2, 3) that in \<open>auto simp: audit_says_def\<close>)

lemma calm_fail_none:
  assumes "calm env"
  obtains a w' where "bindM (auditFailure (Store_Storer env) op None None None rid e) (\<lambda>_. throwM e) w = (Inl e, w')"
    "wdb w' = add_audit a (wdb w)" "audit_says op None OutcomeFailure (Some (err_msg e)) None rid a"
  by (rule calm_fail [OF assms, of None op None None rid e w]) (use that in \<open>auto simp: audit_says_def\<close>)

lemma calm_succeed:
  assumes "calm env" "money_like m" "numeric_fits (units m)"
  obtains a w' where "bindM (auditSuccess (Store_Storer env) op (Some f) (Some t) (Some m) rid (Some i)) (\<lambda>_. returnM x) w = (Inr x, w')"
    "wdb w' = add_audit a (wdb w)" "audit_says op (Some (f, t, units m)) OutcomeSuccess None (Some i) rid a"
proof -
  let ?e = "\<lparr>auID = 0, auOperation = op, auFromAccount = Some f, auToAccount = Some t, auAmount = Some m,
       auOutcome = OutcomeSuccess, auErrorReason = None, auTransactionID = Some i,
       auRequestID = Some rid, auCreatedAt = zero_time\<rparr>"
  obtain a where a: "WriteAudit env ?e w = (Inr (), w\<lparr>tick := tick w + 1, wdb := add_audit a (wdb w)\<rparr>)"
    "au_operation a = auOperation ?e" "au_from_account a = auFromAccount ?e" "au_to_account a = auToAccount ?e"
    "au_amount a = map_option units (auAmount ?e)" "au_outcome a = auOutcome ?e"
    "au_error_reason a = auErrorReason ?e" "au_transaction_id a = auTransactionID ?e" "au_request_id a = auRequestID ?e"
    by (rule calm_WriteAudit [OF assms(1), of ?e w]) (use assms(2,3) in auto)
  show ?thesis
    by (rule that [of "w\<lparr>tick := tick w + 1, wdb := add_audit a (wdb w)\<rparr>" a])
      (use a in \<open>simp_all add: auditSuccess_def audit_def run_eval audit_says_def\<close>)
qed

subsection \<open>The transaction, decided\<close>

text \<open>The new balances and the amount fit their columns; the id drawn \<open>n\<close> interactions later is new.\<close>

definition room :: "UUID \<Rightarrow> UUID \<Rightarrow> int \<Rightarrow> db \<Rightarrow> bool" where
  "room from to amt D \<longleftrightarrow> numeric_fits amt \<and>
     (\<forall>r\<in>set (accounts D). (ar_id r = from \<longrightarrow> numeric_fits (ar_balance r - amt)) \<and>
        (ar_id r = to \<longrightarrow> numeric_fits (ar_balance r + amt)))"

definition fresh_id :: "env \<Rightarrow> world \<Rightarrow> nat \<Rightarrow> bool" where
  "fresh_id env w n \<longleftrightarrow>
     (case fst (UUID_NewV7 (lastV7time w) (clock env (tick w + n)) (random env (tick w + n))) of
        Inl _ \<Rightarrow> True | Inr i \<Rightarrow> i \<notin> tr_id ` set (transactions (wdb w)))"

lemma find_account_Some:
  assumes "ledger_ok D"
  shows "find_account i D = Some r \<longleftrightarrow> r \<in> set (accounts D) \<and> ar_id r = i"
proof
  show "find_account i D = Some r \<Longrightarrow> r \<in> set (accounts D) \<and> ar_id r = i"
    by (auto simp: find_account_def find_Some_iff)
  assume r: "r \<in> set (accounts D) \<and> ar_id r = i"
  then obtain r' where "find_account i D = Some r'"
    by (cases "find_account i D") (auto simp: find_account_def find_None_iff)
  moreover from this have "r' \<in> set (accounts D)" "ar_id r' = i" by (auto simp: find_account_def find_Some_iff)
  ultimately show "find_account i D = Some r" using unique_row [OF assms] r by metis
qed

lemma find_account_None: "find_account i D = None \<longleftrightarrow> i \<notin> ar_id ` set (accounts D)"
  by (auto simp: find_account_def find_None_iff)

lemma find_key_cases:
  "find_key key D = None \<longleftrightarrow> key \<notin> tr_idempotency_key ` set (transactions D)"
  "find_key key D = Some row \<Longrightarrow> row \<in> set (transactions D) \<and> tr_idempotency_key row = key"
  by (auto simp: find_key_def find_None_iff find_Some_iff)

lemma flow_refuse:
  assumes "calm env" "money_like m" "numeric_fits (units m)"
    and W: "WithTx env body w = (Inl e, w1)" "wdb w1 = wdb w" and e: "e \<noteq> ErrIdempotencyConflict"
    and run: "commit_flow (Store_Storer env) op from to m rid key i body w = (r, w')"
  shows "meets op mk (Some (from, to, units m)) rid (Refuse e) (wdb w) r (wdb w')"
proof -
  obtain a w2 where f: "bindM (auditFailure (Store_Storer env) op (Some from) (Some to) (Some m) rid e) (\<lambda>_. throwM e) w1 = (Inl e :: gerror + txres, w2)"
    "wdb w2 = add_audit a (wdb w1)" "audit_says op (Some (from, to, units m)) OutcomeFailure (Some (err_msg e)) None rid a"
    by (rule calm_fail_move [OF assms(1-3)])
  have "commit_flow (Store_Storer env) op from to m rid key i body w = (Inl e, w2)"
    using W(1) e f(1) by (simp add: commit_flow_def run_eval)
  with run f(2,3) W(2) show ?thesis by (auto simp: meets_def)
qed

lemma flow_post:
  assumes env: "calm env" "env_ok env" and L: "ledger_ok (wdb w)" and c: "can_post (mk i) from to amount (wdb w)"
    and ft: "(from, to) = (if swapped then (b, a) else (a, b))"
    and check: "check \<longleftrightarrow> from \<noteq> ExternalAccountID"
    and ins: "ins = InsertTransaction env \<or> ins = InsertReversalTransaction env"
    and run: "commit_flow (Store_Storer env) op from to amount rid key i
      (posting_tx (Store_Storer env) msg a b swapped check ins amount (mk i)) w = (r, w')"
  shows "meets op mk (Some (from, to, units amount)) rid Post (wdb w) r (wdb w')"
proof -
  let ?tx = "posting_tx (Store_Storer env) msg a b swapped check ins amount (mk i)"
  have m: "money_ok amount" "numeric_fits (units amount)" using c by (simp_all add: can_post_def)
  from calm_posting [OF env L ft c check ins] obtain w1 P where
    W: "WithTx env ?tx w = (Inr (posted_result (mk i) from to amount), w1)"
    and P: "posting_of (mk i) from to amount P" "posting_ok P (wdb w)" "wdb w1 = apply_posting P (wdb w)" by blast
  obtain a' w2 where a': "bindM (auditSuccess (Store_Storer env) op (Some from) (Some to) (Some amount) rid (Some i))
      (\<lambda>_. returnM (posted_result (mk i) from to amount)) w1 = (Inr (posted_result (mk i) from to amount), w2)"
    "wdb w2 = add_audit a' (wdb w1)" "audit_says op (Some (from, to, units amount)) OutcomeSuccess None (Some i) rid a'"
    by (rule calm_succeed [OF env(1) money_ok_like [OF m(1)] m(2)])
  have "commit_flow (Store_Storer env) op from to amount rid key i ?tx w = (Inr (posted_result (mk i) from to amount), w2)"
    using W a'(1) by (simp add: commit_flow_def run_eval)
  moreover have "of_units (units amount) = amount" using m(1) money_ok_eq by metis
  ultimately show ?thesis using run a'(2,3) P by (auto simp: meets_def)
qed

lemma flow_decided:
  assumes env: "calm env" "env_ok env" and L: "ledger_ok (wdb w)"
    and m: "money_ok amount" "0 < units amount" and rm: "room from to (units amount) (wdb w)"
    and ft: "(from, to) = (if swapped then (b, a) else (a, b))" "a \<noteq> b"
    and txn: "txn_ready (mk i) from to (units amount) (wdb w)" "tID (mk i) = i"
    and check: "check \<longleftrightarrow> from \<noteq> ExternalAccountID"
    and ins: "ins = InsertTransaction env \<or> ins = InsertReversalTransaction env"
    and uniq: "\<forall>ts. violated_unique (transaction_row_of (mk i) ts) (wdb w) = [] \<or>
      funds_verdict from to (units amount) (wdb w) \<noteq> Post"
    and run: "commit_flow (Store_Storer env) op from to amount rid key i
      (posting_tx (Store_Storer env) msg a b swapped check ins amount (mk i)) w = (r, w')"
  shows "meets op mk (Some (from, to, units amount)) rid
    (funds_verdict from to (units amount) (wdb w)) (wdb w) r (wdb w')"
proof -
  let ?D = "wdb w" and ?tx = "posting_tx (Store_Storer env) msg a b swapped check ins amount (mk i)"
  have fit: "numeric_fits (units amount)" using rm by (simp add: room_def)
  have fab: "{a, b} = {from, to}" "from \<noteq> to" using ft by (auto split: if_splits)
  note refuse = flow_refuse [OF env(1) money_ok_like [OF m(1)] fit _ _ _ run]
  show ?thesis
  proof (cases "find_account from ?D = None \<or> find_account to ?D = None")
    case True
    then have "a \<notin> ar_id ` set (accounts ?D) \<or> b \<notin> ar_id ` set (accounts ?D)"
      using fab(1) by (auto simp: find_account_None doubleton_eq_iff)
    then obtain w1 where "WithTx env ?tx w = (Inl ErrAccountNotFound, w1)" "wdb w1 = ?D"
      by (rule calm_missing [OF env L _ ft(2)])
    moreover have "funds_verdict from to (units amount) ?D = Refuse ErrAccountNotFound"
      using True by (auto simp: funds_verdict_def split: option.splits)
    ultimately show ?thesis using refuse by simp
  next
    case False
    then obtain rf rt where f: "find_account from ?D = Some rf" "find_account to ?D = Some rt" by auto
    then have rows: "rf \<in> set (accounts ?D)" "ar_id rf = from" "rt \<in> set (accounts ?D)" "ar_id rt = to"
      using find_account_Some [OF L] by auto
    have sys: "ar_is_system rf \<longleftrightarrow> from = ExternalAccountID"
      using rows(1,2) L by (auto simp: ledger_ok_def account_ok_def)
    define ra rb where "ra = (if swapped then rt else rf)" and "rb = (if swapped then rf else rt)"
    have r: "ra \<in> set (accounts ?D)" "ar_id ra = a" "rb \<in> set (accounts ?D)" "ar_id rb = b"
      "(if swapped then rb else ra) = rf"
      using rows ft by (auto simp: ra_def rb_def split: if_splits)
    show ?thesis
    proof (cases "from \<noteq> ExternalAccountID \<and> ar_balance rf < units amount")
      case True
      with check have c: "check" by simp
      have "ar_balance (if swapped then rb else ra) < units amount" using True r(5) by simp
      then obtain w1 where "WithTx env ?tx w = (Inl ErrInsufficientFunds, w1)" "wdb w1 = ?D"
        using calm_insufficient [OF env L m(1) r(1-4) ft(2)] c by (metis (full_types))
      moreover have "funds_verdict from to (units amount) ?D = Refuse ErrInsufficientFunds"
        using True f by (simp add: funds_verdict_def)
      ultimately show ?thesis using refuse by simp
    next
      case False
      then have v: "funds_verdict from to (units amount) ?D = Post" using f by (auto simp: funds_verdict_def)
      have "can_post (mk i) from to amount ?D"
        unfolding can_post_def using m fit fab(2) rows sys False rm uniq v txn(1)
        by (fastforce simp: room_def)
      from flow_post [where mk = mk and i = i, OF env L this ft(1) check ins run] v show ?thesis by simp
    qed
  qed
qed

subsection \<open>The operations\<close>

lemma fresh_drawn:
  assumes env: "calm env" "env_ok env" and fr: "fresh_id env w0 n" "lastV7time w = lastV7time w0"
      "tick w = tick w0 + n" "wdb w = wdb w0"
    and run: "bindM (mapErr g (NewV7 env)) f w = (r, w')"
  obtains i w1 where "f i w1 = (r, w')" "wdb w1 = wdb w0" "i \<notin> tr_id ` set (transactions (wdb w0))"
proof -
  obtain i t where N: "NewV7 env w = (Inr i, w\<lparr>lastV7time := t, tick := tick w + 1\<rparr>)"
    by (rule calm_NewV7 [OF env])
  then have "fst (UUID_NewV7 (lastV7time w) (clock env (tick w)) (random env (tick w))) = Inr i"
    by (cases "fst (UUID_NewV7 (lastV7time w) (clock env (tick w)) (random env (tick w)))")
      (auto simp: NewV7_def split: prod.splits)
  with fr have "i \<notin> tr_id ` set (transactions (wdb w0))" by (simp add: fresh_id_def)
  moreover have "f i (w\<lparr>lastV7time := t, tick := tick w + 1\<rparr>) = (r, w')"
    using run N by (simp add: run_eval)
  ultimately show ?thesis using that fr(4) by fastforce
qed

lemma key_replay:
  assumes env: "calm env" "env_ok env" and L: "ledger_ok (wdb w)" and k: "find_key key (wdb w) = Some row"
    and run: "bindM (tryM (GetTransactionByIdempotencyKey env key)) (\<lambda>found.
      case found of Inr existing \<Rightarrow> returnM existing | Inl e \<Rightarrow> rest e) w = (r, w')"
  shows "meets op mk move rid (Replay row) (wdb w) r (wdb w')"
proof -
  have row: "row \<in> set (transactions (wdb w))" "tr_idempotency_key row = key" using find_key_cases(2) [OF k] by auto
  obtain es where "GetTransactionByIdempotencyKey env key w =
      (Inr ((scanTransaction row)\<lparr>tEntries := es\<rparr>, es), w\<lparr>tick := tick w + 3\<rparr>)"
    "list_all2 entry_matches es (legs (tr_id row) (entries (wdb w)))"
    by (rule calm_key_found [OF env L row])
  then show ?thesis
    using run row by (auto simp: run_eval meets_def stored_def scanTransaction_def)
qed

lemma key_new:
  assumes "calm env" and k: "find_key key (wdb w) = None"
    and run: "bindM (tryM (GetTransactionByIdempotencyKey env key)) (\<lambda>found.
      case found of Inr existing \<Rightarrow> returnM existing | Inl e \<Rightarrow> rest e) w = (r, w')"
  shows "rest ErrTransactionNotFound (w\<lparr>tick := tick w + 1\<rparr>) = (r, w')"
  using run calm_key_missing [OF assms(1)] k by (simp add: find_key_cases run_eval)

lemma unique_new:
  assumes "i \<notin> tr_id ` set (transactions D)" "find_key key D = None"
    "rv = None \<or> rv \<notin> tr_reverses_transaction_id ` set (transactions D)"
  shows "violated_unique (transaction_row_of (mk_Transaction i kind key rv) ts) D = []"
  using assms by (auto simp: violated_unique_Nil transaction_row_of_def mk_Transaction_def find_key_cases)

text \<open>The conclusion of every case where the operation refuses before its transaction.\<close>

lemma refused_move:
  assumes "calm env" "money_like m" "numeric_fits (units m)"
    and run: "bindM (auditFailure (Store_Storer env) op (Some from) (Some to) (Some m) rid e) (\<lambda>_. throwM e) w = (r, w')"
  shows "meets op mk (Some (from, to, units m)) rid (Refuse e) (wdb w) r (wdb w')"
proof -
  obtain a w2 where "bindM (auditFailure (Store_Storer env) op (Some from) (Some to) (Some m) rid e) (\<lambda>_. throwM e) w = (Inl e :: gerror + txres, w2)"
    "wdb w2 = add_audit a (wdb w)" "audit_says op (Some (from, to, units m)) OutcomeFailure (Some (err_msg e)) None rid a"
    by (rule calm_fail_move [OF assms(1-3)])
  with run show ?thesis by (auto simp: meets_def)
qed

lemma refused_none:
  assumes "calm env"
    and run: "bindM (auditFailure (Store_Storer env) op None None None rid e) (\<lambda>_. throwM e) w = (r, w')"
  shows "meets op mk None rid (Refuse e) (wdb w) r (wdb w')"
proof -
  obtain a w2 where "bindM (auditFailure (Store_Storer env) op None None None rid e) (\<lambda>_. throwM e) w = (Inl e :: gerror + txres, w2)"
    "wdb w2 = add_audit a (wdb w)" "audit_says op None OutcomeFailure (Some (err_msg e)) None rid a"
    by (rule calm_fail_none [OF assms(1)])
  with run show ?thesis by (auto simp: meets_def)
qed

lemma Transfer_decided:
  assumes env: "calm env" "env_ok env" and L: "ledger_ok (wdb w)" and m: "money_like amount"
    and rm: "room src dst (units amount) (wdb w)" and fr: "fresh_id env w 1"
    and run: "Transfer env (Store_Storer env) src dst amount key rid w = (r, w')"
  shows "meets ''TRANSFER'' (\<lambda>i. mk_Transaction i KindTransfer key None) (Some (src, dst, units amount)) rid
    (Transfer_verdict src dst (units amount) key (wdb w)) (wdb w) r (wdb w')"
proof -
  let ?mk = "\<lambda>i. mk_Transaction i KindTransfer key None"
  have fit: "numeric_fits (units amount)" using rm by (simp add: room_def)
  note refuse = refused_move [OF env(1) m fit]
  have pos: "Money_IsPositive amount \<longleftrightarrow> 0 < units amount" using m by (simp add: Money_sign_units)
  show ?thesis
  proof (cases "0 < units amount \<and> src \<noteq> dst \<and> src \<noteq> ExternalAccountID \<and> dst \<noteq> ExternalAccountID")
    case False
    then show ?thesis
      using run refuse by (auto simp: Transfer_flow Let_def Transfer_verdict_def pos not_less split: if_splits)
  next
    case ok: True
    then have mo: "money_ok amount" using positive_money_ok [OF m] by simp
    have run': "bindM (tryM (GetTransactionByIdempotencyKey env key)) (\<lambda>found.
      case found of Inr existing \<Rightarrow> returnM existing | Inl e \<Rightarrow>
        bindM (mapErr (Wrap ''service.Transfer uuid'') (NewV7 env)) (\<lambda>txID.
            commit_flow (Store_Storer env) ''TRANSFER'' src dst amount rid key txID
              (Transfer_tx (Store_Storer env) src dst amount (?mk txID)))) w = (r, w')"
      using run ok by (simp add: Transfer_flow pos)
    show ?thesis
    proof (cases "find_key key (wdb w)")
      case (Some row)
      with key_replay [OF env L Some run'] ok show ?thesis by (simp add: Transfer_verdict_def)
    next
      case None
      from key_new [OF env(1) None run'] obtain i w1 where
        c: "commit_flow (Store_Storer env) ''TRANSFER'' src dst amount rid key i
              (Transfer_tx (Store_Storer env) src dst amount (?mk i)) w1 = (r, w')"
        and w1: "wdb w1 = wdb w" "i \<notin> tr_id ` set (transactions (wdb w))"
        by (rule fresh_drawn [OF env fr, rotated 3]) simp_all
      have "meets ''TRANSFER'' ?mk (Some (src, dst, units amount)) rid
          (funds_verdict src dst (units amount) (wdb w1)) (wdb w1) r (wdb w')"
        by (rule flow_decided [where mk = ?mk, OF env _ mo _ _ _ _ _ _ _ _ _ c [unfolded tx_shapes]])
          (use L ok rm w1 unique_new [OF w1(2) None] in \<open>auto simp: txn_ready_def mk_Transaction_def\<close>)
      with ok None w1(1) show ?thesis by (simp add: Transfer_verdict_def)
    qed
  qed
qed

lemma Deposit_decided:
  assumes env: "calm env" "env_ok env" and L: "ledger_ok (wdb w)" and m: "money_like amount"
    and rm: "room ExternalAccountID dst (units amount) (wdb w)" and fr: "fresh_id env w 1"
    and run: "Deposit env (Store_Storer env) dst amount key rid w = (r, w')"
  shows "meets ''DEPOSIT'' (\<lambda>i. mk_Transaction i KindDeposit key None) (Some (ExternalAccountID, dst, units amount)) rid
    (Deposit_verdict dst (units amount) key (wdb w)) (wdb w) r (wdb w')"
proof -
  let ?mk = "\<lambda>i. mk_Transaction i KindDeposit key None"
  have fit: "numeric_fits (units amount)" using rm by (simp add: room_def)
  note refuse = refused_move [OF env(1) m fit]
  have pos: "Money_IsPositive amount \<longleftrightarrow> 0 < units amount" using m by (simp add: Money_sign_units)
  show ?thesis
  proof (cases "0 < units amount \<and> dst \<noteq> ExternalAccountID")
    case False
    then show ?thesis
      using run refuse by (auto simp: Deposit_flow Let_def Deposit_verdict_def pos not_less split: if_splits)
  next
    case ok: True
    then have mo: "money_ok amount" using positive_money_ok [OF m] by simp
    have run': "bindM (tryM (GetTransactionByIdempotencyKey env key)) (\<lambda>found.
      case found of Inr existing \<Rightarrow> returnM existing | Inl e \<Rightarrow>
        bindM (mapErr (Wrap ''service.Deposit uuid'') (NewV7 env)) (\<lambda>txID.
            commit_flow (Store_Storer env) ''DEPOSIT'' ExternalAccountID dst amount rid key txID
              (Deposit_tx (Store_Storer env) dst amount (?mk txID)))) w = (r, w')"
      using run ok by (simp add: Deposit_flow pos)
    show ?thesis
    proof (cases "find_key key (wdb w)")
      case (Some row)
      with key_replay [OF env L Some run'] ok show ?thesis by (simp add: Deposit_verdict_def)
    next
      case None
      from key_new [OF env(1) None run'] obtain i w1 where
        c: "commit_flow (Store_Storer env) ''DEPOSIT'' ExternalAccountID dst amount rid key i
              (Deposit_tx (Store_Storer env) dst amount (?mk i)) w1 = (r, w')"
        and w1: "wdb w1 = wdb w" "i \<notin> tr_id ` set (transactions (wdb w))"
        by (rule fresh_drawn [OF env fr, rotated 3]) simp_all
      have "meets ''DEPOSIT'' ?mk (Some (ExternalAccountID, dst, units amount)) rid
          (funds_verdict ExternalAccountID dst (units amount) (wdb w1)) (wdb w1) r (wdb w')"
        by (rule flow_decided [where mk = ?mk, OF env _ mo _ _ _ _ _ _ _ _ _ c [unfolded tx_shapes]])
          (use L ok rm w1 unique_new [OF w1(2) None] in \<open>auto simp: txn_ready_def mk_Transaction_def\<close>)
      with ok None w1(1) show ?thesis by (simp add: Deposit_verdict_def)
    qed
  qed
qed

text \<open>A second reversal: every statement but the insert of the header succeeds.\<close>

lemma calm_insert_reversed:
  assumes env: "calm env" "env_ok env"
    and ids: "i \<notin> tr_id ` set (transactions (wdb w))" "find_key key (wdb w) = None"
    and twice: "Some orig \<in> tr_reverses_transaction_id ` set (transactions (wdb w))"
  shows "InsertReversalTransaction env (mk_Transaction i KindReversal key (Some orig)) w =
    (Inl ErrAlreadyReversed, w\<lparr>tick := tick w + 1\<rparr>)"
proof -
  let ?row = "transaction_row_of (mk_Transaction i KindReversal key (Some orig)) (tx_start w)"
  let ?name = "''transactions_reverses_transaction_id_key''"
  have vs: "violated_unique ?row (wdb w) = [?name]"
    using ids twice by (auto simp: violated_unique_def transaction_row_of_def mk_Transaction_def find_key_cases image_iff)
  then have "report env (violated_unique ?row (wdb w)) = ?name"
    using env_okD(4) [OF env(2), of "[?name]"] by simp
  then have "sql_insert_transaction (report env) ?row (wdb w) =
      Inl (unique_violation ?name (fst (unique_detail ?name ?row)) (snd (unique_detail ?name ?row)))"
    using vs by (simp add: sql_insert_transaction_def transaction_row_of_def mk_Transaction_def kind_check_def kind_defs
        Let_def case_prod_beta)
  then show ?thesis
    using env(1) by (simp add: InsertReversalTransaction_def exec_insert_transaction_def tx_call_def run_call_def calmD
        mapErr_def unique_violation_def pg_err_def pgErrUniqueViolation_def)
qed

lemma calm_insert_refused:
  assumes env: "calm env" "env_ok env" and L: "ledger_ok (wdb w)" and m: "money_ok amount" "0 < units amount"
    and rm: "room from to (units amount) (wdb w)" and v: "funds_verdict from to (units amount) (wdb w) = Post"
    and ft: "(from, to) = (if swapped then (b, a) else (a, b))" "a \<noteq> b"
    and check: "check \<longrightarrow> from \<noteq> ExternalAccountID"
    and ins: "\<And>w3. transactions (wdb w3) = transactions (wdb w) \<Longrightarrow> ins txn w3 = (Inl e, w3\<lparr>tick := tick w3 + 1\<rparr>)"
  obtains w' where "WithTx env (posting_tx (Store_Storer env) msg a b swapped check ins amount txn) w = (Inl e, w')"
    "wdb w' = wdb w"
proof (rule calm_refused [OF env(1)])
  fix w1 :: world assume w1: "wdb w1 = wdb w" "snap w1 = wdb w"
  obtain rf rt where "find_account from (wdb w) = Some rf" "find_account to (wdb w) = Some rt"
    and funds: "from \<noteq> ExternalAccountID \<longrightarrow> units amount \<le> ar_balance rf"
    using v by (auto simp: funds_verdict_def split: option.splits if_splits)
  then have rows: "rf \<in> set (accounts (wdb w))" "ar_id rf = from" "rt \<in> set (accounts (wdb w))" "ar_id rt = to"
    using find_account_Some [OF L] by auto
  define ra rb where rab: "ra = (if swapped then rt else rf)" "rb = (if swapped then rf else rt)"
  have r: "ra \<in> set (accounts (wdb w))" "ar_id ra = a" "rb \<in> set (accounts (wdb w))" "ar_id rb = b"
    using ft rows by (auto simp: rab split: if_splits)
  obtain locked where lock: "LockAccountsForUpdate env [a, b] w1 = (Inr locked, w1\<lparr>tick := tick w1 + 2\<rparr>)"
    "length locked = 2" "\<And>acc. pick_accounts a b locked acc = (account_of ra, account_of rb)"
    by (rule calm_locked [OF env _ _ _ r(2) _ r(4) ft(2), of w1]) (use L w1 r in auto)
  let ?w = "w1\<lparr>tick := tick w1 + 2\<rparr>" and ?f = "ar_balance rf - units amount" and ?t = "ar_balance rt + units amount"
  have sub: "Money_Sub (of_units (ar_balance rf)) amount = of_units ?f"
    and add: "Money_Add (of_units (ar_balance rt)) amount = of_units ?t"
    using Money_ops_of_units [of "of_units _" amount] m by simp_all
  have fits: "numeric_fits ?f" "numeric_fits ?t" using rm rows by (auto simp: room_def)
  have sysf: "0 \<le> ?f" if "x \<in> set (accounts (wdb w))" "ar_id x = from" "\<not> ar_is_system x" for x
    using that funds L by (auto simp: ledger_ok_def account_ok_def)
  obtain w2 where s1: "UpdateBalance env from (of_units ?f) ?w = (Inr (), w2)" "transactions (wdb w2) = transactions (wdb w)"
    "snap w2 = wdb w" "accounts (wdb w2) = map (set_balance from ?f (micros (clock env (tick ?w)))) (accounts (wdb w))"
    by (rule calm_update [OF env(1) fits(1), of ?w "from"]) (use sysf w1 in auto)
  have pos: "0 \<le> ?t" if "\<not> ar_is_system rt"
    using that rows(3) L m(2) by (auto simp: ledger_ok_def account_ok_def)
  have sys: "ar_is_system x = ar_is_system rt" if "x \<in> set (accounts (wdb w2))" "ar_id x = to" for x
    using that unique_row [OF L _ rows(3)] rows(4) by (auto simp: s1(4) set_balance_def split: if_splits)
  obtain w3 where s2: "UpdateBalance env to (of_units ?t) w2 = (Inr (), w3)"
      "transactions (wdb w3) = transactions (wdb w)" "snap w3 = wdb w"
    by (rule calm_update [OF env(1) fits(2), of w2 to]) (use pos sys s1 in auto)
  have "aBalance (account_of r) = of_units (ar_balance r)" for r by (simp add: account_of_def)
  moreover have c: "(check \<and> Money_LessThan (of_units (ar_balance rf)) amount) = False"
    using funds check m(1) by (auto simp: Money_cmp_units)
  ultimately show "\<exists>w2. posting_tx (Store_Storer env) msg a b swapped check ins amount txn w1 = (Inl e, w2) \<and> snap w2 = wdb w"
    using lock s1(1) s2 ins [OF s2(2)] ft(1)
    by (cases swapped) (simp_all only: posting_tx_def Store_Storer_sel Let_def run_eval fst_conv snd_conv
        prod.case if_True if_False sub add rab c prod.inject simp_thms not_False_eq_True, simp_all)
qed (use that in blast)

lemma find_tx_id:
  assumes "ledger_ok D"
  shows "find (\<lambda>t. tr_id t = i) (transactions D) = Some row \<longleftrightarrow> row \<in> set (transactions D) \<and> tr_id row = i"
proof
  show "find (\<lambda>t. tr_id t = i) (transactions D) = Some row \<Longrightarrow> row \<in> set (transactions D) \<and> tr_id row = i"
    by (auto simp: find_Some_iff)
  assume r: "row \<in> set (transactions D) \<and> tr_id row = i"
  then obtain r' where f: "find (\<lambda>t. tr_id t = i) (transactions D) = Some r'"
    by (cases "find (\<lambda>t. tr_id t = i) (transactions D)") (auto simp: find_None_iff)
  then have "r' \<in> set (transactions D)" "tr_id r' = i" by (auto simp: find_Some_iff)
  moreover have "inj_on tr_id (set (transactions D))" using assms by (simp add: ledger_ok_def keys_ok_def distinct_map)
  ultimately show "find (\<lambda>t. tr_id t = i) (transactions D) = Some row" using r f by (metis inj_onD)
qed

lemma calm_GetTransaction_missing:
  assumes "calm env" "i \<notin> tr_id ` set (transactions (wdb w))"
  shows "GetTransaction env i w = (Inl ErrTransactionNotFound, w\<lparr>tick := tick w + 1\<rparr>)"
proof -
  have "sql_transaction i (wdb w) = []"
    using assms(2) by (auto simp: sql_transaction_def filter_empty_conv)
  then have "pool_call env (query (\<lambda>k D. Inr (sql_transaction i D))) w = (Inr [], w\<lparr>tick := tick w + 1\<rparr>)"
    by (intro calm_pool_query [OF assms(1)]) simp
  then show ?thesis by (simp add: GetTransaction_def run_eval firstRow_def)
qed

text \<open>The transaction of a reversal, for a stored transfer with the legs \<open>d\<close> and \<open>c\<close>.\<close>

lemma reverse_flow_decided:
  assumes env: "calm env" "env_ok env" and L: "ledger_ok (wdb w)"
    and rm: "case reverse_move orig (wdb w) of None \<Rightarrow> True | Some (f, t, a) \<Rightarrow> room f t a (wdb w)"
    and None: "find_key key (wdb w) = None" and row: "t \<in> set (transactions (wdb w))" "tr_id t = orig"
    and True: "tr_kind t = KindTransfer" and dc: "legs (tr_id t) (entries (wdb w)) = [d, c]"
    and w1: "wdb w1 = wdb w" "i \<notin> tr_id ` set (transactions (wdb w))"
    and cf: "commit_flow (Store_Storer env) ''REVERSAL'' (er_account_id c) (er_account_id d) (of_units (er_amount d)) rid key i
      (Reverse_tx (Store_Storer env) (er_account_id d) (er_account_id c) (of_units (er_amount d))
        (mk_Transaction i KindReversal key (Some orig))) w1 = (r, w')"
  shows "meets ''REVERSAL'' (\<lambda>i. mk_Transaction i KindReversal key (Some orig)) (reverse_move orig (wdb w)) rid
    (Reverse_verdict orig key (wdb w)) (wdb w) r (wdb w')"
proof -
  let ?mk = "\<lambda>i. mk_Transaction i KindReversal key (Some orig)" and ?D = "wdb w"
  let ?s = "er_account_id d" and ?t = "er_account_id c" and ?m = "of_units (er_amount d)"
  let ?twice = "Some orig \<in> tr_reverses_transaction_id ` set (transactions ?D)"
  have find: "find (\<lambda>t. tr_id t = orig) (transactions ?D) = Some t" using find_tx_id [OF L] row by simp
  have mv: "reverse_move orig ?D = Some (?t, ?s, er_amount d)"
    using find True dc row(2) by (simp add: reverse_move_def)
  have rm': "room ?t ?s (er_amount d) ?D" using rm mv by simp
  have tok: "transaction_ok ?D t" using L row(1) by (simp add: ledger_ok_def)
  have ne: "?s \<noteq> ?t" "?t \<noteq> ExternalAccountID" using tok dc True by (auto simp: transaction_ok_def Let_def)
  have "d \<in> set (legs (tr_id t) (entries ?D))" using dc by simp
  then have "d \<in> set (entries ?D)" by (simp add: legs_def)
  then have pos: "0 < er_amount d" using L by (simp add: ledger_ok_def entry_ok_def)
  have ready: "txn_ready (?mk i) ?t ?s (er_amount d) ?D"
    using row dc True by (auto simp: txn_ready_def mk_Transaction_def)
  have verdict: "Reverse_verdict orig key ?D = (case funds_verdict ?t ?s (er_amount d) ?D of
      Post \<Rightarrow> if ?twice then Refuse ErrAlreadyReversed else Post | v \<Rightarrow> v)"
    using None find True dc row(2) by (simp add: Reverse_verdict_def split: verdict.split)
  show ?thesis
  proof (cases "?twice \<and> funds_verdict ?t ?s (er_amount d) ?D = Post")
    case again: True
    have w1': "ledger_ok (wdb w1)" "room ?t ?s (units ?m) (wdb w1)" "funds_verdict ?t ?s (units ?m) (wdb w1) = Post"
      using L w1 rm' again by simp_all
    have ins: "InsertReversalTransaction env (?mk i) w3 = (Inl ErrAlreadyReversed, w3\<lparr>tick := tick w3 + 1\<rparr>)"
      if "transactions (wdb w3) = transactions (wdb w1)" for w3
      by (rule calm_insert_reversed [OF env]) (use that again w1 None in \<open>simp_all add: find_key_def\<close>)
    obtain w2 where W: "WithTx env (posting_tx (Store_Storer env) ''service.Reverse lock'' ?s ?t True True
        (InsertReversalTransaction env) ?m (?mk i)) w1 = (Inl ErrAlreadyReversed, w2)" "wdb w2 = wdb w1"
      by (rule calm_insert_refused [OF env w1'(1) _ _ w1'(2,3), of True ?t ?s True "InsertReversalTransaction env" "?mk i"])
        (use pos ne ins in auto)
    have "meets ''REVERSAL'' ?mk (Some (?t, ?s, units ?m)) rid (Refuse ErrAlreadyReversed) (wdb w1) r (wdb w')"
      by (rule flow_refuse [OF env(1) _ _ W _ cf [unfolded tx_shapes Store_Storer_sel]])
        (use rm' in \<open>simp_all add: room_def\<close>)
    then show ?thesis using verdict again mv w1(1) by simp
  next
    case once: False
    have "meets ''REVERSAL'' ?mk (Some (?t, ?s, units ?m)) rid (funds_verdict ?t ?s (units ?m) (wdb w1)) (wdb w1) r (wdb w')"
      by (rule flow_decided [where mk = ?mk, OF env _ _ _ _ _ _ _ _ _ _ _ cf [unfolded tx_shapes]])
        (use L pos rm' ne ready w1 once unique_new [OF w1(2) None, of "Some orig"] in \<open>auto simp: mk_Transaction_def\<close>)
    then show ?thesis using verdict once mv w1(1) by (auto split: verdict.splits)
  qed
qed

lemma reverse_transfer_decided:
  assumes env: "calm env" "env_ok env" and L: "ledger_ok (wdb w)"
    and rm: "case reverse_move orig (wdb w) of None \<Rightarrow> True | Some (f, t, a) \<Rightarrow> room f t a (wdb w)"
    and fr: "fresh_id env w 4"
    and None: "find_key key (wdb w) = None" and row: "t \<in> set (transactions (wdb w))" "tr_id t = orig"
    and True: "tr_kind t = KindTransfer" and es: "list_all2 entry_matches es (legs (tr_id t) (entries (wdb w)))"
    and run: "(case find_legs es (UUID_Nil, UUID_Nil, Money_zero_value) of (s, t', m) \<Rightarrow>
      bindM (mapErr (Wrap ''service.Reverse uuid'') (NewV7 env)) (\<lambda>txID.
        commit_flow (Store_Storer env) ''REVERSAL'' t' s m rid key txID
          (Reverse_tx (Store_Storer env) s t' m (mk_Transaction txID KindReversal key (Some orig)))))
      (w\<lparr>tick := tick w + 4\<rparr>) = (r, w')"
  shows "meets ''REVERSAL'' (\<lambda>i. mk_Transaction i KindReversal key (Some orig)) (reverse_move orig (wdb w)) rid
    (Reverse_verdict orig key (wdb w)) (wdb w) r (wdb w')"
proof -
  let ?res = "((scanTransaction t)\<lparr>tEntries := es\<rparr>, es)"
  have st: "stored (wdb w) t ?res" using row es by (simp add: stored_def scanTransaction_def)
  have "tKind (fst ?res) = KindTransfer" using True by (simp add: scanTransaction_def)
  from L st this obtain d c where dc: "legs (tr_id t) (entries (wdb w)) = [d, c]"
    "find_legs (snd ?res) (UUID_Nil, UUID_Nil, Money_zero_value) = (er_account_id d, er_account_id c, of_units (er_amount d))"
    by (rule pg.stored_transfer_legs)
  obtain i w1 where
    cf: "commit_flow (Store_Storer env) ''REVERSAL'' (er_account_id c) (er_account_id d) (of_units (er_amount d)) rid key i
      (Reverse_tx (Store_Storer env) (er_account_id d) (er_account_id c) (of_units (er_amount d))
        (mk_Transaction i KindReversal key (Some orig))) w1 = (r, w')"
    and w1: "wdb w1 = wdb w" "i \<notin> tr_id ` set (transactions (wdb w))"
    using run dc(2) by (auto elim: fresh_drawn [OF env fr, rotated 3])
  from reverse_flow_decided [OF env L rm None row True dc(1) w1 cf] show ?thesis .
qed

lemma Reverse_decided:
  assumes env: "calm env" "env_ok env" and L: "ledger_ok (wdb w)"
    and rm: "case reverse_move orig (wdb w) of None \<Rightarrow> True | Some (f, t, a) \<Rightarrow> room f t a (wdb w)"
    and fr: "fresh_id env w 4"
    and run: "Reverse env (Store_Storer env) orig key rid w = (r, w')"
  shows "meets ''REVERSAL'' (\<lambda>i. mk_Transaction i KindReversal key (Some orig)) (reverse_move orig (wdb w)) rid
    (Reverse_verdict orig key (wdb w)) (wdb w) r (wdb w')"
proof (cases "find_key key (wdb w)")
  case (Some row)
  from key_replay [OF env L Some run [unfolded Reverse_flow Store_Storer_sel]] Some show ?thesis
    by (simp add: Reverse_verdict_def)
next
  case None
  let ?mk = "\<lambda>i. mk_Transaction i KindReversal key (Some orig)" and ?w = "w\<lparr>tick := tick w + 1\<rparr>" and ?D = "wdb w"
  let ?find = "find (\<lambda>t. tr_id t = orig) (transactions ?D)"
  note run' = key_new [OF env(1) None run [unfolded Reverse_flow Store_Storer_sel]]
  show ?thesis
  proof (cases ?find)
    case no: None
    then have "orig \<notin> tr_id ` set (transactions ?D)" by (auto simp: find_None_iff)
    then have "GetTransaction env orig ?w = (Inl ErrTransactionNotFound, ?w\<lparr>tick := tick ?w + 1\<rparr>)"
      by (intro calm_GetTransaction_missing [OF env(1)]) simp
    with run' have "bindM (auditFailure (Store_Storer env) ''REVERSAL'' None None None rid ErrTransactionNotFound)
        (\<lambda>_. throwM ErrTransactionNotFound) (?w\<lparr>tick := tick ?w + 1\<rparr>) = (r, w')"
      by (simp add: run_eval)
    from refused_none [OF env(1) this] None no show ?thesis
      by (simp add: Reverse_verdict_def reverse_move_def)
  next
    case t: (Some t)
    then have row: "t \<in> set (transactions ?D)" "tr_id t = orig" using find_tx_id [OF L] by auto
    obtain es where G: "GetTransaction env (tr_id t) ?w = (Inr ((scanTransaction t)\<lparr>tEntries := es\<rparr>, es), ?w\<lparr>tick := tick ?w + 3\<rparr>)"
      and es: "list_all2 entry_matches es (legs (tr_id t) (entries (wdb ?w)))"
      by (rule calm_GetTransaction [OF env, of ?w t]) (use L row in auto)
    let ?res = "((scanTransaction t)\<lparr>tEntries := es\<rparr>, es)" and ?w4 = "?w\<lparr>tick := tick ?w + 3\<rparr>"
    show ?thesis
    proof (cases "tr_kind t = KindTransfer")
      case False
      with run' G row(2) have "bindM (auditFailure (Store_Storer env) ''REVERSAL'' None None None rid ErrNotReversible)
          (\<lambda>_. throwM ErrNotReversible) ?w4 = (r, w')"
        by (simp add: run_eval scanTransaction_def)
      from refused_none [OF env(1) this] None t False show ?thesis
        by (simp add: Reverse_verdict_def reverse_move_def)
    next
      case True
      show ?thesis
        by (rule reverse_transfer_decided [OF env L rm fr None row True, of es])
          (use run' G row(2) True es in \<open>simp_all add: run_eval scanTransaction_def case_prod_beta add.commute [of 4]\<close>)
    qed
  qed
qed

end
