(* ===== verification/Sample.thy ===== *)
theory Sample
  imports Outcomes
begin

text \<open>
  A concrete environment and a concrete starting state, in which the properties are instantiated: a
  quiet server on the seeded database, a clock that stands still, a random source that always returns
  the same bytes. It shows that what the theorems assume of the surroundings can hold.
\<close>

definition sample_env :: env where
  "sample_env = \<lparr>fate = (\<lambda>_. Proceed), others = (\<lambda>_ D. D), clock = (\<lambda>_. 1700000000000000000),
     random = (\<lambda>_. Inr [1, 2, 3, 4, 5, 6, 7, 8, 9, 10, 11, 12, 13, 14, 15, 16]), numeric_send = five_digit_send,
     collation = (\<lambda>s. s), plan_accounts = (\<lambda>_ xs. xs), plan_transactions = (\<lambda>_ xs. xs),
     plan_audit = (\<lambda>_ xs. xs), report = hd, nextval = (\<lambda>k. 7 + int k)\<rparr>"

definition sample_world :: world where
  "sample_world = \<lparr>wdb = seed_db 0, snap = seed_db 0, pending = [], tx_start = 0, tick = 0, lastV7time = 0\<rparr>"

lemma sample_env_ok: "env_ok sample_env"
  by (simp add: env_ok_def sample_env_def five_digit_send_msg numeric_fits_def strict_mono_def inj_on_def)

lemma sample_calm: "calm sample_env"
  by (simp add: calm_def alone_def sample_env_def)

lemma sample_ledger: "ledger_ok (wdb sample_world)"
  by (simp add: sample_world_def seed_ledger_ok)

lemma sample_id:
  "fst (UUID_NewV7 (lastV7time sample_world) (clock sample_env k) (random sample_env k)) =
     Inr [1, 139, 207, 229, 104, 0, 112, 0, 137, 10, 11, 12, 13, 14, 15, 16]"
  unfolding sample_world_def sample_env_def
  by code_simp

lemma sample_fresh: "fresh_id sample_env sample_world n"
  by (simp add: fresh_id_def sample_id) (simp add: sample_world_def seed_db_eq seed_ids)

text \<open>One unit of currency, and the state after Alice has sent it to Bob.\<close>

definition one :: Money where
  "one = of_units 10000"

lemma one_like [simp]: "money_like one" "units one = 10000"
  by (simp_all add: one_def)

lemma sample_room:
  "room alice_id bob_id 10000 (wdb sample_world)" "room ExternalAccountID bob_id 10000 (wdb sample_world)"
  by (simp_all add: room_def sample_world_def seed_db_eq numeric_fits_def)

lemma sample_verdicts:
  "Transfer_verdict alice_id bob_id 10000 ''k1'' (wdb sample_world) = Post"
  "Transfer_verdict alice_id bob_id 10000000000 ''k1'' (wdb sample_world) = Refuse ErrInsufficientFunds"
  "Deposit_verdict bob_id 10000 ''k1'' (wdb sample_world) = Post"
  "Reverse_verdict seed_tx1 ''k1'' (wdb sample_world) = Refuse ErrNotReversible"
  by (simp_all add: Transfer_verdict_def Deposit_verdict_def Reverse_verdict_def funds_verdict_def find_key_def
      find_account_def sample_world_def seed_db_eq seed_neq kind_defs external_id_eq [symmetric])

text \<open>The state after Alice has sent Bob one unit under the key \<open>k0\<close>.\<close>

definition paid_id :: UUID where
  "paid_id = [1, 2, 3, 4, 5, 6, 7, 8, 9, 10, 11, 12, 13, 14, 15, 16]"

definition paid :: posting where
  "paid = \<lparr>p_txn = \<lparr>tr_id = paid_id, tr_kind = KindTransfer, tr_idempotency_key = ''k0'',
     tr_reverses_transaction_id = None, tr_created_at = 1\<rparr>, p_src = alice_id, p_dst = bob_id, p_amount = 10000,
     p_debit_id = 7, p_credit_id = 8, p_src_at = 1, p_dst_at = 1, p_at = 1\<rparr>"

definition paid_world :: world where
  "paid_world = sample_world\<lparr>wdb := apply_posting paid (seed_db 0), snap := apply_posting paid (seed_db 0)\<rparr>"

lemma paid_id_neq:
  "paid_id \<noteq> seed_tx1" "paid_id \<noteq> seed_tx2" "paid_id \<noteq> seed_tx3"
  "seed_tx1 \<noteq> paid_id" "seed_tx2 \<noteq> paid_id" "seed_tx3 \<noteq> paid_id"
  by (simp_all add: paid_id_def seed_ids)

lemma paid_ok: "posting_ok paid (seed_db 0)"
proof -
  have "violated_unique (p_txn paid) (seed_db 0) = []"
    using paid_id_neq by (simp add: violated_unique_def paid_def seed_db_eq)
  then show ?thesis
    by (simp add: posting_ok_def paid_def kind_ok_def seed_db_eq numeric_fits_def seed_neq kind_defs
        external_id_eq [symmetric])
qed

lemma paid_ledger: "ledger_ok (wdb paid_world)"
  using ledger_ok_posting [OF seed_ledger_ok paid_ok] by (simp add: paid_world_def)

lemma paid_db:
  "wdb paid_world = apply_posting paid (seed_db 0)" "lastV7time paid_world = lastV7time sample_world"
  by (simp_all add: paid_world_def)

lemma paid_fresh: "fresh_id sample_env paid_world n"
proof -
  have "fst (UUID_NewV7 (lastV7time paid_world) (clock sample_env k) (random sample_env k)) =
      Inr [1, 139, 207, 229, 104, 0, 112, 0, 137, 10, 11, 12, 13, 14, 15, 16]" for k
    using sample_id by (simp add: paid_db)
  then show ?thesis
    by (simp add: fresh_id_def paid_db) (simp add: paid_def paid_id_def seed_db_eq seed_ids)
qed

lemma paid_move: "reverse_move paid_id (wdb paid_world) = Some (bob_id, alice_id, 10000)"
  using paid_id_neq
  by (simp add: reverse_move_def paid_db legs_def seed_db_eq paid_def debit_leg_def credit_leg_def kind_defs)

lemma paid_room: "room bob_id alice_id 10000 (wdb paid_world)" "room alice_id bob_id 10000 (wdb paid_world)"
  by (simp_all add: room_def paid_db seed_db_eq numeric_fits_def move_row_def paid_def seed_neq)

lemma paid_verdict:
  "Reverse_verdict paid_id ''k1'' (wdb paid_world) = Post"
  "Transfer_verdict alice_id bob_id 10000 ''k0'' (wdb paid_world) = Replay (p_txn paid)"
  using paid_id_neq
  by (simp_all add: Reverse_verdict_def Transfer_verdict_def funds_verdict_def find_key_def find_account_def paid_db
      legs_def seed_db_eq paid_def debit_leg_def credit_leg_def kind_defs move_row_def seed_neq
      external_id_eq [symmetric])

end
