(* ===== verification/Guarantees.thy ===== *)
theory Guarantees
  imports Handlers
begin

text \<open>
  What holds whatever fails and whatever other clients do: an idempotency key belongs to one
  transaction, whichever operation it was given to; a reversal cancels its original leg by leg and
  there is at most one; every request is answered; reads write nothing. Another instance of this
  server is a client that keeps the ledger correct.
\<close>

subsection \<open>Keys\<close>

text \<open>The operations that take an idempotency key, with amounts as the handlers produce them.\<close>

definition keyed_op :: "env \<Rightarrow> string \<Rightarrow> txres M \<Rightarrow> bool" where
  "keyed_op env key m \<longleftrightarrow>
     (\<exists>src dst amount rid. money_like amount \<and> m = Transfer env (Store_Storer env) src dst amount key rid) \<or>
     (\<exists>dst amount rid. money_like amount \<and> m = Deposit env (Store_Storer env) dst amount key rid) \<or>
     (\<exists>orig rid. m = Reverse env (Store_Storer env) orig key rid)"

lemma keyed_outcome:
  assumes "env_ok env" "ledger_ok (wdb w)" "keyed_op env key m" "m w = (r, w')"
  obtains txn f t a where "op_outcome rely txn f t a (wdb w) r (wdb w')" "tIdempotencyKey txn = key"
proof -
  have k: "tIdempotencyKey (mk_Transaction i kind key rv) = key" for i kind rv by (simp add: mk_Transaction_def)
  from assms(3) consider
      (transfer) src dst amount rid where "money_like amount" "m = Transfer env (Store_Storer env) src dst amount key rid"
    | (deposit) dst amount rid where "money_like amount" "m = Deposit env (Store_Storer env) dst amount key rid"
    | (reverse) orig rid where "m = Reverse env (Store_Storer env) orig key rid"
    unfolding keyed_op_def by blast
  then show ?thesis
  proof cases
    case transfer
    with pg.Transfer_outcome [OF assms(1,2), of amount] assms(4) that k show ?thesis by blast
  next
    case deposit
    with pg.Deposit_outcome [OF assms(1,2), of amount] assms(4) that k show ?thesis by blast
  next
    case reverse
    with pg.Reverse_outcome [OF assms(1,2)] assms(4) that k show ?thesis by blast
  qed
qed

lemma outcome_row:
  assumes "op_outcome rely txn from to amount D0 (Inr res) D1" "ledger_ok D0"
  obtains row where "row \<in> set (transactions D1)" "tr_id row = tID (fst res)" "tr_idempotency_key row = tIdempotencyKey txn"
proof -
  from assms(1) consider
      row where "stored D1 row res" "tr_idempotency_key row = tIdempotencyKey txn"
    | D P where "rely D0 D" "posting_of txn from to amount P" "posting_ok P D" "rely (apply_posting P D) D1"
        "res = posted_result txn from to amount"
    unfolding op_outcome_def by blast
  then show ?thesis
  proof cases
    case 1
    then show ?thesis by (intro that [of row]) (auto simp: stored_def)
  next
    case 2
    then have "ledger_ok (apply_posting P D)" using assms(2) relyD(1) ledger_ok_posting by metis
    then have "p_txn P \<in> set (transactions D1)" using relyD(2) [OF 2(4), of "p_txn P"] by simp
    with 2 show ?thesis by (intro that [of "p_txn P"]) (auto simp: posting_of_def posted_result_def)
  qed
qed

lemma outcome_rely: "op_outcome rely txn from to amount D0 r D1 \<Longrightarrow> rely D0 D1"
  by (erule op_outcome_rely)

lemma unique_key:
  "ledger_ok D \<Longrightarrow> t \<in> set (transactions D) \<Longrightarrow> t' \<in> set (transactions D) \<Longrightarrow>
    tr_idempotency_key t = tr_idempotency_key t' \<Longrightarrow> t = t'"
  unfolding ledger_ok_def keys_ok_def distinct_map by (metis inj_onD)

lemma key_once:
  assumes L: "ledger_ok D0" and o1: "op_outcome rely txn1 f1 t1 m1 D0 (Inr res1) D1" and R: "rely D1 D2"
    and o2: "op_outcome rely txn2 f2 t2 m2 D2 (Inr res2) D3" and key: "tIdempotencyKey txn1 = tIdempotencyKey txn2"
  shows "tID (fst res2) = tID (fst res1) \<and> rely D2 D3 \<and>
    (\<forall>t\<in>set (transactions D3). tr_idempotency_key t = tIdempotencyKey txn1 \<longrightarrow> t \<in> set (transactions D1))"
proof -
  have L1: "ledger_ok D1" using relyD(1) [OF outcome_rely [OF o1] L] .
  have R13: "rely D1 D3" using rely_trans [OF R outcome_rely [OF o2]] .
  have L2: "ledger_ok D2" and L3: "ledger_ok D3" using relyD(1) [OF R L1] relyD(1) [OF R13 L1] .
  obtain a where a: "a \<in> set (transactions D1)" "tr_id a = tID (fst res1)" "tr_idempotency_key a = tIdempotencyKey txn1"
    using outcome_row [OF o1 L] by blast
  obtain b where b: "b \<in> set (transactions D3)" "tr_id b = tID (fst res2)" "tr_idempotency_key b = tIdempotencyKey txn2"
    using outcome_row [OF o2 L2] by blast
  have a3: "a \<in> set (transactions D3)" using relyD(2) [OF R13 L1 a(1)] .
  have "t = a" if "t \<in> set (transactions D3)" "tr_idempotency_key t = tIdempotencyKey txn1" for t
    using unique_key [OF L3 that(1) a3] that(2) a(3) by simp
  with a b key outcome_rely [OF o2] show ?thesis by metis
qed

subsection \<open>Reversals\<close>

lemma account_net_two:
  "account_net a [d, c] = (if er_account_id d = a then signed d else 0) + (if er_account_id c = a then signed c else 0)"
  by (simp add: account_net_def)

lemma reversal_cancels:
  assumes L: "ledger_ok D" and t: "t \<in> set (transactions D)" "tr_reverses_transaction_id t = Some i"
  shows "\<exists>orig\<in>set (transactions D). tr_id orig = i \<and> tr_kind orig = KindTransfer \<and>
      (\<forall>a. account_net a (legs i (entries D)) + account_net a (legs (tr_id t) (entries D)) = 0)"
    and "t' \<in> set (transactions D) \<Longrightarrow> tr_reverses_transaction_id t' = Some i \<Longrightarrow> t' = t"
proof -
  have "transaction_ok D t" using L t by (simp add: ledger_ok_def)
  then obtain orig where o: "orig \<in> set (transactions D)" "tr_id orig = i" "tr_kind orig = KindTransfer"
    "mirrored (legs i (entries D)) (legs (tr_id t) (entries D))" and t2: "two_legs (legs (tr_id t) (entries D))"
    using t(2) by (auto simp: transaction_ok_def Let_def)
  have "two_legs (legs i (entries D))" using L o(1,2) by (auto simp: ledger_ok_def transaction_ok_def Let_def)
  with t2 o(4) have "account_net a (legs i (entries D)) + account_net a (legs (tr_id t) (entries D)) = 0" for a
    by (elim two_legs_cases) (auto simp: account_net_two signed_def direction_defs)
  with o show "\<exists>orig\<in>set (transactions D). tr_id orig = i \<and> tr_kind orig = KindTransfer \<and>
      (\<forall>a. account_net a (legs i (entries D)) + account_net a (legs (tr_id t) (entries D)) = 0)" by blast
  assume t': "t' \<in> set (transactions D)" "tr_reverses_transaction_id t' = Some i"
  have "distinct (filter (\<lambda>r. r \<noteq> None) (map tr_reverses_transaction_id (transactions D)))"
    using L by (simp add: ledger_ok_def keys_ok_def)
  with t t' show "t' = t"
    by (auto simp: filter_map distinct_map inj_on_def)
qed

subsection \<open>Reads\<close>

text \<open>With no other client, the database a read leaves is the one it found.\<close>

interpretation ieq: interference alone "(=)"
  by unfold_locales (simp_all add: alone_def)

lemma GET_keeps:
  assumes "alone env" "is_get (r_method r)"
  shows "keeps (lift_db (=)) (serve env r)"
proof -
  have "RegisterRoutes (r_method r) p \<notin> {Inr CreateAccountR, Inr TransferR, Inr DepositR} \<and>
      RegisterRoutes (r_method r) p \<noteq> Inr (ReverseR i)" for p i
    using assms(2) by (auto simp: RegisterRoutes_def is_get_def split: list.splits)
  moreover have "keeps (lift_db (=)) (listAccounts env r)" "keeps (lift_db (=)) (getAccount env i r)"
    "keeps (lift_db (=)) (listTransactions env i r)" "keeps (lift_db (=)) (listAllTransactions env r)"
    "keeps (lift_db (=)) (listAudit env i r)" for i
    unfolding listAccounts_def getAccount_def listTransactions_def listAllTransactions_def listAudit_def Let_def
    by (auto intro!: ieq.keeps_intros ieq.query_keeps [OF assms(1)] split: sum.splits)
  ultimately show ?thesis
    unfolding serve_def Let_def by (auto intro!: ieq.keeps_pure split: sum.splits route.splits)
qed

subsection \<open>Every request is answered\<close>

definition yields :: "('a \<Rightarrow> bool) \<Rightarrow> 'a M \<Rightarrow> bool" where
  "yields P m \<longleftrightarrow> (\<forall>w. \<exists>x. fst (m w) = Inr x \<and> P x)"

lemma yields_return: "P x \<Longrightarrow> yields P (returnM x)"
  by (simp add: yields_def returnM_def)

lemma yields_try: "yields (\<lambda>_. True) (tryM m)"
  by (auto simp: yields_def tryM_def split: prod.splits)

lemma yields_bind: "yields Q m \<Longrightarrow> (\<And>x. Q x \<Longrightarrow> yields P (f x)) \<Longrightarrow> yields P (bindM m f)"
  unfolding yields_def bindM_def by (auto split: prod.splits sum.splits) (metis fst_conv sum.sel(2) sum.disc)+

lemma yields_tried: "(\<And>res. P (g res)) \<Longrightarrow> yields P (bindM (tryM m) (\<lambda>res. returnM (g res)))"
  by (rule yields_bind [OF yields_try]) (simp add: yields_return)

text \<open>The statuses of the API.\<close>

definition known_status :: "response \<Rightarrow> bool" where
  "known_status resp \<longleftrightarrow> status resp \<in> {200, 201, 400, 404, 405, 409, 422, 500}"

lemma mapError_status: "status (mapError e) \<in> {404, 409, 422, 500}"
  by (simp add: mapError_def writeError_def writeJSON_def internalError_def)

lemma known_responses:
  "known_status (mapError e)" "known_status (internalError e)"
  "s \<in> {200, 201, 400, 404, 405, 409, 422, 500} \<Longrightarrow> known_status (writeJSON s p)"
  "s \<in> {200, 201, 400, 404, 405, 409, 422, 500} \<Longrightarrow> known_status (writeError s c t)"
  using mapError_status [of e] by (auto simp: known_status_def internalError_def writeError_def writeJSON_def)

lemma parse_status:
  "parseUUID s = Inl resp \<Longrightarrow> known_status resp" "parseUUIDField s f = Inl resp \<Longrightarrow> known_status resp"
  by (auto simp: parseUUID_def parseUUIDField_def intro!: known_responses split: sum.splits if_splits)

lemma resolveRequestID_db: "resolveRequestID env r w = (x, w') \<Longrightarrow> wdb w' = wdb w"
  by (auto simp: resolveRequestID_def Let_def bindM_def tryM_def returnM_def NewM_def panicM_def throwM_def
      NewV7_def split: if_splits prod.splits sum.splits option.splits)

lemma resolveRequestID_yields:
  assumes "\<And>k. \<exists>b. random env k = Inr b"
  shows "yields (\<lambda>_. True) (resolveRequestID env r)"
  unfolding yields_def
proof
  fix w :: world
  obtain b where b: "random env (tick w) = Inr b" using assms by blast
  obtain i t where "UUID_NewV7 (lastV7time w) (clock env (tick w)) (Inr b) = (Inr i, t)"
    by (cases "getV7Time (lastV7time w) (clock env (tick w))")
      (simp add: UUID_NewV7_def NewRandomFromReader_def)
  with b have "NewV7 env w = (Inr i, w\<lparr>lastV7time := t, tick := tick w + 1\<rparr>)" by (simp add: NewV7_def)
  then show "\<exists>x. fst (resolveRequestID env r w) = Inr x \<and> True"
    by (simp add: resolveRequestID_def Let_def run_eval)
qed

lemma handlers_yield:
  assumes "\<And>k. \<exists>b. random env k = Inr b"
  shows "yields known_status (listAccounts env r)" "yields known_status (createAccount env r)"
    "yields known_status (getAccount env i r)" "yields known_status (createTransfer env S r)"
    "yields known_status (reverseTransfer env S i r)" "yields known_status (createDeposit env S r)"
    "yields known_status (listTransactions env i r)" "yields known_status (listAllTransactions env r)"
    "yields known_status (listAudit env i r)"
  unfolding listAccounts_def createAccount_def getAccount_def createTransfer_def reverseTransfer_def
    createDeposit_def listTransactions_def listAllTransactions_def listAudit_def Let_def
  by (auto intro!: yields_tried yields_return yields_bind [OF resolveRequestID_yields [OF assms]] known_responses
      dest: parse_status split: option.splits sum.splits)

lemma serve_yields:
  assumes "\<And>k. \<exists>b. random env k = Inr b"
  shows "yields known_status (serve env r)"
proof -
  have "st \<in> {404, 405}" if "RegisterRoutes m p = Inl st" for st m p
    using that by (auto simp: RegisterRoutes_def split: if_splits list.splits)
  then show ?thesis
    unfolding serve_def Let_def
    by (auto intro!: handlers_yield [OF assms] yields_return known_responses split: sum.splits route.splits)
qed

subsection \<open>Other instances\<close>

text \<open>What another instance of the server has done to the database \<open>D\<close> with the requests it was given.\<close>

definition instance_effect :: "env \<Rightarrow> request list \<Rightarrow> int \<Rightarrow> db \<Rightarrow> db" where
  "instance_effect env rs t0 D =
     wdb (snd (serve_all env rs \<lparr>wdb = D, snap = D, pending = [], tx_start = 0, tick = 0, lastV7time = t0\<rparr>))"

lemma instance_rely: "env_ok env \<Longrightarrow> rely D (instance_effect env rs t0 D)"
  unfolding instance_effect_def
  by (metis (no_types, lifting) serve_all_keeps prod.collapse world.select_convs(1))

lemma env_ok_instances:
  assumes "env_ok env" "\<And>k. env_ok (inst k)"
  shows "env_ok (env\<lparr>others := (\<lambda>k. instance_effect (inst k) (reqs k) (t0 k))\<rparr>)"
  using assms instance_rely by (simp add: env_ok_def)

end
