(* ===== verification/Locking.thy ===== *)
theory Locking
  imports Sample Guarantees "HOL-Library.Product_Lexorder"
begin

text \<open>
  Concurrent transactions and the locks they take. A posting locks its two account rows, in the order
  of the text of their ids (\<^verbatim>\<open>ORDER BY id::text ... FOR UPDATE\<close> of \<^verbatim>\<open>LockAccountsForUpdate\<close>); its INSERT then
  enters its key, and the reversed transaction if it is a reversal, into the unique indexes, where a
  second transaction with the same value waits for the first to end. All locks are kept to the end of
  the transaction. The step relation interleaves any number of such transactions, which may also be
  rolled back at any moment. When every transaction takes its locks in increasing order (the contract
  of locale \<open>ordered_locks\<close>), no two ever hold the same lock, some transaction can always go on without
  another being rolled back, and every interleaving ends.
\<close>

subsection \<open>Interleaved transactions\<close>

text \<open>A transaction: the locks it holds and those it still has to take. The second rule is its end.\<close>

type_synonym 'r locker = "'r list \<times> 'r list"

inductive lock_step :: "'r locker list \<Rightarrow> 'r locker list \<Rightarrow> bool" where
  acquire: "k < length S \<Longrightarrow> S ! k = (h, r # t) \<Longrightarrow> \<forall>j<length S. j \<noteq> k \<longrightarrow> r \<notin> set (fst (S ! j)) \<Longrightarrow>
    lock_step S (S[k := (h @ [r], t)])"
| finish: "k < length S \<Longrightarrow> S ! k = (h, []) \<Longrightarrow> h \<noteq> [] \<Longrightarrow> lock_step S (S[k := ([], [])])"

text \<open>A transaction that fails is rolled back, wherever it is.\<close>

inductive tx_step :: "'r locker list \<Rightarrow> 'r locker list \<Rightarrow> bool" where
  proceed: "lock_step S S' \<Longrightarrow> tx_step S S'"
| abort: "k < length S \<Longrightarrow> S ! k \<noteq> ([], []) \<Longrightarrow> tx_step S (S[k := ([], [])])"

definition start_locks :: "'r list list \<Rightarrow> 'r locker list" where
  "start_locks plans = map (\<lambda>p. ([], p)) plans"

definition all_done :: "'r locker list \<Rightarrow> bool" where
  "all_done S \<longleftrightarrow> (\<forall>x\<in>set S. x = ([], []))"

definition exclusive :: "'r locker list \<Rightarrow> bool" where
  "exclusive S \<longleftrightarrow> (\<forall>j<length S. \<forall>k<length S. j \<noteq> k \<longrightarrow> set (fst (S ! j)) \<inter> set (fst (S ! k)) = {})"

text \<open>Two transactions that lock the same rows in opposite orders can block each other for good.\<close>

lemma opposite_orders_deadlock:
  assumes "a \<noteq> b"
  shows "\<exists>S. lock_step\<^sup>*\<^sup>* (start_locks [[a, b], [b, a]]) S \<and> \<not> all_done S \<and> (\<forall>S'. \<not> lock_step S S')"
proof -
  let ?S0 = "[([], [a, b]), ([], [b, a])]" and ?S1 = "[([a], [b]), ([], [b, a])]" and ?S2 = "[([a], [b]), ([b], [a])]"
  have "lock_step ?S0 (?S0[0 := ([] @ [a], [b])])" by (rule acquire) (auto simp: less_Suc_eq)
  moreover have "lock_step ?S1 (?S1[1 := ([] @ [b], [a])])"
    by (rule acquire) (use assms in \<open>auto simp: less_Suc_eq\<close>)
  ultimately have "lock_step\<^sup>*\<^sup>* ?S0 ?S2" by (simp add: rtranclp.rtrancl_into_rtrancl)
  moreover have "\<not> lock_step ?S2 S'" for S'
    by (auto elim!: lock_step.cases simp: less_Suc_eq nth_Cons' all_conj_distrib split: if_splits)
  ultimately show ?thesis
    by (intro exI [of _ ?S2]) (auto simp: start_locks_def all_done_def)
qed

subsection \<open>Every interleaving ends\<close>

definition locks_left :: "'r locker list \<Rightarrow> nat" where
  "locks_left S = (\<Sum>x\<leftarrow>S. 2 * length (snd x) + (if fst x = [] then 0 else 1))"

lemma sum_list_update_less:
  fixes f :: "'a \<Rightarrow> nat"
  assumes "k < length xs" "f y < f (xs ! k)"
  shows "(\<Sum>x\<leftarrow>xs[k := y]. f x) < (\<Sum>x\<leftarrow>xs. f x)"
  using assms by (induction xs arbitrary: k) (auto split: nat.splits)

lemma lock_step_decreases: "lock_step S S' \<Longrightarrow> locks_left S' < locks_left S"
  unfolding locks_left_def by (induction rule: lock_step.induct) (auto intro!: sum_list_update_less)

lemma tx_step_decreases: "tx_step S S' \<Longrightarrow> locks_left S' < locks_left S"
proof (induction rule: tx_step.induct)
  case (abort k S)
  have "0 < 2 * length (snd (S ! k)) + (if fst (S ! k) = [] then 0 else 1)"
    using abort(2) by (cases "S ! k") auto
  then show ?case unfolding locks_left_def by (intro sum_list_update_less abort) simp
qed (rule lock_step_decreases)

lemma tx_steps_bounded: "(tx_step ^^ n) S S' \<Longrightarrow> n + locks_left S' \<le> locks_left S"
proof (induction n arbitrary: S')
  case (Suc n)
  then obtain T where "(tx_step ^^ n) S T" "tx_step T S'" by auto
  with Suc.IH tx_step_decreases [of T S'] show ?case by fastforce
qed simp

lemma locks_left_start: "locks_left (start_locks plans) = 2 * (\<Sum>p\<leftarrow>plans. length p)"
  by (induction plans) (auto simp: locks_left_def start_locks_def)

subsection \<open>Ordered locks\<close>

locale ordered_locks =
  fixes rank :: "'r \<Rightarrow> 'k :: linorder" and plan :: "'t \<Rightarrow> 'r list" and valid :: "'t \<Rightarrow> bool"
  assumes increasing: "valid t \<Longrightarrow> sorted_wrt (<) (map rank (plan t))"
begin

definition ordered :: "'r locker list \<Rightarrow> bool" where
  "ordered S \<longleftrightarrow> (\<forall>x\<in>set S. sorted_wrt (<) (map rank (fst x @ snd x)))"

lemma ordered_step: "lock_step S S' \<Longrightarrow> ordered S \<Longrightarrow> ordered S'"
proof (induction rule: lock_step.induct)
  case (acquire k S h r t)
  then have "(h, r # t) \<in> set S" by (metis nth_mem)
  then have "sorted_wrt (<) (map rank (h @ r # t))" using acquire.prems by (fastforce simp: ordered_def)
  then show ?case using acquire.prems by (auto simp: ordered_def dest!: set_update_subset_insert [THEN subsetD])
next
  case (finish k S h)
  then show ?case by (auto simp: ordered_def dest!: set_update_subset_insert [THEN subsetD])
qed

lemma exclusive_update:
  assumes "exclusive S" "\<And>j. j < length S \<Longrightarrow> j \<noteq> k \<Longrightarrow> set (fst x) \<inter> set (fst (S ! j)) = {}"
  shows "exclusive (S[k := x])"
  unfolding exclusive_def length_list_update
proof (intro allI impI)
  fix i j assume ij: "i < length S" "j < length S" "i \<noteq> j"
  consider "i = k" | "j = k" | "i \<noteq> k" "j \<noteq> k" by blast
  then show "set (fst (S[k := x] ! i)) \<inter> set (fst (S[k := x] ! j)) = {}"
    by cases (use assms ij in \<open>simp_all add: exclusive_def Int_commute\<close>)
qed

lemma exclusive_step: "lock_step S S' \<Longrightarrow> exclusive S \<Longrightarrow> exclusive S'"
proof (induction rule: lock_step.induct)
  case (acquire k S h r t)
  have "set h \<inter> set (fst (S ! j)) = {}" if "j < length S" "j \<noteq> k" for j
    using acquire.prems acquire.hyps(1,2) that unfolding exclusive_def by (metis fst_conv)
  with acquire show ?case by (intro exclusive_update) auto
next
  case (finish k S h)
  then show ?case by (intro exclusive_update) auto
qed

lemma progress:
  assumes o: "ordered S" and nd: "\<not> all_done S"
  shows "\<exists>S'. lock_step S S'"
proof (cases "\<exists>k<length S. \<exists>h. S ! k = (h, []) \<and> h \<noteq> []")
  case True
  then show ?thesis using lock_step.finish by blast
next
  case False
  let ?held = "\<Union>x\<in>set S. set (fst x)"
  have more: "\<exists>r t. snd (S ! k) = r # t" if "k < length S" "fst (S ! k) \<noteq> []" for k
    using False that by (cases "snd (S ! k)") (metis prod.collapse, blast)
  obtain k r t where k: "k < length S" "snd (S ! k) = r # t" "r \<notin> ?held"
  proof (cases "?held = {}")
    case True
    from nd obtain x where "x \<in> set S" "x \<noteq> ([], [])" by (auto simp: all_done_def)
    then obtain k where "k < length S" "S ! k \<noteq> ([], [])" by (metis in_set_conv_nth)
    moreover from this True have "fst (S ! k) = []" by (metis UN_I empty_iff list.set_intros(1) neq_Nil_conv nth_mem)
    ultimately obtain r t where "k < length S" "snd (S ! k) = r # t"
      by (cases "snd (S ! k)") (metis prod.collapse, blast)
    with True that show ?thesis by blast
  next
    case False
    have "finite ?held" by simp
    with False have m: "Max (rank ` ?held) \<in> rank ` ?held" "\<And>r. r \<in> ?held \<Longrightarrow> rank r \<le> Max (rank ` ?held)"
      by (auto intro!: Max_in Max_ge)
    then obtain x q where x: "x \<in> set S" "q \<in> set (fst x)" "rank q = Max (rank ` ?held)" by auto
    then obtain k where k: "k < length S" "S ! k = x" by (metis in_set_conv_nth)
    with more x(2) obtain r t where rt: "snd (S ! k) = r # t" by (metis empty_iff list.set(1))
    have "sorted_wrt (<) (map rank (fst x @ snd x))" using o x(1) by (simp add: ordered_def)
    then have "rank q < rank r" using x(2) rt k(2) by (auto simp: sorted_wrt_append)
    then have "r \<notin> ?held" using m(2) x(3) by (metis leD)
    with k(1) rt that show ?thesis by blast
  qed
  have "S ! k = (fst (S ! k), r # t)" using k(2) by (metis prod.collapse)
  moreover have "\<forall>j<length S. j \<noteq> k \<longrightarrow> r \<notin> set (fst (S ! j))" using k(3) by (metis UN_I nth_mem)
  ultimately show ?thesis using lock_step.acquire [OF k(1)] by blast
qed

lemma completes: "ordered S \<Longrightarrow> \<exists>S'. lock_step\<^sup>*\<^sup>* S S' \<and> all_done S'"
proof (induction "locks_left S" arbitrary: S rule: less_induct)
  case less
  show ?case
  proof (cases "all_done S")
    case False
    with progress less.prems obtain T where T: "lock_step S T" by blast
    from less.hyps [OF lock_step_decreases [OF T] ordered_step [OF T less.prems]] T show ?thesis
      by (meson converse_rtranclp_into_rtranclp)
  qed blast
qed

lemma tx_step_keeps:
  assumes "tx_step S S'" "exclusive S" "ordered S"
  shows "exclusive S'" "ordered S'"
  using assms
proof (induction rule: tx_step.induct)
  case (proceed S S')
  { case 1 then show ?case using proceed exclusive_step by blast }
  { case 2 then show ?case using proceed ordered_step by blast }
next
  case (abort k S)
  { case 1 then show ?case by (intro exclusive_update) auto }
  { case 2 then show ?case by (auto simp: ordered_def dest!: set_update_subset_insert [THEN subsetD]) }
qed

text \<open>From the start, and for good: exclusive, never stuck before all have finished.\<close>

lemma reachable:
  assumes ts: "\<forall>t\<in>set ts. valid t" and run: "tx_step\<^sup>*\<^sup>* (start_locks (map plan ts)) S"
  shows "exclusive S" "ordered S" "all_done S \<or> (\<exists>S'. lock_step S S')"
proof -
  have "exclusive (start_locks (map plan ts))" "ordered (start_locks (map plan ts))"
    using ts increasing by (auto simp: exclusive_def ordered_def start_locks_def)
  with run show "exclusive S" "ordered S"
    by (induction rule: rtranclp_induct) (auto intro: tx_step_keeps)
  then show "all_done S \<or> (\<exists>S'. lock_step S S')" using progress by blast
qed

lemma all_finish:
  assumes "\<forall>t\<in>set ts. valid t" "(tx_step ^^ n) (start_locks (map plan ts)) S"
  shows "n \<le> 2 * (\<Sum>t\<leftarrow>ts. length (plan t))" "\<exists>S'. lock_step\<^sup>*\<^sup>* S S' \<and> all_done S'"
  using tx_steps_bounded [OF assms(2)] completes [OF reachable(2) [OF assms(1) relpowp_imp_rtranclp [OF assms(2)]]]
  by (simp_all add: locks_left_start comp_def)

end

subsection \<open>The locks of a posting\<close>

text \<open>A row, an idempotency key and the id of a reversed transaction in their unique indexes.\<close>

datatype resource = RowLock UUID | KeyLock string | RevLock UUID

definition lock_rank :: "env \<Rightarrow> resource \<Rightarrow> nat \<times> string" where
  "lock_rank env r =
     (case r of RowLock i \<Rightarrow> (0, collation env (UUID_String i)) | KeyLock k \<Rightarrow> (1, k)
      | RevLock i \<Rightarrow> (2, UUID_String i))"

definition posting_locks :: "env \<Rightarrow> db \<Rightarrow> UUID list \<times> string \<times> UUID option \<Rightarrow> resource list" where
  "posting_locks env D op =
     (case op of (ids, key, reverses) \<Rightarrow>
        map (\<lambda>r. RowLock (ar_id r)) (sql_lock_accounts env (sort_ids ids) D) @ [KeyLock key] @
        (case reverses of None \<Rightarrow> [] | Some i \<Rightarrow> [RevLock i]))"

lemma posting_locks_sorted:
  assumes "env_ok env" "ledger_ok D"
  shows "sorted_wrt (<) (map (lock_rank env) (posting_locks env D op))"
proof -
  obtain ids key rv where op: "op = (ids, key, rv)" by (cases op)
  let ?key = "\<lambda>r. collation env (UUID_String (ar_id r))" and ?rows = "sql_lock_accounts env (sort_ids ids) D"
  have "inj_on ar_id (set (accounts D))" "distinct (accounts D)"
    using assms(2) by (auto simp: ledger_ok_def keys_ok_def distinct_map)
  moreover have "wf_uuid (ar_id r)" if "r \<in> set (accounts D)" for r
    using assms(2) that by (simp add: ledger_ok_def account_ok_def)
  ultimately have "inj_on ?key (set (accounts D))"
    using env_okD(3) [OF assms(1)] UUID_String_inject by (metis (no_types, lifting) inj_onD inj_onI injD)
  then have "distinct (map ?key ?rows)"
    using \<open>distinct (accounts D)\<close> by (auto simp: sql_lock_accounts_def distinct_map intro: inj_on_subset)
  moreover have "sorted (map ?key ?rows)" by (simp add: sql_lock_accounts_def)
  ultimately have "sorted_wrt (<) (map ?key ?rows)" by (simp add: strict_sorted_iff)
  then have "sorted_wrt (<) (map (\<lambda>r. (0 :: nat, ?key r)) ?rows)"
    by (simp add: sorted_wrt_map)
  then show ?thesis
    by (auto simp: op posting_locks_def lock_rank_def sorted_wrt_append comp_def split: option.splits)
qed

text \<open>The operation and the database its lock finds.\<close>

interpretation pl: ordered_locks "lock_rank env" "\<lambda>(D, op). posting_locks env D op" "\<lambda>(D, op). env_ok env \<and> ledger_ok D" for env
  by unfold_locales (auto intro: posting_locks_sorted)

text \<open>
  C12: concurrent postings never deadlock: in every state that any interleaving of their locks, with any
  of them rolled back at any moment, reaches, no lock has two holders, and unless all have finished
  some transaction can take its next lock or finish.
\<close>

theorem postings_never_deadlock:
  assumes "env_ok env" "\<forall>(D, op)\<in>set ops. ledger_ok D"
    "tx_step\<^sup>*\<^sup>* (start_locks (map (\<lambda>(D, op). posting_locks env D op) ops)) S"
  shows "exclusive S \<and> (all_done S \<or> (\<exists>S'. lock_step S S'))"
  using pl.reachable(1,3) [OF _ assms(3)] assms(1,2) by auto

theorem postings_never_deadlock_witness:
  "\<exists>S'. lock_step (start_locks (map (\<lambda>(D, op). posting_locks sample_env D op)
     [(seed_db 0, [alice_id, bob_id], ''k1'', None), (seed_db 0, [bob_id, alice_id], ''k2'', None)])) S'"
proof -
  let ?ops = "[(seed_db 0, [alice_id, bob_id], ''k1'', None), (seed_db 0, [bob_id, alice_id], ''k2'', None)]"
  let ?S = "start_locks (map (\<lambda>(D, op). posting_locks sample_env D op) ?ops)"
  have "\<not> all_done ?S" by (simp add: all_done_def start_locks_def posting_locks_def)
  with postings_never_deadlock [OF sample_env_ok, of ?ops ?S] seed_ledger_ok show ?thesis by fastforce
qed



text \<open>
  The order in which the locks are taken is fixed by the query: the ids may be passed in any order,
  and sorting them beforehand changes nothing.
\<close>

theorem lock_order_from_query:
  assumes "set ids = set ids'"
  shows "LockAccountsForUpdate env ids = LockAccountsForUpdate env ids' \<and>
    sql_lock_accounts env (sort_ids ids) D = sql_lock_accounts env ids D"
  using assms by (simp add: LockAccountsForUpdate_def sql_lock_accounts_def sort_ids_def Let_def)

theorem lock_order_from_query_witness:
  "LockAccountsForUpdate sample_env [alice_id, bob_id] = LockAccountsForUpdate sample_env [bob_id, alice_id]"
  using lock_order_from_query [of "[alice_id, bob_id]" "[bob_id, alice_id]"] by (simp add: insert_commute)

end
