(* ===== verification/Races.thy ===== *)
theory Races
  imports Sample
begin

text \<open>
  Two requests with the same idempotency key at the same time. Both look the key up before either has
  stored it; the locks order them, and the loser finds out what the winner did once it holds its locks.
  The environment is one where another client commits while this transfer waits for its locks, and
  nothing else happens. Such a run is an undisturbed run of the transaction on the database the lock
  finds.
\<close>

subsection \<open>One interruption\<close>

text \<open>No call fails; other clients act at interaction \<open>n\<close> only.\<close>

definition interrupted_at :: "env \<Rightarrow> nat \<Rightarrow> bool" where
  "interrupted_at env n \<longleftrightarrow> (\<forall>k. fate env k = Proceed) \<and> (\<forall>k. \<exists>b. random env k = Inr b) \<and>
     (\<forall>k D. k \<noteq> n \<longrightarrow> others env k D = D)"

definition frozen :: "env \<Rightarrow> env" where
  "frozen env = env\<lparr>others := (\<lambda>k D. D)\<rparr>"

lemma frozen_sel [simp]:
  "fate (frozen env) = fate env" "others (frozen env) k D = D" "clock (frozen env) = clock env"
  "random (frozen env) = random env" "numeric_send (frozen env) = numeric_send env" "collation (frozen env) = collation env"
  "report (frozen env) = report env" "nextval (frozen env) = nextval env"
  by (simp_all add: frozen_def)

lemma frozen_calm: "interrupted_at env n \<Longrightarrow> calm (frozen env)"
  by (simp add: interrupted_at_def calm_def alone_def)

lemma frozen_ok: "env_ok env \<Longrightarrow> env_ok (frozen env)"
  by (simp add: env_ok_def frozen_def)

text \<open>Inside a transaction the interruption makes no difference; outside, only at its moment.\<close>

lemma frozen_tx_call: "tx_call (frozen env) f = tx_call env f"
  by (simp add: tx_call_def)

lemma frozen_tx:
  "UpdateBalance (frozen env) = UpdateBalance env" "InsertTransaction (frozen env) = InsertTransaction env"
  "InsertReversalTransaction (frozen env) = InsertReversalTransaction env" "InsertEntries (frozen env) = InsertEntries env"
  "NewV7 (frozen env) = NewV7 env" "commit (frozen env) = commit env" "stream_end (frozen env) = stream_end env"
  "collectAccounts (frozen env) = collectAccounts env"
proof -
  have ex: "exec_insert_transaction (frozen env) = exec_insert_transaction env"
    "exec_insert_entry (frozen env) = exec_insert_entry env"
    by (intro ext, simp add: exec_insert_transaction_def exec_insert_entry_def frozen_tx_call)+
  have loop: "insert_entries_loop (frozen env) es = insert_entries_loop env es" for es
    by (induction es) (simp_all add: ex)
  have sc: "scanAccount (frozen env) = scanAccount env" by (intro ext) (simp add: scanAccount_def)
  have se: "stream_end (frozen env) = stream_end env" by (simp add: stream_end_def frozen_tx_call)
  note defs = UpdateBalance_def InsertTransaction_def InsertReversalTransaction_def InsertEntries_def NewV7_def
    commit_def collectAccounts_def frozen_tx_call ex loop sc se
  show "UpdateBalance (frozen env) = UpdateBalance env" "InsertTransaction (frozen env) = InsertTransaction env"
    "InsertReversalTransaction (frozen env) = InsertReversalTransaction env" "InsertEntries (frozen env) = InsertEntries env"
    "NewV7 (frozen env) = NewV7 env" "commit (frozen env) = commit env" "stream_end (frozen env) = stream_end env"
    "collectAccounts (frozen env) = collectAccounts env"
    by (intro ext, simp add: defs)+
qed

lemma frozen_pool:
  assumes "interrupted_at env n" "tick w \<noteq> n"
  shows "pool_call env f w = pool_call (frozen env) f w"
  using assms by (simp add: pool_call_def interrupted_at_def)

lemma frozen_begin:
  "interrupted_at env n \<Longrightarrow> tick w \<noteq> n \<Longrightarrow> begin_tx env w = begin_tx (frozen env) w"
  by (simp add: begin_tx_def frozen_pool split: prod.splits sum.splits)

lemma frozen_audit:
  "interrupted_at env n \<Longrightarrow> tick w \<noteq> n \<Longrightarrow> WriteAudit env e w = WriteAudit (frozen env) e w"
  by (simp add: WriteAudit_def mapErr_def frozen_pool)

lemma frozen_lock:
  assumes "interrupted_at env n" "wdb w = snap w" "D = others env (tick w) (wdb w)"
  shows "LockAccountsForUpdate env ids w = LockAccountsForUpdate (frozen env) ids (w\<lparr>wdb := D, snap := D\<rparr>)"
proof -
  have "lock_call env f w = lock_call (frozen env) f (w\<lparr>wdb := D, snap := D\<rparr>)" for f :: "nat \<Rightarrow> db \<Rightarrow> gerror + (account_row list \<times> db)"
    using assms(2,3) by (simp add: lock_call_def Let_def)
  then show ?thesis
    by (simp add: LockAccountsForUpdate_def Let_def bindM_def mapErr_def frozen_tx sql_lock_accounts_def)
qed

subsection \<open>Interactions are counted\<close>

interpretation tk: world_preorder "\<lambda>w w'. tick w \<le> tick w'"
  by unfold_locales auto

abbreviation ticks :: "'a M \<Rightarrow> bool" where
  "ticks \<equiv> keeps (\<lambda>w w'. tick w \<le> tick w')"

lemma run_call_tick: "tick (snd (run_call ft f w)) = tick w"
  by (auto simp: run_call_def split: fate.splits sum.splits)

lemma ticks_calls: "ticks (tx_call env f)" "ticks (pool_call env f)" "ticks (lock_call env f)"
  by (simp_all add: keeps_def tx_call_def pool_call_def lock_call_def run_call_tick Let_def)

lemma ticks_writes:
  "ticks (UpdateBalance env i m)" "ticks (InsertTransaction env t)" "ticks (InsertReversalTransaction env t)"
  "ticks (InsertEntries env es)"
proof -
  have t: "ticks (exec_insert_transaction env t)"
    using ticks_calls(1) unfolding keeps_def exec_insert_transaction_def by blast
  have e: "ticks (exec_insert_entry env e)" for e
  proof -
    have "ticks (bindM (tx_call env f) (\<lambda>_ w. (Inr (), w\<lparr>pending := pending w @ [x]\<rparr>)))"
      for f :: "nat \<Rightarrow> db \<Rightarrow> gerror + (unit \<times> db)" and x
      by (intro tk.keeps_bind ticks_calls) (simp add: keeps_def)
    then show ?thesis by (simp add: keeps_def exec_insert_entry_def)
  qed
  then have "ticks (insert_entries_loop env es)" by (induction es) (auto intro!: tk.keeps_intros)
  with t show "ticks (UpdateBalance env i m)" "ticks (InsertTransaction env t)"
    "ticks (InsertReversalTransaction env t)" "ticks (InsertEntries env es)"
    unfolding UpdateBalance_def InsertTransaction_def InsertReversalTransaction_def InsertEntries_def
    by (auto intro!: tk.keeps_intros ticks_calls)
qed

lemma ticks_lookup: "ticks (GetTransactionByIdempotencyKey env key)"
proof -
  have "ticks (firstRow rows)" for rows :: "'a list"
    by (cases rows) (simp_all add: firstRow_def tk.keeps_pure)
  then show ?thesis
    unfolding GetTransactionByIdempotencyKey_def Let_def listEntries_def stream_end_def
    by (intro tk.keeps_intros ticks_calls)
qed

lemma Lock_tick: "tick w < tick (snd (LockAccountsForUpdate env ids w))"
proof -
  obtain x w1 where l: "lock_call env (query (\<lambda>k D. Inr (sql_lock_accounts env (sort_ids ids) D))) w = (x, w1)" by fastforce
  have w1: "tick w1 = tick w + 1"
    using l by (auto simp: lock_call_def tx_call_def Let_def dest!: arg_cong [where f = "\<lambda>p. tick (snd p)"] split: if_splits)
      (simp_all add: run_call_tick)
  have "ticks (collectAccounts env rows)" for rows
    unfolding collectAccounts_def stream_end_def by (intro tk.keeps_intros ticks_calls)
  then have "tick w < tick (snd (collectAccounts env rows w1))" for rows
    using w1 by (metis Suc_eq_plus1 Suc_le_eq keeps_def)
  then show ?thesis
    using l w1 by (cases x) (simp_all add: LockAccountsForUpdate_def Let_def run_eval)
qed

lemma posting_tick:
  assumes "ins = InsertTransaction env \<or> ins = InsertReversalTransaction env"
  shows "tick w < tick (snd (posting_tx (Store_Storer env) msg a b swapped check ins amount txn w))"
proof -
  obtain x w1 where l: "LockAccountsForUpdate env [a, b] w = (x, w1)" by fastforce
  then have w1: "tick w < tick w1" using Lock_tick [of w env "[a, b]"] by simp
  have "ticks (ins txn)" using assms ticks_writes by auto
  then have "\<exists>f. posting_tx (Store_Storer env) msg a b swapped check ins amount txn =
      bindM (mapErr (Wrap msg) (LockAccountsForUpdate env [a, b])) f \<and> (\<forall>y. ticks (f y))"
    unfolding posting_tx_def Let_def case_prod_beta Store_Storer_sel
    by (intro exI conjI refl allI) (auto intro!: tk.keeps_intros ticks_writes)
  then obtain f where f: "posting_tx (Store_Storer env) msg a b swapped check ins amount txn =
      bindM (mapErr (Wrap msg) (LockAccountsForUpdate env [a, b])) f" "\<And>y. ticks (f y)" by blast
  show ?thesis
  proof (cases x)
    case (Inr y)
    with l f(1) have "posting_tx (Store_Storer env) msg a b swapped check ins amount txn w = f y w1" by (simp add: run_eval)
    moreover have "tick w1 \<le> tick (snd (f y w1))" using f(2) by (simp add: keeps_def)
    ultimately show ?thesis using w1 by simp
  qed (use l f(1) w1 in \<open>simp add: run_eval\<close>)
qed

subsection \<open>The interrupted transaction\<close>

lemma frozen_posting:
  assumes "interrupted_at env n" "wdb w = snap w" "D = others env (tick w) (wdb w)"
  shows "posting_tx (Store_Storer env) msg a b swapped check ins amount txn w =
    posting_tx (Store_Storer (frozen env)) msg a b swapped check ins amount txn (w\<lparr>wdb := D, snap := D\<rparr>)"
proof -
  have "bindM (mapErr g (LockAccountsForUpdate env ids)) F w =
      bindM (mapErr g (LockAccountsForUpdate (frozen env) ids)) F (w\<lparr>wdb := D, snap := D\<rparr>)"
    for g ids and F :: "Account list \<Rightarrow> txres M"
    by (simp add: bindM_def mapErr_def frozen_lock [OF assms])
  then show ?thesis unfolding posting_tx_def Store_Storer_sel frozen_tx by simp
qed

lemma frozen_WithTx:
  assumes env: "interrupted_at env n" and n: "n = tick w + 1" and D: "D = others env n (wdb w)"
    and ins: "ins = InsertTransaction env \<or> ins = InsertReversalTransaction env"
    and tx_def: "tx = (\<lambda>e. posting_tx (Store_Storer e) msg a b swapped check ins amount txn)"
  shows "WithTx env (tx env) w = WithTx (frozen env) (tx (frozen env)) (w\<lparr>wdb := D\<rparr>)"
    and "n < tick (snd (WithTx env (tx env) w))"
proof -
  let ?w1 = "w\<lparr>tick := tick w + 1, snap := wdb w, pending := [], tx_start := micros (clock env (tick w))\<rparr>"
  let ?w2 = "?w1\<lparr>wdb := D, snap := D\<rparr>"
  have b: "begin_tx env w = (Inr (), ?w1)" "begin_tx (frozen env) (w\<lparr>wdb := D\<rparr>) = (Inr (), ?w2)"
    using frozen_begin [OF env, of w] calm_begin [OF frozen_calm [OF env]] n by simp_all
  have p: "tx env ?w1 = tx (frozen env) ?w2"
    unfolding tx_def using n D by (intro frozen_posting [OF env]) simp_all
  show "WithTx env (tx env) w = WithTx (frozen env) (tx (frozen env)) (w\<lparr>wdb := D\<rparr>)"
    using b p by (simp add: WithTx_def run_eval frozen_tx split: prod.splits sum.splits)
  have "tick ?w1 < tick (snd (tx env ?w1))" unfolding tx_def using posting_tick [OF ins] .
  then show "n < tick (snd (WithTx env (tx env) w))"
    using b(1) n by (auto simp: WithTx_def run_eval rollback_def commit_def Let_def split: prod.splits sum.splits fate.splits)
qed

lemma frozen_lookup:
  assumes "interrupted_at env n" "tick w \<noteq> n" "tick w + 1 \<noteq> n"
  shows "GetTransactionByIdempotencyKey env key w = GetTransactionByIdempotencyKey (frozen env) key w"
proof -
  let ?q = "query (\<lambda>k D. Inr (sql_transaction_by_key key D))"
  obtain x w1 where q: "pool_call env ?q w = (x, w1)" by fastforce
  have q': "pool_call (frozen env) ?q w = (x, w1)" using frozen_pool [OF assms(1,2)] q by metis
  have "tick w1 = tick w + 1"
    using q by (auto simp: pool_call_def dest!: arg_cong [where f = "\<lambda>p. tick (snd p)"]) (simp add: run_call_tick)
  then have "tick w1 \<noteq> n" using assms(3) by simp
  moreover have "scanEntry (frozen env) = scanEntry env" by (intro ext) (simp add: scanEntry_def split: prod.splits)
  ultimately have "listEntries env t w1 = listEntries (frozen env) t w1" for t
    by (simp add: listEntries_def bindM_def mapErr_def frozen_pool [OF assms(1)] frozen_tx)
  with q q' show ?thesis
    by (cases x) (auto simp: GetTransactionByIdempotencyKey_def bindM_def mapErr_def firstRow_def Let_def
        returnM_def throwM_def scanTransaction_def split: list.splits)
qed

lemma frozen_fail:
  assumes "interrupted_at env n" "n < tick w"
  shows "bindM (auditFailure (Store_Storer env) op f t m rid e) g w = bindM (auditFailure (Store_Storer (frozen env)) op f t m rid e) g w"
    "bindM (auditSuccess (Store_Storer env) op f t m rid i) g w = bindM (auditSuccess (Store_Storer (frozen env)) op f t m rid i) g w"
  using frozen_audit [OF assms(1)] assms(2)
  by (simp_all add: auditFailure_def auditSuccess_def audit_def bindM_def tryM_def)

lemma frozen_commit_flow:
  assumes env: "interrupted_at env n" and n: "n = tick w + 1" and D: "D = others env n (wdb w)"
    and ins: "ins = InsertTransaction env \<or> ins = InsertReversalTransaction env"
  shows "commit_flow (Store_Storer env) op f t m rid key i
      (posting_tx (Store_Storer env) msg a b swapped check ins amount txn) w =
    commit_flow (Store_Storer (frozen env)) op f t m rid key i
      (posting_tx (Store_Storer (frozen env)) msg a b swapped check ins amount txn) (w\<lparr>wdb := D\<rparr>)"
proof -
  note W = frozen_WithTx [OF assms refl, of msg a b swapped check amount txn]
  obtain x w1 where x: "WithTx env (posting_tx (Store_Storer env) msg a b swapped check ins amount txn) w = (x, w1)" by fastforce
  have w1: "n < tick w1" using W(2) unfolding x by simp
  have x': "WithTx (frozen env) (posting_tx (Store_Storer (frozen env)) msg a b swapped check ins amount txn) (w\<lparr>wdb := D\<rparr>) = (x, w1)"
    using W(1) x by simp
  obtain y w2 where y: "GetTransactionByIdempotencyKey env key w1 = (y, w2)" by fastforce
  have y': "GetTransactionByIdempotencyKey (frozen env) key w1 = (y, w2)"
    using frozen_lookup [OF env, of w1 key] w1 y by simp
  have w2: "n < tick w2" using keepsD [OF ticks_lookup y] w1 by simp
  show ?thesis
    using x x' y y'
    by (cases x; cases y) (simp_all add: commit_flow_def run_eval frozen_fail [OF env w1] frozen_fail [OF env w2])
qed

subsection \<open>A transfer that lost or won a race\<close>

lemma calm_insert_conflict:
  assumes "calm env" "find_key key (wdb w) \<noteq> None" "kind_check kind"
  shows "InsertTransaction env (mk_Transaction i kind key None) w = (Inl ErrIdempotencyConflict, w\<lparr>tick := tick w + 1\<rparr>)"
proof -
  let ?row = "transaction_row_of (mk_Transaction i kind key None) (tx_start w)"
  have "violated_unique ?row (wdb w) \<noteq> []"
    using assms(2) by (auto simp: violated_unique_Nil find_key_cases transaction_row_of_def mk_Transaction_def)
  then obtain n c v where "sql_insert_transaction (report env) ?row (wdb w) = Inl (unique_violation n c v)"
    using assms(3) by (auto simp: sql_insert_transaction_def transaction_row_of_def mk_Transaction_def Let_def case_prod_beta)
  then show ?thesis
    using assms(1) by (simp add: InsertTransaction_def exec_insert_transaction_def tx_call_def run_call_def calmD
        mapErr_def unique_violation_def pg_err_def pgErrUniqueViolation_def)
qed

lemma flow_conflict:
  assumes env: "calm env" "env_ok env" and L: "ledger_ok (wdb w)" and k: "find_key key (wdb w) = Some row"
    and W: "WithTx env body w = (Inl ErrIdempotencyConflict, w1)" "wdb w1 = wdb w"
    and run: "commit_flow (Store_Storer env) op f t m rid key i body w = (r, w')"
  shows "meets op mk move rid (Replay row) (wdb w) r (wdb w')"
proof -
  have "bindM (tryM (GetTransactionByIdempotencyKey env key)) (\<lambda>found.
      case found of Inr existing \<Rightarrow> returnM existing
      | Inl e \<Rightarrow> bindM (auditFailure (Store_Storer env) op (Some f) (Some t) (Some m) rid ErrIdempotencyConflict)
          (\<lambda>_. throwM ErrIdempotencyConflict)) w1 = (r, w')"
    using run W(1) by (simp add: commit_flow_def run_eval)
  from key_replay [OF env _ _ this] L k W(2) show ?thesis by simp
qed

text \<open>What the transaction decides once it holds its locks: the funds first, then the key.\<close>

definition locked_verdict :: "UUID \<Rightarrow> UUID \<Rightarrow> int \<Rightarrow> string \<Rightarrow> db \<Rightarrow> verdict" where
  "locked_verdict src dst amt key D =
     (case funds_verdict src dst amt D of
        Post \<Rightarrow> (case find_key key D of None \<Rightarrow> Post | Some row \<Rightarrow> Replay row)
      | v \<Rightarrow> v)"

lemma flow_locked:
  assumes env: "calm env" "env_ok env" and L: "ledger_ok (wdb w)" and m: "money_ok amount" "0 < units amount"
    and rm: "room src dst (units amount) (wdb w)"
    and ok: "src \<noteq> dst" "src \<noteq> ExternalAccountID" "dst \<noteq> ExternalAccountID"
    and i: "i \<notin> tr_id ` set (transactions (wdb w))"
    and run: "commit_flow (Store_Storer env) ''TRANSFER'' src dst amount rid key i
      (Transfer_tx (Store_Storer env) src dst amount (mk_Transaction i KindTransfer key None)) w = (r, w')"
  shows "meets ''TRANSFER'' (\<lambda>i. mk_Transaction i KindTransfer key None) (Some (src, dst, units amount)) rid
    (locked_verdict src dst (units amount) key (wdb w)) (wdb w) r (wdb w')"
proof -
  let ?mk = "\<lambda>i. mk_Transaction i KindTransfer key None" and ?v = "funds_verdict src dst (units amount) (wdb w)"
  show ?thesis
  proof (cases "find_key key (wdb w) \<noteq> None \<and> ?v = Post")
    case True
    then obtain row where row: "find_key key (wdb w) = Some row" by blast
    have v: "?v = Post" using True by simp
    have ins: "InsertTransaction env (?mk i) w3 = (Inl ErrIdempotencyConflict, w3\<lparr>tick := tick w3 + 1\<rparr>)"
      if "transactions (wdb w3) = transactions (wdb w)" for w3
      by (rule calm_insert_conflict [OF env(1)]) (use that True in \<open>simp_all add: find_key_def kind_check_def kind_defs\<close>)
    obtain w1 where W: "WithTx env (posting_tx (Store_Storer env) ''service.Transfer lock'' src dst False True
        (InsertTransaction env) amount (?mk i)) w = (Inl ErrIdempotencyConflict, w1)" "wdb w1 = wdb w"
      by (rule calm_insert_refused [OF env L m rm v, of False dst src True "InsertTransaction env" "?mk i"])
        (use ok ins in auto)
    from flow_conflict [OF env L row W run [unfolded tx_shapes Store_Storer_sel], of ?mk] True row show ?thesis
      by (auto simp: locked_verdict_def)
  next
    case False
    have "\<forall>ts. violated_unique (transaction_row_of (?mk i) ts) (wdb w) = [] \<or> ?v \<noteq> Post"
      using False unique_new [OF i, of key None] by auto
    then have "meets ''TRANSFER'' ?mk (Some (src, dst, units amount)) rid ?v (wdb w) r (wdb w')"
      by (intro flow_decided [where mk = ?mk, OF env L m rm _ ok(1) _ _ _ _ _ run [unfolded tx_shapes]])
        (use ok in \<open>auto simp: txn_ready_def mk_Transaction_def\<close>)
    then show ?thesis using False by (auto simp: locked_verdict_def split: verdict.splits option.splits)
  qed
qed

lemma Transfer_raced:
  assumes env: "interrupted_at env (tick w + 3)" "env_ok env" and L: "ledger_ok (wdb w)"
    and m: "money_ok amount" "0 < units amount"
    and ok: "src \<noteq> dst" "src \<noteq> ExternalAccountID" "dst \<noteq> ExternalAccountID"
    and key: "find_key key (wdb w) = None" and D: "D = others env (tick w + 3) (wdb w)"
    and rm: "room src dst (units amount) D" and fr: "fresh_id env (w\<lparr>wdb := D\<rparr>) 1"
    and run: "Transfer env (Store_Storer env) src dst amount key rid w = (r, w')"
  shows "meets ''TRANSFER'' (\<lambda>i. mk_Transaction i KindTransfer key None) (Some (src, dst, units amount)) rid
    (locked_verdict src dst (units amount) key D) D r (wdb w')"
proof -
  note calm = frozen_calm [OF env(1)] frozen_ok [OF env(2)]
  let ?mk = "\<lambda>i. mk_Transaction i KindTransfer key None" and ?w1 = "w\<lparr>tick := tick w + 1\<rparr>"
  have LD: "ledger_ok D" using relyD(1) [OF env_okD(1) [OF env(2)] L] D by simp
  have look: "GetTransactionByIdempotencyKey env key w = (Inl ErrTransactionNotFound, ?w1)"
    using frozen_lookup [OF env(1), of w key] calm_key_missing [OF calm(1)] key by (simp add: find_key_cases)
  have pos: "Money_IsPositive amount" using m by (simp add: Money_sign_units)
  have rest: "bindM (mapErr (Wrap ''service.Transfer uuid'') (NewV7 env)) (\<lambda>txID.
      commit_flow (Store_Storer env) ''TRANSFER'' src dst amount rid key txID
        (Transfer_tx (Store_Storer env) src dst amount (?mk txID))) ?w1 = (r, w')"
    using run look ok pos by (simp add: Transfer_flow run_eval)
  obtain i t where N: "NewV7 env ?w1 = (Inr i, ?w1\<lparr>lastV7time := t, tick := tick ?w1 + 1\<rparr>)"
    using calm_NewV7 [OF calm, of ?w1] unfolding frozen_tx by metis
  let ?w2 = "?w1\<lparr>lastV7time := t, tick := tick ?w1 + 1\<rparr>"
  have i: "i \<notin> tr_id ` set (transactions D)"
    using fr N by (auto simp: fresh_id_def NewV7_def split: prod.splits sum.splits)
  have "commit_flow (Store_Storer env) ''TRANSFER'' src dst amount rid key i
      (Transfer_tx (Store_Storer env) src dst amount (?mk i)) ?w2 = (r, w')"
    using rest N by (simp add: run_eval)
  then have "commit_flow (Store_Storer (frozen env)) ''TRANSFER'' src dst amount rid key i
      (Transfer_tx (Store_Storer (frozen env)) src dst amount (?mk i)) (?w2\<lparr>wdb := D\<rparr>) = (r, w')"
    using frozen_commit_flow [OF env(1), of ?w2 D "InsertTransaction env"] D by (simp add: tx_shapes frozen_tx)
  from flow_locked [OF calm _ m _ ok _ this] LD rm i show ?thesis by simp
qed

subsection \<open>Properties\<close>

text \<open>The other client of the examples: it sends the amount from Alice to Bob under the key \<open>k1\<close>.\<close>

definition winner :: "int \<Rightarrow> posting" where
  "winner amt = paid\<lparr>p_txn := (p_txn paid)\<lparr>tr_idempotency_key := ''k1''\<rparr>, p_amount := amt\<rparr>"

definition raced_env :: "int \<Rightarrow> env" where
  "raced_env amt = sample_env\<lparr>others := (\<lambda>k D. if k = 3 \<and> posting_ok (winner amt) D then apply_posting (winner amt) D else D)\<rparr>"

lemma raced_env_ok: "env_ok (raced_env amt)" "interrupted_at (raced_env amt) (tick sample_world + 3)"
proof -
  have "rely D (others (raced_env amt) k D)" for k D
    using rely_posting by (simp add: raced_env_def)
  moreover have "env_ok sample_env" by (rule sample_env_ok)
  ultimately show "env_ok (raced_env amt)" by (simp add: env_ok_def raced_env_def)
  show "interrupted_at (raced_env amt) (tick sample_world + 3)"
    by (simp add: interrupted_at_def raced_env_def sample_env_def sample_world_def)
qed

lemma winner_ok: "amt \<in> {10000, 100000000} \<Longrightarrow> posting_ok (winner amt) (seed_db 0)"
proof -
  assume a: "amt \<in> {10000, 100000000}"
  have "violated_unique (p_txn (winner amt)) (seed_db 0) = []"
    using paid_id_neq by (simp add: violated_unique_def winner_def paid_def seed_db_eq)
  with a show ?thesis
    by (auto simp: posting_ok_def winner_def paid_def kind_ok_def seed_db_eq numeric_fits_def seed_neq kind_defs
        external_id_eq [symmetric])
qed

lemma raced_db:
  assumes "amt \<in> {10000, 100000000}"
  shows "others (raced_env amt) (tick sample_world + 3) (wdb sample_world) = apply_posting (winner amt) (seed_db 0)"
    "find_key ''k1'' (wdb sample_world) = None"
    "find_key ''k1'' (apply_posting (winner amt) (seed_db 0)) = Some (p_txn (winner amt))"
    "room alice_id bob_id amt (apply_posting (winner amt) (seed_db 0))"
    "fresh_id (raced_env amt) (sample_world\<lparr>wdb := apply_posting (winner amt) (seed_db 0)\<rparr>) 1"
proof -
  show "others (raced_env amt) (tick sample_world + 3) (wdb sample_world) = apply_posting (winner amt) (seed_db 0)"
    using winner_ok [OF assms] by (simp add: raced_env_def sample_world_def)
  show "find_key ''k1'' (wdb sample_world) = None" by (simp add: find_key_def sample_world_def seed_db_eq)
  show "find_key ''k1'' (apply_posting (winner amt) (seed_db 0)) = Some (p_txn (winner amt))"
    by (simp add: find_key_def seed_db_eq winner_def paid_def)
  show "room alice_id bob_id amt (apply_posting (winner amt) (seed_db 0))"
    using assms by (auto simp: room_def seed_db_eq numeric_fits_def move_row_def winner_def paid_def seed_neq)
  have "clock (raced_env amt) = clock sample_env" "random (raced_env amt) = random sample_env"
    by (simp_all add: raced_env_def)
  then show "fresh_id (raced_env amt) (sample_world\<lparr>wdb := apply_posting (winner amt) (seed_db 0)\<rparr>) 1"
    using sample_id by (simp add: fresh_id_def winner_def paid_def paid_id_def seed_db_eq seed_ids)
qed

text \<open>
  C11: when another client commits while a transfer waits for its locks, the transfer is decided by the
  database the lock finds: missing funds first, then the key. If the other client stored a transaction
  under the same key and the funds still suffice, the transfer returns that transaction and neither
  moves money nor writes an audit row.
\<close>

theorem Transfer_race:
  assumes "interrupted_at env (tick w + 3)" "env_ok env" "ledger_ok (wdb w)" "money_ok amount" "0 < units amount"
    "src \<noteq> dst" "src \<noteq> ExternalAccountID" "dst \<noteq> ExternalAccountID" "find_key key (wdb w) = None"
    "D = others env (tick w + 3) (wdb w)" "room src dst (units amount) D" "fresh_id env (w\<lparr>wdb := D\<rparr>) 1"
    "Transfer env (Store_Storer env) src dst amount key rid w = (r, w')"
  shows "meets ''TRANSFER'' (\<lambda>i. mk_Transaction i KindTransfer key None) (Some (src, dst, units amount)) rid
    (locked_verdict src dst (units amount) key D) D r (wdb w')"
  using assms by (rule Transfer_raced)

theorem Transfer_race_witness:
  "\<exists>res w'. Transfer (raced_env 10000) (Store_Storer (raced_env 10000)) alice_id bob_id one ''k1'' ''r1'' sample_world = (Inr res, w') \<and>
     tID (fst res) = paid_id \<and> wdb w' = apply_posting (winner 10000) (seed_db 0)"
proof -
  obtain r w' where run: "Transfer (raced_env 10000) (Store_Storer (raced_env 10000)) alice_id bob_id one ''k1'' ''r1'' sample_world = (r, w')"
    by fastforce
  note d = raced_db [of 10000, simplified]
  have v: "locked_verdict alice_id bob_id 10000 ''k1'' (apply_posting (winner 10000) (seed_db 0)) = Replay (p_txn (winner 10000))"
    using d(3) by (simp add: locked_verdict_def funds_verdict_def find_account_def seed_db_eq move_row_def winner_def paid_def
        seed_neq)
  have "alice_id \<noteq> bob_id" "alice_id \<noteq> ExternalAccountID" "bob_id \<noteq> ExternalAccountID"
    by (simp_all add: seed_neq external_id_eq [symmetric])
  from Transfer_race [OF raced_env_ok(2,1) sample_ledger _ _ this d(2) refl _ _ run] d v run show ?thesis
    by (auto simp: one_def meets_def stored_def winner_def paid_def)
qed

text \<open>
  If the winner of such a race took the funds, the loser is refused for missing funds and audited as
  a failure, although its key names a transaction that was made.
\<close>

theorem race_loser_refused:
  assumes "interrupted_at env (tick w + 3)" "env_ok env" "ledger_ok (wdb w)" "money_ok amount" "0 < units amount"
    "src \<noteq> dst" "src \<noteq> ExternalAccountID" "dst \<noteq> ExternalAccountID" "find_key key (wdb w) = None"
    "D = others env (tick w + 3) (wdb w)" "room src dst (units amount) D" "fresh_id env (w\<lparr>wdb := D\<rparr>) 1"
    and won: "find_key key D = Some row"
    and poor: "find_account src D = Some a" "ar_balance a < units amount" "find_account dst D = Some b"
    and run: "Transfer env (Store_Storer env) src dst amount key rid w = (r, w')"
  shows "r = Inl ErrInsufficientFunds \<and> status (mapError ErrInsufficientFunds) = 422 \<and>
    (\<exists>x. audit_says ''TRANSFER'' (Some (src, dst, units amount)) OutcomeFailure (Some ''insufficient funds'') None rid x \<and>
       wdb w' = add_audit x D)"
proof -
  have "locked_verdict src dst (units amount) key D = Refuse ErrInsufficientFunds"
    using poor assms(7) by (simp add: locked_verdict_def funds_verdict_def)
  with Transfer_raced [OF assms(1-12) run] show ?thesis
    by (simp add: meets_def mapError_def writeError_def writeJSON_def)
qed

theorem race_loser_refused_witness:
  "\<exists>w'. Transfer (raced_env 100000000) (Store_Storer (raced_env 100000000)) alice_id bob_id (of_units 100000000) ''k1'' ''r1'' sample_world =
     (Inl ErrInsufficientFunds, w')"
proof -
  obtain r w' where run: "Transfer (raced_env 100000000) (Store_Storer (raced_env 100000000)) alice_id bob_id (of_units 100000000)
      ''k1'' ''r1'' sample_world = (r, w')" by fastforce
  note d = raced_db [of 100000000, simplified]
  have "alice_id \<noteq> bob_id" "alice_id \<noteq> ExternalAccountID" "bob_id \<noteq> ExternalAccountID"
    by (simp_all add: seed_neq external_id_eq [symmetric])
  from race_loser_refused [OF raced_env_ok(2,1) sample_ledger _ _ this d(2) refl _ _ _ _ _ _ run] d
  have "r = Inl ErrInsufficientFunds"
    by (simp add: find_account_def seed_db_eq move_row_def winner_def paid_def seed_neq)
  with run show ?thesis by blast
qed

end
