(* ===== verification/Queries.thy ===== *)
theory Queries
  imports Sample Guarantees
begin

text \<open>
  What the reading routes return, and creating an account. Undisturbed, a listing returns the newest rows
  first, no more than asked for, each transaction with its two legs; consecutive pages of the
  transactions return every transaction once, in one order; an account that was created is found again.
\<close>

subsection \<open>Ordered listings\<close>

text \<open>The first \<open>n\<close> of \<open>xs\<close> when the greatest keys come first.\<close>

definition newest :: "nat \<Rightarrow> ('a \<Rightarrow> int) \<Rightarrow> 'a list \<Rightarrow> 'a list \<Rightarrow> bool" where
  "newest n key xs rows \<longleftrightarrow>
     (\<exists>rest. mset (rows @ rest) = mset xs \<and> sorted_wrt (\<lambda>a b. key b \<le> key a) (rows @ rest)) \<and>
     length rows = min n (length xs)"

lemma newest_sort:
  assumes "mset ys = mset xs"
  shows "newest n key xs (take n (sort_key (\<lambda>x. - key x) ys))"
proof -
  let ?s = "sort_key (\<lambda>x. - key x) ys"
  have "sorted (map (\<lambda>x. - key x) ?s)" by simp
  then have "sorted_wrt (\<lambda>a b. key b \<le> key a) ?s" by (simp add: sorted_map)
  moreover have "mset ?s = mset xs" using assms by simp
  moreover have "length ?s = length xs" using assms by (metis length_sort size_mset)
  ultimately show ?thesis
    unfolding newest_def by (metis append_take_drop_id length_take min.commute)
qed

text \<open>Sorting by one key and then by another orders by the second, ties by the first.\<close>

lemma insort_tie:
  assumes "sorted_wrt (\<lambda>a b. f a < f b \<or> f a = f b \<and> g a \<le> g b) ys" "\<forall>y\<in>set ys. g x \<le> g y"
  shows "sorted_wrt (\<lambda>a b. f a < f b \<or> f a = f b \<and> g a \<le> g b) (insort_key f x ys)"
  using assms by (induction ys) (auto simp: set_insort_key)

lemma sort_tie:
  "sorted (map g xs) \<Longrightarrow> sorted_wrt (\<lambda>a b. f a < f b \<or> f a = f b \<and> g a \<le> g b) (sort_key f xs)"
  by (induction xs) (simp_all add: insort_tie)

text \<open>The order of \<^verbatim>\<open>ORDER BY created_at DESC, id DESC\<close>.\<close>

definition not_older :: "transaction_row \<Rightarrow> transaction_row \<Rightarrow> bool" where
  "not_older a b \<longleftrightarrow> tr_created_at b < tr_created_at a \<or>
     tr_created_at a = tr_created_at b \<and> be_val (tr_id b) \<le> be_val (tr_id a)"

definition of_kind :: "string option \<Rightarrow> db \<Rightarrow> transaction_row list" where
  "of_kind kind D = filter (\<lambda>t. case kind of None \<Rightarrow> True | Some k \<Rightarrow> tr_kind t = k) (transactions D)"

definition by_age :: "string option \<Rightarrow> db \<Rightarrow> transaction_row list" where
  "by_age kind D = sort_key (\<lambda>t. - tr_created_at t) (sort_key (\<lambda>t. - be_val (tr_id t)) (of_kind kind D))"

lemma by_age_props:
  "mset (by_age kind D) = mset (of_kind kind D)" "sorted_wrt not_older (by_age kind D)"
  "set (by_age kind D) \<subseteq> set (transactions D)" "length (by_age kind D) = length (of_kind kind D)"
proof -
  have "not_older = (\<lambda>a b. - tr_created_at a < - tr_created_at b \<or>
      - tr_created_at a = - tr_created_at b \<and> - be_val (tr_id a) \<le> - be_val (tr_id b))"
    by (intro ext) (auto simp: not_older_def)
  then show "sorted_wrt not_older (by_age kind D)"
    unfolding by_age_def by (elim ssubst) (rule sort_tie, simp)
qed (auto simp: by_age_def of_kind_def)

lemma sql_list_by_age:
  "0 \<le> limit \<Longrightarrow> 0 \<le> offset \<Longrightarrow>
   sql_list_transactions kind limit offset D = Inr (take (nat limit) (drop (nat offset) (by_age kind D)))"
  by (simp add: sql_list_transactions_def sql_limit_def by_age_def of_kind_def)

subsection \<open>Rows as values\<close>

text \<open>A transaction as a listing shows it: its row and its legs.\<close>

definition shown :: "db \<Rightarrow> Transaction \<Rightarrow> transaction_row \<Rightarrow> bool" where
  "shown D t row \<longleftrightarrow> stored D row (t, tEntries t) \<and> tCreatedAt t = tr_created_at row"

lemma calm_fill_entries:
  assumes "calm env" "env_ok env" "ledger_ok (wdb w)" "set rows \<subseteq> set (transactions (wdb w))"
  shows "\<exists>ts. fill_entries env (map scanTransactionRow rows) w = (Inr ts, w\<lparr>tick := tick w + 2 * length rows\<rparr>) \<and>
    list_all2 (shown (wdb w)) ts rows"
  using assms(3,4)
proof (induction rows arbitrary: w)
  case Nil
  then show ?case by (simp add: fill_entries_def returnM_def)
next
  case (Cons row rows)
  obtain es where es: "listEntries env (tr_id row) w = (Inr es, w\<lparr>tick := tick w + 2\<rparr>)"
    "list_all2 entry_matches es (legs (tr_id row) (entries (wdb w)))"
    using calm_listEntries [OF assms(1,2) Cons.prems(1)] by blast
  let ?t = "(scanTransactionRow row)\<lparr>tEntries := es\<rparr>"
  obtain ts where ts: "fill_entries env (map scanTransactionRow rows) (w\<lparr>tick := tick w + 2\<rparr>) =
      (Inr ts, w\<lparr>tick := tick w + 2 + 2 * length rows\<rparr>)" "list_all2 (shown (wdb w)) ts rows"
    using Cons.IH [of "w\<lparr>tick := tick w + 2\<rparr>"] Cons.prems by auto
  have "tID (scanTransactionRow row) = tr_id row" by (simp add: scanTransactionRow_def)
  with es(1) ts(1) have "fill_entries env (map scanTransactionRow (row # rows)) w =
      (Inr (?t # ts), w\<lparr>tick := tick w + 2 * length (row # rows)\<rparr>)"
    by (simp add: fill_entries_def run_eval algebra_simps)
  moreover have "shown (wdb w) ?t row"
    using Cons.prems(2) es(2) by (simp add: shown_def stored_def scanTransactionRow_def)
  ultimately show ?case using ts(2) by auto
qed

lemma calm_stream: "calm env \<Longrightarrow> stream_end env w = (Inr (), w\<lparr>tick := tick w + 1\<rparr>)"
  by (simp add: stream_end_Inr calmD)

text \<open>Both listings of transactions: the rows of the query, each with its legs.\<close>

lemma calm_listing:
  assumes env: "calm env" "env_ok env" "ledger_ok (wdb w)"
    and q: "q (tick w) (wdb w) = Inr rows" "set rows \<subseteq> set (transactions (wdb w))"
  shows "\<exists>ts w'. bindM (mapErr e1 (pool_call env (query q))) (\<lambda>rows. let txns = map scanTransactionRow rows in
      bindM (mapErr e2 (stream_end env)) (\<lambda>_. fill_entries env txns)) w = (Inr ts, w') \<and>
    list_all2 (shown (wdb w)) ts rows \<and> wdb w' = wdb w"
proof -
  let ?w = "w\<lparr>tick := tick w + 2\<rparr>"
  obtain ts where ts: "fill_entries env (map scanTransactionRow rows) ?w = (Inr ts, ?w\<lparr>tick := tick ?w + 2 * length rows\<rparr>)"
    "list_all2 (shown (wdb w)) ts rows"
    using calm_fill_entries [OF env(1,2), of ?w rows] env(3) q(2) by auto
  then show ?thesis
    by (simp add: run_eval calm_pool_query [OF env(1), of q w rows, OF q(1)] calm_stream [OF env(1)])
qed

lemma ListTransactions_rows:
  assumes "calm env" "env_ok env" "ledger_ok (wdb w)" "0 \<le> Limit opts" "0 \<le> Offset opts"
  shows "\<exists>ts w'. ListTransactions env opts w = (Inr ts, w') \<and> wdb w' = wdb w \<and>
    list_all2 (shown (wdb w)) ts (take (nat (Limit opts)) (drop (nat (Offset opts)) (by_age (Kind opts) (wdb w))))"
proof -
  let ?rows = "take (nat (Limit opts)) (drop (nat (Offset opts)) (by_age (Kind opts) (wdb w)))"
  have "set ?rows \<subseteq> set (transactions (wdb w))"
    using by_age_props(3) set_take_subset set_drop_subset by (metis subset_trans)
  with calm_listing [OF assms(1-3), of "\<lambda>k D. sql_list_transactions (Kind opts) (Limit opts) (Offset opts) D" ?rows]
    sql_list_by_age [OF assms(4,5)] show ?thesis
    unfolding ListTransactions_def by blast
qed

lemma ListTransactionsForAccount_rows:
  assumes "calm env" "env_ok env" "ledger_ok (wdb w)" "0 \<le> limit"
  shows "\<exists>ts rows w'. ListTransactionsForAccount env a limit w = (Inr ts, w') \<and> wdb w' = wdb w \<and>
    list_all2 (shown (wdb w)) ts rows \<and> newest (nat limit) tr_created_at
      (filter (\<lambda>t. a \<in> er_account_id ` set (legs (tr_id t) (entries (wdb w)))) (transactions (wdb w))) rows"
proof -
  let ?xs = "filter (\<lambda>t. \<exists>e\<in>set (entries (wdb w)). er_transaction_id e = tr_id t \<and> er_account_id e = a) (transactions (wdb w))"
  let ?rows = "take (nat limit) (sort_key (\<lambda>t. - tr_created_at t) (plan_transactions env (tick w) ?xs))"
  have xs: "?xs = filter (\<lambda>t. a \<in> er_account_id ` set (legs (tr_id t) (entries (wdb w)))) (transactions (wdb w))"
    by (intro filter_cong) (auto simp: legs_def)
  have m: "mset (plan_transactions env (tick w) ?xs) = mset ?xs" by (rule env_okD [OF assms(2)])
  then have "set (plan_transactions env (tick w) ?xs) = set ?xs" by (rule mset_eq_setD)
  then have "set ?rows \<subseteq> set (transactions (wdb w))"
    using set_take_subset [of "nat limit" "sort_key (\<lambda>t. - tr_created_at t) (plan_transactions env (tick w) ?xs)"] by auto
  moreover have "sql_transactions_for_account env a limit (tick w) (wdb w) = Inr ?rows"
    using assms(4) by (simp add: sql_transactions_for_account_def sql_limit_def)
  ultimately show ?thesis
    using calm_listing [OF assms(1-3), of "\<lambda>k D. sql_transactions_for_account env a limit k D" ?rows] newest_sort [OF m]
    unfolding ListTransactionsForAccount_def xs by blast
qed

subsection \<open>Accounts and the audit log\<close>

lemma find_filter: "find P xs = (case filter P xs of [] \<Rightarrow> None | x # _ \<Rightarrow> Some x)"
  by (induction xs) auto

lemma account_fits: "ledger_ok D \<Longrightarrow> r \<in> set (accounts D) \<Longrightarrow> numeric_fits (ar_balance r)"
  unfolding ledger_ok_def account_ok_def by blast

lemma GetAccount_row:
  assumes "calm env" "env_ok env" "ledger_ok (wdb w)"
  shows "GetAccount env i w =
    ((case find_account i (wdb w) of None \<Rightarrow> Inl ErrAccountNotFound | Some r \<Rightarrow> Inr (account_of r)), w\<lparr>tick := tick w + 1\<rparr>)"
proof (cases "sql_account i (wdb w)")
  case Nil
  then have "find_account i (wdb w) = None" by (simp add: find_account_def sql_account_def find_filter)
  with Nil show ?thesis
    by (simp add: GetAccount_def run_eval calm_pool_query [OF assms(1), of _ w "[]"] firstRow_def)
next
  case (Cons r rs)
  then have r: "r \<in> set (accounts (wdb w))" "find_account i (wdb w) = Some r"
    by (auto simp: find_account_def sql_account_def find_filter filter_eq_Cons_iff)
  then have "scanAccount env r = Inr (account_of r)"
    by (intro scanAccount_ok [OF assms(2)] account_fits [OF assms(3)])
  with Cons r show ?thesis
    by (simp add: GetAccount_def run_eval calm_pool_query [OF assms(1), of _ w "r # rs"] firstRow_def)
qed

lemma ListAccounts_rows:
  assumes "calm env" "env_ok env" "ledger_ok (wdb w)"
  shows "\<exists>rows w'. ListAccounts env w = (Inr (map account_of rows), w') \<and> wdb w' = wdb w \<and>
    mset rows = mset (filter (\<lambda>r. \<not> ar_is_system r) (accounts (wdb w))) \<and>
    sorted (map (\<lambda>r. collation env (ar_name r)) rows)"
proof -
  let ?rows = "sql_list_accounts env (tick w) (wdb w)" and ?w = "w\<lparr>tick := tick w + 1\<rparr>"
  have m: "mset ?rows = mset (filter (\<lambda>r. \<not> ar_is_system r) (accounts (wdb w)))"
    by (simp add: sql_list_accounts_def env_okD(7) [OF assms(2)])
  then have "set ?rows \<subseteq> set (accounts (wdb w))" using mset_eq_setD by fastforce
  then have "numeric_fits (ar_balance r)" if "r \<in> set ?rows" for r
    using that account_fits [OF assms(3)] by blast
  then have "collectAccounts env ?rows ?w = (Inr (map account_of ?rows), ?w\<lparr>tick := tick ?w + 1\<rparr>)"
    using calmD(1) [OF assms(1)] by (subst collectAccounts_Inr [OF assms(2)]) auto
  moreover have "pool_call env (query (\<lambda>k D. Inr (sql_list_accounts env k D))) w = (Inr ?rows, ?w)"
    by (intro calm_pool_query assms) simp
  moreover have "sorted (map (\<lambda>r. collation env (ar_name r)) ?rows)" by (simp add: sql_list_accounts_def)
  ultimately show ?thesis using m unfolding ListAccounts_def by (auto simp: run_eval)
qed

text \<open>The new account of \<^verbatim>\<open>CreateAccount\<close>; its id is new.\<close>

lemma CreateAccount_row:
  assumes "calm env" "env_ok env" "ledger_ok (wdb w)"
    and fresh: "\<forall>i. fst (UUID_NewV7 (lastV7time w) (clock env (tick w)) (random env (tick w))) = Inr i \<longrightarrow>
      i \<notin> ar_id ` set (accounts (wdb w))"
  shows "\<exists>r w'. CreateAccount env name w = (Inr (account_of r), w') \<and> ar_name r = name \<and> ar_balance r = 0 \<and>
    \<not> ar_is_system r \<and> wf_uuid (ar_id r) \<and> find_account (ar_id r) (wdb w) = None \<and> wdb w' = add_account r (wdb w)"
proof -
  obtain i t where u: "NewV7 env w = (Inr i, w\<lparr>lastV7time := t, tick := tick w + 1\<rparr>)" "wf_uuid i"
    by (rule calm_NewV7 [OF assms(1,2)])
  have "fst (UUID_NewV7 (lastV7time w) (clock env (tick w)) (random env (tick w))) = Inr i"
    using u(1) by (cases "fst (UUID_NewV7 (lastV7time w) (clock env (tick w)) (random env (tick w)))")
      (auto simp: NewV7_def split: prod.splits)
  with fresh have i: "i \<notin> ar_id ` set (accounts (wdb w))" by blast
  let ?w = "w\<lparr>lastV7time := t, tick := tick w + 1\<rparr>"
  let ?ts = "micros (clock env (tick ?w))"
  let ?r = "\<lparr>ar_id = i, ar_name = name, ar_balance = 0, ar_is_system = False, ar_created_at = ?ts, ar_updated_at = ?ts\<rparr>"
  have "sql_insert_account i name ?ts (wdb w) = Inr (?r, add_account ?r (wdb w))"
    using i by (auto simp: sql_insert_account_def add_account_def Let_def)
  then have "pool_call env (\<lambda>k D. sql_insert_account i name (micros (clock env k)) D) ?w =
      (Inr ?r, ?w\<lparr>tick := tick ?w + 1, wdb := add_account ?r (wdb w)\<rparr>)"
    using calmD [OF assms(1)] by (simp add: pool_call_def run_call_def)
  moreover have "scanAccount env ?r = Inr (account_of ?r)"
    by (rule scanAccount_ok [OF assms(2)]) (simp add: numeric_fits_def)
  ultimately have "CreateAccount env name w = (Inr (account_of ?r), ?w\<lparr>tick := tick ?w + 1, wdb := add_account ?r (wdb w)\<rparr>)"
    by (simp add: CreateAccount_def run_eval u(1))
  moreover have "find_account i (wdb w) = None" using i by (auto simp: find_account_def find_None_iff)
  ultimately show ?thesis using u(2) by (intro exI [of _ ?r]) auto
qed

text \<open>An audit row as a value, and the column type of its amount.\<close>

definition audit_of :: "audit_row \<Rightarrow> AuditEntry" where
  "audit_of r = \<lparr>auID = au_id r, auOperation = au_operation r, auFromAccount = au_from_account r,
     auToAccount = au_to_account r, auAmount = map_option of_units (au_amount r), auOutcome = au_outcome r,
     auErrorReason = au_error_reason r, auTransactionID = au_transaction_id r,
     auRequestID = au_request_id r, auCreatedAt = au_created_at r\<rparr>"

definition audit_fits :: "db \<Rightarrow> bool" where
  "audit_fits D \<longleftrightarrow> (\<forall>r\<in>set (audit_log D). \<forall>u. au_amount r = Some u \<longrightarrow> numeric_fits u)"

lemma scanAudit_ok:
  assumes "env_ok env" "\<forall>u. au_amount r = Some u \<longrightarrow> numeric_fits u"
  shows "scanAudit env r = Inr (audit_of r)"
proof (cases "au_amount r")
  case (Some u)
  then obtain d where "scan_numeric (Some (numeric_send env u)) = Inr d" "NewFromDecimal d = of_units u"
    using scan_numeric_msg [OF env_okD(2) [OF assms(1)]] assms(2) by blast
  with Some show ?thesis by (simp add: scanAudit_def audit_of_def)
qed (simp add: scanAudit_def audit_of_def)

lemma ListAudit_rows:
  assumes "calm env" "env_ok env" "audit_fits (wdb w)" "0 \<le> limit"
  shows "\<exists>rows w'. ListAuditForAccount env a limit w = (Inr (map audit_of rows), w') \<and> wdb w' = wdb w \<and>
    newest (nat limit) au_created_at
      (filter (\<lambda>r. au_from_account r = Some a \<or> au_to_account r = Some a) (audit_log (wdb w))) rows"
proof -
  let ?xs = "filter (\<lambda>r. au_from_account r = Some a \<or> au_to_account r = Some a) (audit_log (wdb w))"
  let ?s = "sort_key (\<lambda>t. - au_created_at t) (plan_audit env (tick w) ?xs)" and ?w = "w\<lparr>tick := tick w + 1\<rparr>"
  let ?rows = "take (nat limit) ?s"
  have m: "mset (plan_audit env (tick w) ?xs) = mset ?xs" by (rule env_okD [OF assms(2)])
  then have "set (plan_audit env (tick w) ?xs) = set ?xs" by (rule mset_eq_setD)
  then have "set ?rows \<subseteq> set (audit_log (wdb w))" using set_take_subset [of "nat limit" ?s] by auto
  then have "scanAudit env r = Inr (audit_of r)" if "r \<in> set ?rows" for r
    using that assms(2,3) by (intro scanAudit_ok) (auto simp: audit_fits_def)
  then have "list_all2 (\<lambda>r y. scanAudit env r = Inr y) ?rows (map audit_of ?rows)"
    by (simp add: list_all2_map_Inr)
  moreover have "sql_audit_for_account env a limit (tick w) (wdb w) = Inr ?rows"
    using assms(4) by (simp add: sql_audit_for_account_def sql_limit_def)
  ultimately have "ListAuditForAccount env a limit w = (Inr (map audit_of ?rows), w\<lparr>tick := tick w + 2\<rparr>)"
    by (simp add: ListAuditForAccount_def run_simps pool_query_Inr mapM_lift stream_end_Inr calmD [OF assms(1)])
  with newest_sort [OF m] show ?thesis by auto
qed

subsection \<open>Pages\<close>

text \<open>Numbers written into the query reach the handler.\<close>

lemma Atoi_nat_str: "n < 2 ^ 63 \<Longrightarrow> Atoi (nat_str n) = Inr (int n)"
  using ParseInt_digits [of "nat_str n" n 64 False] by (simp add: Atoi_def sign_str_def digit_simps)

lemma parseLimit_text:
  "get_value ''limit'' (r_query r) = nat_str l \<Longrightarrow> 0 < l \<Longrightarrow> l \<le> 200 \<Longrightarrow> parseLimit r 50 200 = int l"
  by (simp add: parseLimit_def Atoi_nat_str)

lemma parseOffset_text:
  "get_value ''offset'' (r_query r) = nat_str n \<Longrightarrow> n < 2 ^ 63 \<Longrightarrow> parseOffset r = int n"
  by (simp add: parseOffset_def Atoi_nat_str)

text \<open>
  A GET of page \<open>p\<close> of the transactions of a kind, \<open>l\<close> to a page, with the numbers as they stand in the
  query; no kind means all.
\<close>

definition page_request :: "nat \<Rightarrow> string \<Rightarrow> nat \<Rightarrow> request \<Rightarrow> bool" where
  "page_request l k p r \<longleftrightarrow> r_method r = ''GET'' \<and> r_path r = [''api'', ''transactions''] \<and>
     get_value ''limit'' (r_query r) = nat_str l \<and> get_value ''offset'' (r_query r) = nat_str (p * l) \<and>
     get_value ''kind'' (r_query r) = k"

definition kind_of :: "string \<Rightarrow> string option" where
  "kind_of k = (if k = [] then None else Some k)"

lemma page_run:
  assumes env: "calm env" "env_ok env" "ledger_ok (wdb w)" and k: "k = [] \<or> k \<in> set validKinds"
    and r: "page_request l k p r" "0 < l" "l \<le> 200" "p * l < 2 ^ 63"
  shows "\<exists>ts w'. serve env r w = (Inr (writeJSON 200 (PTransactions ts)), w') \<and> wdb w' = wdb w \<and>
    list_all2 (shown (wdb w)) ts (take l (drop (p * l) (by_age (kind_of k) (wdb w))))"
proof -
  let ?o = "\<lparr>Limit = int l, Offset = int (p * l), Kind = kind_of k\<rparr>"
  have n: "parseLimit r 50 200 = int l" "parseOffset r = int (p * l)"
    using r by (simp_all add: page_request_def parseLimit_text parseOffset_text del: of_nat_mult)
  obtain ts w' where "ListTransactions env ?o w = (Inr ts, w')" "wdb w' = wdb w"
    "list_all2 (shown (wdb w)) ts (take l (drop (p * l) (by_age (kind_of k) (wdb w))))"
    using ListTransactions_rows [OF env, of ?o] by (auto simp: nat_mult_distrib)
  moreover have "serve env r = bindM (tryM (ListTransactions env ?o)) (\<lambda>res. returnM
      (case res of Inl err \<Rightarrow> internalError err | Inr ts \<Rightarrow> writeJSON 200 (PTransactions ts)))"
    using r(1) k by (auto simp: page_request_def serve_def RegisterRoutes_def is_get_def listAllTransactions_def kind_of_def n Let_def)
  ultimately show ?thesis by (auto simp: run_eval)
qed

lemma pages_run:
  assumes env: "calm env" "env_ok env" and k: "k = [] \<or> k \<in> set validKinds" "0 < l" "l \<le> 200"
  shows "ledger_ok (wdb w) \<Longrightarrow> (p + length rs) * l < 2 ^ 63 \<Longrightarrow> \<forall>i<length rs. page_request l k (p + i) (rs ! i) \<Longrightarrow>
    \<exists>tss w'. serve_all env rs w = (map (\<lambda>ts. Inr (writeJSON 200 (PTransactions ts))) tss, w') \<and> wdb w' = wdb w \<and>
      list_all2 (shown (wdb w)) (concat tss) (take (length rs * l) (drop (p * l) (by_age (kind_of k) (wdb w))))"
proof (induction rs arbitrary: w p)
  case Nil
  then show ?case by simp
next
  case (Cons r rs)
  let ?xs = "by_age (kind_of k) (wdb w)"
  have fits: "p * l < 2 ^ 63" "(Suc p + length rs) * l < 2 ^ 63"
    using Cons.prems(2) by (simp_all add: algebra_simps)
  have "page_request l k p r" using Cons.prems(3) by force
  then obtain ts w1 where ts: "serve env r w = (Inr (writeJSON 200 (PTransactions ts)), w1)" "wdb w1 = wdb w"
    "list_all2 (shown (wdb w)) ts (take (l) (drop (p * l) ?xs))"
    using page_run [OF env Cons.prems(1) k(1) _ k(2,3)] fits(1) by blast
  have "\<forall>i<length rs. page_request l k (Suc p + i) (rs ! i)" using Cons.prems(3) by force
  from Cons.IH [OF _ fits(2) this, of w1] obtain tss w' where
    tss: "serve_all env rs w1 = (map (\<lambda>ts. Inr (writeJSON 200 (PTransactions ts))) tss, w')" "wdb w' = wdb w"
    "list_all2 (shown (wdb w)) (concat tss) (take (length rs * l) (drop (Suc p * l) ?xs))"
    using ts(2) Cons.prems(1) by auto
  have "take (length (r # rs) * l) (drop (p * l) ?xs) =
      take (l) (drop (p * l) ?xs) @ take (length rs * l) (drop (Suc p * l) ?xs)"
    by (simp add: take_add drop_drop add.commute)
  then have "list_all2 (shown (wdb w)) (concat (ts # tss)) (take (length (r # rs) * l) (drop (p * l) ?xs))"
    using ts(3) tss(3) by (simp add: list_all2_appendI)
  with ts(1) tss(1,2) show ?case by (intro exI [of _ "ts # tss"] exI [of _ w']) simp
qed

text \<open>
  C20: fetching the transactions page by page: as long as nobody writes in between, the responses, put
  together, show every transaction of the kind exactly once with its legs, the newest first and of two
  of the same time the one with the greater id.
\<close>

theorem pages_cover:
  assumes "calm env" "env_ok env" "ledger_ok (wdb w)" "k = [] \<or> k \<in> set validKinds" "0 < l" "l \<le> 200"
    "\<forall>p<length rs. page_request l k p (rs ! p)" "length (of_kind (kind_of k) (wdb w)) \<le> length rs * l"
    "length rs * l < 2 ^ 63"
  shows "\<exists>tss w' rows. serve_all env rs w = (map (\<lambda>ts. Inr (writeJSON 200 (PTransactions ts))) tss, w') \<and>
    list_all2 (shown (wdb w)) (concat tss) rows \<and> mset rows = mset (of_kind (kind_of k) (wdb w)) \<and>
    distinct (map tr_id rows) \<and> sorted_wrt not_older rows"
proof -
  let ?rows = "by_age (kind_of k) (wdb w)"
  have "distinct (map tr_id (of_kind (kind_of k) (wdb w)))"
    using assms(3) unfolding of_kind_def ledger_ok_def keys_ok_def by (intro distinct_map_filter) blast
  then have "distinct (map tr_id ?rows)" using by_age_props(1)
    by (metis mset_map mset_eq_imp_distinct_iff)
  with pages_run [OF assms(1,2,4,5,6,3), of 0 rs] assms(7-9) by_age_props [of "kind_of k" "wdb w"]
  show ?thesis by auto
qed

definition sample_page :: "string \<Rightarrow> request" where
  "sample_page off = \<lparr>r_method = ''GET'', r_path = [''api'', ''transactions''], r_headers = [],
     r_query = [(''limit'', ''2''), (''offset'', off)], r_body = None\<rparr>"

theorem pages_cover_witness:
  "\<exists>tss w' rows. serve_all sample_env [sample_page ''0'', sample_page ''2''] sample_world =
       (map (\<lambda>ts. Inr (writeJSON 200 (PTransactions ts))) tss, w') \<and>
     list_all2 (shown (seed_db 0)) (concat tss) rows \<and> mset rows = mset (transactions (seed_db 0))"
proof -
  have "page_request 2 [] 0 (sample_page ''0'')" "page_request 2 [] 1 (sample_page ''2'')"
    by (simp_all add: page_request_def sample_page_def get_value_def go_eval)
  then have "\<forall>p<length [sample_page ''0'', sample_page ''2'']. page_request 2 [] p ([sample_page ''0'', sample_page ''2''] ! p)"
    by (simp add: less_Suc_eq)
  moreover have "of_kind (kind_of []) (wdb sample_world) = transactions (seed_db 0)" "wdb sample_world = seed_db 0"
    by (simp_all add: of_kind_def kind_of_def sample_world_def)
  moreover have "length (transactions (seed_db 0)) \<le> 4" by (simp add: seed_db_eq)
  ultimately show ?thesis
    using pages_cover [OF sample_calm sample_env_ok sample_ledger, of "[]" 2 "[sample_page ''0'', sample_page ''2'']"]
    by auto
qed

text \<open>
  C22: the history of an account: undisturbed, \<^verbatim>\<open>/transactions\<close> and \<^verbatim>\<open>/audit\<close> below the account answer 200
  with the newest transactions that have a leg on it, each with both legs, and the newest audit rows
  that name it, as many as asked for if there are as many.
\<close>

theorem account_history:
  assumes "calm env" "env_ok env" "ledger_ok (wdb w)" "audit_fits (wdb w)"
    "r_method r = ''GET''" "r_path r = [''api'', ''accounts'', i, what]" "UUID_Parse i = Inr a"
    "get_value ''limit'' (r_query r) = nat_str l \<and> 0 < l \<and> l \<le> 200 \<or> get_value ''limit'' (r_query r) = [] \<and> l = 50"
  shows "(what = ''transactions'' \<longrightarrow> (\<exists>ts rows w'. serve env r w = (Inr (writeJSON 200 (PTransactions ts)), w') \<and>
      list_all2 (shown (wdb w)) ts rows \<and> newest l tr_created_at
        (filter (\<lambda>t. a \<in> er_account_id ` set (legs (tr_id t) (entries (wdb w)))) (transactions (wdb w))) rows)) \<and>
    (what = ''audit'' \<longrightarrow> (\<exists>rows w'. serve env r w = (Inr (writeJSON 200 (PAudit (map audit_of rows))), w') \<and>
      newest l au_created_at
        (filter (\<lambda>x. au_from_account x = Some a \<or> au_to_account x = Some a) (audit_log (wdb w))) rows))"
proof -
  let ?l = "int l"
  have l: "0 \<le> ?l" and n: "parseLimit r 50 200 = ?l" using assms(8) parseLimit_text [of r l] by (auto simp: parseLimit_def)
  have i: "i \<noteq> []" using assms(7) by (auto simp: UUID_Parse_def)
  have t: "serve env r = bindM (tryM (ListTransactionsForAccount env a ?l)) (\<lambda>res. returnM
      (case res of Inl err \<Rightarrow> internalError err | Inr ts \<Rightarrow> writeJSON 200 (PTransactions ts)))" if "what = ''transactions''"
    using that assms(5-7) i by (simp add: serve_def RegisterRoutes_def is_get_def listTransactions_def parseUUID_def n)
  have u: "serve env r = bindM (tryM (ListAuditForAccount env a ?l)) (\<lambda>res. returnM
      (case res of Inl err \<Rightarrow> internalError err | Inr ts \<Rightarrow> writeJSON 200 (PAudit ts)))" if "what = ''audit''"
    using that assms(5-7) i by (simp add: serve_def RegisterRoutes_def is_get_def listAudit_def parseUUID_def n)
  obtain ts trows w1 where "ListTransactionsForAccount env a ?l w = (Inr ts, w1)" "list_all2 (shown (wdb w)) ts trows"
    "newest l tr_created_at
        (filter (\<lambda>t. a \<in> er_account_id ` set (legs (tr_id t) (entries (wdb w)))) (transactions (wdb w))) trows"
    using ListTransactionsForAccount_rows [OF assms(1-3) l, of a] by auto
  moreover obtain arows w2 where "ListAuditForAccount env a ?l w = (Inr (map audit_of arows), w2)"
    "newest l au_created_at
        (filter (\<lambda>x. au_from_account x = Some a \<or> au_to_account x = Some a) (audit_log (wdb w))) arows"
    using ListAudit_rows [OF assms(1,2,4) l, of a] by auto
  ultimately show ?thesis by (auto simp: t u run_eval)
qed

definition sample_history :: "string \<Rightarrow> request" where
  "sample_history what = \<lparr>r_method = ''GET'',
     r_path = [''api'', ''accounts'', ''00000000-0000-0000-0000-000000000002'', what], r_headers = [], r_query = [], r_body = None\<rparr>"

theorem account_history_witness:
  "\<exists>ts rows w'. serve sample_env (sample_history ''transactions'') sample_world = (Inr (writeJSON 200 (PTransactions ts)), w') \<and>
     list_all2 (shown (seed_db 0)) ts rows \<and> newest 50 tr_created_at
       (filter (\<lambda>t. alice_id \<in> er_account_id ` set (legs (tr_id t) (entries (seed_db 0)))) (transactions (seed_db 0))) rows"
proof -
  have "UUID_Parse ''00000000-0000-0000-0000-000000000002'' = Inr alice_id" by (simp add: go_eval seed_ids)
  moreover have "audit_fits (wdb sample_world)" by (simp add: audit_fits_def sample_world_def seed_db_eq)
  moreover have "get_value ''limit'' (r_query (sample_history ''transactions'')) = []"
    by (simp add: get_value_def sample_history_def)
  ultimately show ?thesis
    using account_history [OF sample_calm sample_env_ok sample_ledger, of "sample_history ''transactions''"
        "''00000000-0000-0000-0000-000000000002''" "''transactions''" alice_id]
    by (simp add: sample_history_def) (simp add: sample_world_def)
qed

definition get_request :: "string list \<Rightarrow> request" where
  "get_request path = \<lparr>r_method = ''GET'', r_path = path, r_headers = [], r_query = [], r_body = None\<rparr>"

text \<open>
  C23: an account that was created is found again: undisturbed, a POST with a name is answered with 201
  and a user account of that name, an id not used before and balance zero; nothing else changes; a GET
  of its id returns the same account, and the listing of accounts has it and is sorted by name.
\<close>

theorem account_roundtrip:
  assumes env: "calm env" "env_ok env" "ledger_ok (wdb w)"
    and fresh: "\<forall>i. fst (UUID_NewV7 (lastV7time w) (clock env (tick w)) (random env (tick w))) = Inr i \<longrightarrow>
      i \<notin> ar_id ` set (accounts (wdb w))"
    and r: "r_method r = ''POST''" "r_path r = [''api'', ''accounts'']" "r_body r = Some (JObject obj [(''name'', JString x name)])" "name \<noteq> []"
  shows "\<exists>row w1 w2 w3 rows. serve env r w = (Inr (writeJSON 201 (PAccount (account_of row))), w1) \<and>
    wdb w1 = add_account row (wdb w) \<and> ar_name row = name \<and> ar_balance row = 0 \<and> \<not> ar_is_system row \<and>
    ar_id row \<notin> ar_id ` set (accounts (wdb w)) \<and>
    serve env (get_request [''api'', ''accounts'', UUID_String (ar_id row)]) w1 =
      (Inr (writeJSON 200 (PAccount (account_of row))), w2) \<and> wdb w2 = wdb w1 \<and>
    serve env (get_request [''api'', ''accounts'']) w2 = (Inr (writeJSON 200 (PAccounts (map account_of rows))), w3) \<and> row \<in> set rows \<and>
    sorted (map (\<lambda>x. collation env (ar_name x)) rows)"
proof -
  obtain row w1 where c: "CreateAccount env name w = (Inr (account_of row), w1)" "ar_name row = name" "ar_balance row = 0"
    "\<not> ar_is_system row" "wf_uuid (ar_id row)" "find_account (ar_id row) (wdb w) = None" "wdb w1 = add_account row (wdb w)"
    using CreateAccount_row [OF env fresh] by blast
  have s: "serve env r w = (Inr (writeJSON 201 (PAccount (account_of row))), w1)"
    using r c(1) by (simp add: serve_def RegisterRoutes_def is_get_def createAccount_def decode_name_def names_field_def decode_string_def run_eval)
  have "rely (wdb w) (wdb w1)" using CreateAccount_rely [OF env(2), of name] c(1) unfolding keeps_def lift_db_def by (metis snd_conv)
  then have L: "ledger_ok (wdb w1)" using relyD(1) env(3) by blast
  have new: "ar_id row \<notin> ar_id ` set (accounts (wdb w))"
    using c(6) by (auto simp: find_account_def find_None_iff)
  then have "filter (\<lambda>r. ar_id r = ar_id row) (accounts (wdb w)) = []" by (metis (mono_tags, lifting) filter_False imageI)
  then have "find_account (ar_id row) (wdb w1) = Some row"
    by (simp add: c(7) find_account_def add_account_def find_filter)
  moreover have "parseUUID (UUID_String (ar_id row)) = Inr (ar_id row)" "UUID_String (ar_id row) \<noteq> []"
    using UUID_Parse_String [OF c(5)] by (auto simp: parseUUID_def UUID_Parse_def)
  ultimately have g: "serve env (get_request [''api'', ''accounts'', UUID_String (ar_id row)]) w1 =
      (Inr (writeJSON 200 (PAccount (account_of row))), w1\<lparr>tick := tick w1 + 1\<rparr>)"
    by (simp add: get_request_def serve_def RegisterRoutes_def is_get_def getAccount_def run_eval GetAccount_row [OF env(1,2) L])
  let ?w2 = "w1\<lparr>tick := tick w1 + 1\<rparr>"
  obtain rows w3 where l: "ListAccounts env ?w2 = (Inr (map account_of rows), w3)"
    "mset rows = mset (filter (\<lambda>r. \<not> ar_is_system r) (accounts (wdb w1)))" "sorted (map (\<lambda>r. collation env (ar_name r)) rows)"
    using ListAccounts_rows [OF env(1,2), of ?w2] L by auto
  have "set rows = set (filter (\<lambda>r. \<not> ar_is_system r) (accounts (wdb w1)))" using l(2) by (rule mset_eq_setD)
  then have "row \<in> set rows" using c(4,7) by (simp add: add_account_def)
  moreover have "serve env (get_request [''api'', ''accounts'']) ?w2 = (Inr (writeJSON 200 (PAccounts (map account_of rows))), w3)"
    using l(1) by (simp add: get_request_def serve_def RegisterRoutes_def is_get_def listAccounts_def run_eval)
  ultimately show ?thesis using s c g l(3) new by (intro exI conjI) auto
qed

definition sample_create :: request where
  "sample_create = \<lparr>r_method = ''POST'', r_path = [''api'', ''accounts''], r_headers = [], r_query = [],
     r_body = Some (JObject ''{}'' [(''name'', JString ''x'' ''Carol'')])\<rparr>"

theorem account_roundtrip_witness:
  "\<exists>row w1. serve sample_env sample_create sample_world = (Inr (writeJSON 201 (PAccount (account_of row))), w1) \<and>
     ar_name row = ''Carol'' \<and> wdb w1 = add_account row (seed_db 0)"
proof -
  have "\<forall>i. fst (UUID_NewV7 (lastV7time sample_world) (clock sample_env (tick sample_world)) (random sample_env (tick sample_world))) = Inr i \<longrightarrow>
      i \<notin> ar_id ` set (accounts (wdb sample_world))"
    unfolding sample_id by (simp add: sample_world_def seed_db_eq seed_ids external_id_eq)
  then show ?thesis
    using account_roundtrip [OF sample_calm sample_env_ok sample_ledger, of sample_create "''{}''" "''x''" "''Carol''"]
    by (simp add: sample_create_def) (simp add: sample_world_def, blast)
qed

end
