(* ===== verification/Loadtest.thy ===== *)
theory Loadtest
  imports Queries
begin

text \<open>
  \<^verbatim>\<open>cmd/loadtest/main.go\<close>: a client that reads two balances, lets workers send transfers between the two
  accounts in both directions, and asserts that the sum of the balances is the same at the end. The
  client's calls may fail with or without effect; the requests of the workers are served in any order,
  and what a request finds other requests to have done meanwhile is the interference of its run. The
  contract \<open>storer\<close> of the service is interpreted a third time, with the relation that keeps the sum.
\<close>

subsection \<open>The client\<close>










subsection \<open>Workers\<close>



subsection \<open>The test\<close>





subsection \<open>The sum of two balances\<close>














subsection \<open>One transfer\<close>











subsection \<open>Balances and workers\<close>













end
