(* ===== verification/Oversized.thy ===== *)
theory Oversized
  imports Sample Queries
begin

text \<open>
  Amounts beyond the columns. An amount of \<open>10 ^ 16\<close> or more parses, but no column of type NUMERIC(20,4)
  holds it, the amount of the audit log included: the attempt is refused by the rules as any other, but
  the row that should record it is refused too, and the service only logs that.
\<close>

text \<open>The audit of a refused attempt, with an amount the column cannot hold.\<close>

lemma calm_audit_lost:
  assumes "calm env" "money_ok m" "\<not> numeric_fits (units m)"
  shows "bindM (auditFailure (Store_Storer env) op f t (Some m) rid e) (\<lambda>_. throwM e) w = (Inl e, w\<lparr>tick := tick w + 1\<rparr>)"
proof -
  let ?e = "\<lparr>auID = 0, auOperation = op, auFromAccount = f, auToAccount = t, auAmount = Some m,
       auOutcome = OutcomeFailure, auErrorReason = Some (err_msg e), auTransactionID = None,
       auRequestID = Some rid, auCreatedAt = zero_time\<rparr>"
  have "\<exists>x. WriteAudit env ?e w = (Inl x, w\<lparr>tick := tick w + 1\<rparr>)"
    using assms by (simp add: WriteAudit_def mapErr_def pool_call_def run_call_def calmD sql_insert_audit_def numeric_20_4_money)
  then show ?thesis by (auto simp: auditFailure_def audit_def run_eval)
qed

lemma calm_too_much:
  assumes env: "calm env" "env_ok env" and L: "ledger_ok (wdb w)"
    and m: "money_ok amount" "0 < units amount" "\<not> numeric_fits (units amount)"
    and ids: "src \<noteq> dst" "src \<noteq> ExternalAccountID"
  obtains e w' where "funds_verdict src dst (units amount) (wdb w) = Refuse e" "e \<noteq> ErrIdempotencyConflict"
    "WithTx env (Transfer_tx (Store_Storer env) src dst amount txn) w = (Inl e, w')" "wdb w' = wdb w"
proof (cases "src \<notin> ar_id ` set (accounts (wdb w)) \<or> dst \<notin> ar_id ` set (accounts (wdb w))")
  case True
  then have "funds_verdict src dst (units amount) (wdb w) = Refuse ErrAccountNotFound"
    by (auto simp: funds_verdict_def find_account_None [symmetric] split: option.splits)
  with that calm_missing [OF env L True ids(1)] show ?thesis unfolding tx_shapes by (metis gerror.distinct)
next
  case False
  then obtain r s where r: "r \<in> set (accounts (wdb w))" "ar_id r = src" "s \<in> set (accounts (wdb w))" "ar_id s = dst" by auto
  have poor: "ar_balance (if False then s else r) < units amount"
    using account_fits [OF L r(1)] m(2,3) by (auto simp: numeric_fits_def)
  have "find_account src (wdb w) = Some r" "find_account dst (wdb w) = Some s"
    using r by (simp_all add: find_account_Some [OF L])
  with poor ids(2) have "funds_verdict src dst (units amount) (wdb w) = Refuse ErrInsufficientFunds"
    by (simp add: funds_verdict_def)
  with that calm_insufficient [OF env L m(1) r ids(1) poor] show ?thesis unfolding tx_shapes by (metis gerror.distinct)
qed

text \<open>
  C31: an attempt with an amount the columns cannot hold is decided by the rules of a transfer but leaves no
  trace: undisturbed, it is refused with the first broken rule, which for known accounts is missing funds,
  or answered with the transaction stored under the key, and the database, audit log included, stays
  as it was.
\<close>

theorem oversized_unaudited:
  assumes env: "calm env" "env_ok env" and L: "ledger_ok (wdb w)"
    and m: "money_ok amount" "\<not> numeric_fits (units amount)"
    and run: "Transfer env (Store_Storer env) src dst amount key rid w = (r, w')"
  shows "wdb w' = wdb w \<and>
    (case Transfer_verdict src dst (units amount) key (wdb w) of
       Refuse e \<Rightarrow> r = Inl e | Replay row \<Rightarrow> \<exists>res. r = Inr res \<and> stored (wdb w) row res | Post \<Rightarrow> False)"
proof -
  note lost = calm_audit_lost [OF env(1) m]
  have pos: "Money_IsPositive amount \<longleftrightarrow> 0 < units amount" using m(1) by (simp add: Money_sign_units)
  show ?thesis
  proof (cases "0 < units amount \<and> src \<noteq> dst \<and> src \<noteq> ExternalAccountID \<and> dst \<noteq> ExternalAccountID")
    case False
    then show ?thesis using run by (auto simp: lost Transfer_flow Let_def Transfer_verdict_def pos not_less split: if_splits)
  next
    case ok: True
    have run': "bindM (tryM (GetTransactionByIdempotencyKey env key)) (\<lambda>found.
      case found of Inr existing \<Rightarrow> returnM existing | Inl e \<Rightarrow>
        bindM (mapErr (Wrap ''service.Transfer uuid'') (NewV7 env)) (\<lambda>txID.
            commit_flow (Store_Storer env) ''TRANSFER'' src dst amount rid key txID
              (Transfer_tx (Store_Storer env) src dst amount (mk_Transaction txID KindTransfer key None)))) w = (r, w')"
      using run ok by (simp add: Transfer_flow pos)
    show ?thesis
    proof (cases "find_key key (wdb w)")
      case (Some row)
      with key_replay [OF env L Some run'] ok show ?thesis by (auto simp: Transfer_verdict_def meets_def)
    next
      case None
      let ?w = "w\<lparr>tick := tick w + 1\<rparr>"
      obtain i t where u: "NewV7 env ?w = (Inr i, ?w\<lparr>lastV7time := t, tick := tick ?w + 1\<rparr>)"
        by (rule calm_NewV7 [OF env])
      let ?w1 = "?w\<lparr>lastV7time := t, tick := tick ?w + 1\<rparr>"
      from key_new [OF env(1) None run'] u have c: "commit_flow (Store_Storer env) ''TRANSFER'' src dst amount rid key i
          (Transfer_tx (Store_Storer env) src dst amount (mk_Transaction i KindTransfer key None)) ?w1 = (r, w')"
        by (simp add: run_eval)
      obtain e w2 where e: "funds_verdict src dst (units amount) (wdb ?w1) = Refuse e" "e \<noteq> ErrIdempotencyConflict"
        "WithTx env (Transfer_tx (Store_Storer env) src dst amount (mk_Transaction i KindTransfer key None)) ?w1 = (Inl e, w2)"
        "wdb w2 = wdb ?w1"
        by (rule calm_too_much [OF env _ m(1) _ m(2), of ?w1 src dst]) (use L ok in auto)
      have "r = Inl e \<and> w' = w2\<lparr>tick := tick w2 + 1\<rparr>"
        using c e(2,3) by (simp add: commit_flow_def run_eval lost)
      with e ok None show ?thesis by (simp add: Transfer_verdict_def)
    qed
  qed
qed

theorem oversized_unaudited_witness:
  "\<exists>w'. Transfer sample_env (Store_Storer sample_env) alice_id bob_id (of_units (10 ^ 20)) ''k1'' ''r1'' sample_world =
     (Inl ErrInsufficientFunds, w') \<and> wdb w' = wdb sample_world"
proof -
  obtain r w' where run: "Transfer sample_env (Store_Storer sample_env) alice_id bob_id (of_units (10 ^ 20)) ''k1'' ''r1'' sample_world = (r, w')"
    by fastforce
  have "Transfer_verdict alice_id bob_id (10 ^ 20) ''k1'' (wdb sample_world) = Refuse ErrInsufficientFunds"
    by (simp add: Transfer_verdict_def funds_verdict_def find_key_def find_account_def sample_world_def seed_db_eq seed_neq
        external_id_eq [symmetric])
  moreover have "\<not> numeric_fits (units (of_units (10 ^ 20)))" by (simp add: numeric_fits_def)
  ultimately show ?thesis
    using oversized_unaudited [OF sample_calm sample_env_ok sample_ledger money_ok_of_units _ run] run by simp
qed

end
