(* ===== verification/Migrator.thy ===== *)
theory Migrator
  imports Migrations
begin

text \<open>
  \<^verbatim>\<open>golang-migrate\<close> as the server uses it (\<^verbatim>\<open>m.Up()\<close> over \<^verbatim>\<open>file://migrations\<close> and the postgres driver): the
  version row with its dirty flag, the loop that reads the up migrations after the current version,
  and the loop that runs them, each between two writes of the version row. Whatever call fails, the
  database is at a version of the schema or marked dirty; and when \<^verbatim>\<open>Up\<close> returns without an error or with
  \<^verbatim>\<open>ErrNoChange\<close>, all migrations have been applied.
\<close>

subsection \<open>State, surroundings, errors\<close>

text \<open>The table \<^verbatim>\<open>schema_migrations\<close>, which has at most one row, and the tables of the program.\<close>

record schema =
  version_row :: "(nat \<times> bool) option"
  tables :: "db option"

text \<open>
  \<open>m_others\<close> is what other processes have done when this one next reaches the server without holding the
  advisory lock, \<open>m_held\<close> what they have done while it holds it; \<open>m_seq\<close> is the next id of \<^verbatim>\<open>entries\<close>.
\<close>

record menv =
  m_fate :: "nat \<Rightarrow> fate"
  m_others :: "nat \<Rightarrow> schema \<Rightarrow> schema"
  m_held :: "nat \<Rightarrow> schema \<Rightarrow> schema"
  m_now :: "nat \<Rightarrow> timestamp"
  m_seq :: "nat \<Rightarrow> int"

datatype merror =
    ErrNoChange
  | ErrDirty int
  | NoMigration nat
  | SourceError string
  | DatabaseError string
  | JoinedOne merror
  | Joined merror merror

text \<open>\<^verbatim>\<open>errors.Is(err, migrate.ErrNoChange)\<close>, which looks into joined errors.\<close>

fun is_no_change :: "merror \<Rightarrow> bool" where
  "is_no_change ErrNoChange = True"
| "is_no_change (JoinedOne e) = is_no_change e"
| "is_no_change (Joined e f) = (is_no_change e \<or> is_no_change f)"
| "is_no_change _ = False"

type_synonym mstate = "schema \<times> nat"
type_synonym 'a MM = "mstate \<Rightarrow> (merror + 'a) \<times> mstate"

definition bindMM :: "'a MM \<Rightarrow> ('a \<Rightarrow> 'b MM) \<Rightarrow> 'b MM" where
  "bindMM m f = (\<lambda>st. case m st of (Inl e, st') \<Rightarrow> (Inl e, st') | (Inr x, st') \<Rightarrow> f x st')"

definition m_call :: "menv \<Rightarrow> bool \<Rightarrow> (nat \<Rightarrow> schema \<Rightarrow> string + ('a \<times> schema)) \<Rightarrow> 'a MM" where
  "m_call env held f = (\<lambda>(s, k).
     let s0 = (if held then m_held env k s else m_others env k s)
     in case m_fate env k of
          Fail_before x \<Rightarrow> (Inl (DatabaseError x), (s0, k + 1))
        | ft \<Rightarrow>
            (case f k s0 of
               Inl e \<Rightarrow> (Inl (DatabaseError e), (s0, k + 1))
             | Inr (x, s1) \<Rightarrow>
                 ((case ft of Fail_after m \<Rightarrow> Inl (DatabaseError m) | _ \<Rightarrow> Inr x), (s1, k + 1))))"

subsection \<open>The database driver\<close>

definition Lock :: "menv \<Rightarrow> unit MM" where
  "Lock env = m_call env False (\<lambda>k s. Inr ((), s))"

definition Unlock :: "menv \<Rightarrow> unit MM" where
  "Unlock env = m_call env True (\<lambda>k s. Inr ((), s))"

definition Version :: "menv \<Rightarrow> (int \<times> bool) MM" where
  "Version env = m_call env True (\<lambda>k s.
     Inr ((case version_row s of None \<Rightarrow> (-1, False) | Some (v, dirty) \<Rightarrow> (int v, dirty)), s))"

text \<open>TRUNCATE and INSERT in one transaction.\<close>

definition SetVersion :: "menv \<Rightarrow> nat \<Rightarrow> bool \<Rightarrow> unit MM" where
  "SetVersion env v dirty = m_call env True (\<lambda>k s. Inr ((), s\<lparr>version_row := Some (v, dirty)\<rparr>))"

text \<open>A migration file: sent as one query, it takes effect as a whole or not at all.\<close>

type_synonym migration = "timestamp \<Rightarrow> int \<Rightarrow> db option \<Rightarrow> string + db"

definition Run :: "menv \<Rightarrow> migration \<Rightarrow> unit MM" where
  "Run env body = m_call env True (\<lambda>k s.
     case body (m_now env k) (m_seq env k) (tables s) of
       Inl e \<Rightarrow> Inl e
     | Inr D \<Rightarrow> Inr ((), s\<lparr>tables := Some D\<rparr>))"

subsection \<open>The source of the migrations\<close>

text \<open>The versions in the directory in increasing order, with what opening the up file gives.\<close>

type_synonym source = "(nat \<times> (merror + migration option)) list"

definition First :: "source \<Rightarrow> merror + nat" where
  "First src = (case src of [] \<Rightarrow> Inl (SourceError ''first'') | (v, _) # _ \<Rightarrow> Inr v)"

definition Next :: "source \<Rightarrow> int \<Rightarrow> nat option" where
  "Next src v = (if v \<in> int ` fst ` set src then find (\<lambda>u. v < int u) (map fst src) else None)"

definition newMigration :: "source \<Rightarrow> nat \<Rightarrow> merror + (nat \<times> migration option)" where
  "newMigration src v =
     (case map_of src v of
        Some (Inl e) \<Rightarrow> Inl e
      | Some (Inr b) \<Rightarrow> Inr (v, b)
      | None \<Rightarrow> Inr (v, None))"

definition versionExists :: "source \<Rightarrow> nat \<Rightarrow> merror option" where
  "versionExists src v =
     (case map_of src v of
        None \<Rightarrow> Some (NoMigration v)
      | Some (Inl e) \<Rightarrow> Some e
      | Some (Inr b) \<Rightarrow> None)"

text \<open>
  The loop of \<^verbatim>\<open>readUp\<close> without a limit: what it writes to the channel. Nobody signals \<^verbatim>\<open>GracefulStop\<close>.
\<close>

function readUp_loop :: "source \<Rightarrow> int \<Rightarrow> nat \<Rightarrow> (merror + (nat \<times> migration option)) list" where
  "readUp_loop src from cnt =
     (if from = -1 then
        (case First src of
           Inl e \<Rightarrow> [Inl e]
         | Inr firstVersion \<Rightarrow>
             (case newMigration src firstVersion of
                Inl e \<Rightarrow> [Inl e]
              | Inr migr \<Rightarrow> Inr migr # readUp_loop src (int firstVersion) (cnt + 1)))
      else
        (case Next src from of
           None \<Rightarrow> if cnt = 0 then [Inl ErrNoChange] else []
         | Some nxt \<Rightarrow>
             (case newMigration src nxt of
                Inl e \<Rightarrow> [Inl e]
              | Inr migr \<Rightarrow> Inr migr # readUp_loop src (int nxt) (cnt + 1))))"
  by pat_completeness auto

lemma Next_Some: "Next src v = Some u \<Longrightarrow> v < int u \<and> u \<in> fst ` set src"
  by (force simp: Next_def find_Some_iff in_set_conv_nth split: if_splits)

lemma later_decreases:
  assumes "from < int v" "v \<in> fst ` set src"
  shows "card {u \<in> fst ` set src. int v < int u} < card {u \<in> fst ` set src. from < int u}"
  using assms by (intro psubset_card_mono) auto

lemma First_Some: "First src = Inr v \<Longrightarrow> v \<in> fst ` set src"
  by (auto simp: First_def split: list.splits)

termination readUp_loop
proof (relation "measure (\<lambda>(src, from, cnt). card {u \<in> fst ` set src. from < int u})", goal_cases)
  case (2 src "from" cnt v migr)
  then show ?case using later_decreases [of "-1" v src] First_Some by simp
next
  case (3 src "from" cnt v migr)
  then show ?case using later_decreases [of "from" v src] Next_Some by simp
qed simp

declare readUp_loop.simps [simp del]

definition readUp :: "source \<Rightarrow> int \<Rightarrow> (merror + (nat \<times> migration option)) list" where
  "readUp src from =
     (if from \<ge> 0 then
        (case versionExists src (nat from) of Some e \<Rightarrow> [Inl e] | None \<Rightarrow> readUp_loop src from 0)
      else readUp_loop src from 0)"

subsection \<open>Up\<close>

fun runMigrations :: "menv \<Rightarrow> (merror + (nat \<times> migration option)) list \<Rightarrow> unit MM" where
  "runMigrations env [] st = (Inr (), st)"
| "runMigrations env (Inl e # _) st = (Inl e, st)"
| "runMigrations env (Inr (v, body) # rs) st =
     bindMM (SetVersion env v True) (\<lambda>_.
     bindMM (case body of None \<Rightarrow> (\<lambda>st. (Inr (), st)) | Some b \<Rightarrow> Run env b) (\<lambda>_.
     bindMM (SetVersion env v False) (\<lambda>_.
     runMigrations env rs))) st"

definition unlockErr :: "menv \<Rightarrow> merror option \<Rightarrow> unit MM" where
  "unlockErr env prevErr = (\<lambda>st.
     case Unlock env st of
       (Inl e, st') \<Rightarrow> (Inl (case prevErr of None \<Rightarrow> JoinedOne e | Some p \<Rightarrow> Joined p e), st')
     | (Inr _, st') \<Rightarrow> ((case prevErr of None \<Rightarrow> Inr () | Some p \<Rightarrow> Inl p), st'))"

definition Up :: "menv \<Rightarrow> source \<Rightarrow> unit MM" where
  "Up env src =
     bindMM (Lock env) (\<lambda>_ st.
       case Version env st of
         (Inl e, st1) \<Rightarrow> unlockErr env (Some e) st1
       | (Inr (curVersion, dirty), st1) \<Rightarrow>
           if dirty then unlockErr env (Some (ErrDirty curVersion)) st1
           else (case runMigrations env (readUp src curVersion) st1 of
                   (Inl e, st2) \<Rightarrow> unlockErr env (Some e) st2
                 | (Inr _, st2) \<Rightarrow> unlockErr env None st2))"

subsection \<open>The directory\<close>

definition up_0001 :: migration where
  "up_0001 now seq t = (case t of None \<Rightarrow> Inr init_up | Some _ \<Rightarrow> Inl ''relation accounts already exists'')"

definition up_0002 :: migration where
  "up_0002 now seq t =
     (case t of None \<Rightarrow> Inl ''relation accounts does not exist'' | Some D \<Rightarrow> Inr (seed_system_account_up now D))"

definition up_0003 :: migration where
  "up_0003 now seq t =
     (case t of None \<Rightarrow> Inl ''relation accounts does not exist'' | Some D \<Rightarrow> Inr (seed_demo_accounts_up now seq D))"

text \<open>The three files, some of which may not be readable.\<close>

definition open_file :: "(nat \<Rightarrow> string option) \<Rightarrow> nat \<Rightarrow> migration \<Rightarrow> merror + migration option" where
  "open_file bad v b = (case bad v of Some e \<Rightarrow> Inl (SourceError e) | None \<Rightarrow> Inr (Some b))"

definition migrations_dir :: "(nat \<Rightarrow> string option) \<Rightarrow> source" where
  "migrations_dir bad =
     [(1, open_file bad 1 up_0001), (2, open_file bad 2 up_0002), (3, open_file bad 3 up_0003)]"

subsection \<open>Versions of the schema\<close>

text \<open>The tables at each version, and the states a database is in: clean at a version or dirty.\<close>

definition stage :: "nat \<Rightarrow> db option \<Rightarrow> bool" where
  "stage v t \<longleftrightarrow>
     (v = 0 \<and> t = None) \<or> (v = 1 \<and> t = Some init_up) \<or>
     (v = 2 \<and> (\<exists>now. t = Some (seed_system_account_up now init_up))) \<or>
     (v = 3 \<and> (\<exists>D. t = Some D \<and> ledger_ok D))"

definition clean :: "nat \<Rightarrow> schema \<Rightarrow> bool" where
  "clean v s \<longleftrightarrow> version_row s = (if v = 0 then None else Some (v, False)) \<and> stage v (tables s)"

definition unfinished :: "nat \<Rightarrow> schema \<Rightarrow> bool" where
  "unfinished v s \<longleftrightarrow> 0 < v \<and> version_row s = Some (v, True) \<and> (stage (v - 1) (tables s) \<or> stage v (tables s))"

definition schema_ok :: "schema \<Rightarrow> bool" where
  "schema_ok s \<longleftrightarrow> (\<exists>v\<le>3. clean v s \<or> unfinished v s)"

text \<open>
  What other processes do: they keep the schema in one of these states, never go back from the last
  version, and only then use the tables; while the lock is held they do not migrate.
\<close>

definition mrely :: "schema \<Rightarrow> schema \<Rightarrow> bool" where
  "mrely s s' \<longleftrightarrow> (schema_ok s \<longrightarrow> schema_ok s') \<and> (clean 3 s \<longrightarrow> clean 3 s')"

definition mheld :: "schema \<Rightarrow> schema \<Rightarrow> bool" where
  "mheld s s' \<longleftrightarrow> (if clean 3 s then clean 3 s' else s' = s)"

definition menv_ok :: "menv \<Rightarrow> bool" where
  "menv_ok env \<longleftrightarrow> (\<forall>k s. mrely s (m_others env k s) \<and> mheld s (m_held env k s))"

lemma clean_schema: "clean v s \<Longrightarrow> v \<le> 3 \<Longrightarrow> schema_ok s"
  by (auto simp: schema_ok_def)

lemma unfinished_schema: "unfinished v s \<Longrightarrow> v \<le> 3 \<Longrightarrow> schema_ok s"
  by (auto simp: schema_ok_def)

lemma unfinished_not_clean: "unfinished v s \<Longrightarrow> \<not> clean u s"
  by (auto simp: unfinished_def clean_def)

lemma clean_unique: "clean v s \<Longrightarrow> clean u s \<Longrightarrow> u = v"
  by (auto simp: clean_def split: if_splits)

lemma m_held_same: "menv_ok env \<Longrightarrow> \<not> clean 3 s \<Longrightarrow> m_held env k s = s"
  by (auto simp: menv_ok_def mheld_def)

lemma m_held_clean: "menv_ok env \<Longrightarrow> clean v s \<Longrightarrow> clean v (m_held env k s)"
  by (cases "clean 3 s") (auto simp: menv_ok_def mheld_def dest: clean_unique)

lemma m_held_schema: "menv_ok env \<Longrightarrow> schema_ok s \<Longrightarrow> schema_ok (m_held env k s)"
  by (cases "clean 3 s") (auto simp: m_held_same intro: clean_schema m_held_clean)

lemma m_others_keeps:
  assumes "menv_ok env"
  shows "schema_ok s \<Longrightarrow> schema_ok (m_others env k s)" "clean 3 s \<Longrightarrow> clean 3 (m_others env k s)"
  using assms by (auto simp: menv_ok_def mrely_def)

text \<open>A call either fails without an effect of its own, or has its effect, whatever it answers.\<close>

lemma m_call_cases:
  assumes "m_call env h f (s, k) = (r, st)"
  obtains (none) x where "r = Inl (DatabaseError x)" "st = (if h then m_held env k s else m_others env k s, k + 1)"
  | (effect) x s1 where "f k (if h then m_held env k s else m_others env k s) = Inr (x, s1)" "st = (s1, k + 1)"
      "r = Inr x \<or> (\<exists>m. r = Inl (DatabaseError m))"
  using assms by (auto simp: m_call_def Let_def split: fate.splits sum.splits prod.splits)

lemma bindMM_cases:
  assumes "bindMM m f st = (r, st')"
  obtains (err) e where "m st = (Inl e, st')" "r = Inl e"
  | (ok) x st1 where "m st = (Inr x, st1)" "f x st1 = (r, st')"
  using assms by (auto simp: bindMM_def split: prod.splits sum.splits)

text \<open>What a migration does to the tables of the version before it.\<close>

definition steps_up :: "nat \<Rightarrow> migration \<Rightarrow> bool" where
  "steps_up v b \<longleftrightarrow> (\<forall>now seq t. stage v t \<longrightarrow> (\<exists>D. b now seq t = Inr D \<and> stage (Suc v) (Some D)))"

text \<open>A write while the lock is held, before the last version: done, or failed with or without effect.\<close>

definition wrote :: "schema \<Rightarrow> schema \<Rightarrow> merror + unit \<Rightarrow> schema \<Rightarrow> bool" where
  "wrote s t r s' \<longleftrightarrow> r = Inr () \<and> s' = t \<or> (\<exists>e. r = Inl (DatabaseError e) \<and> (s' = s \<or> s' = t))"

lemma wrote_call:
  assumes "menv_ok env" "\<not> clean 3 s" "m_call env True (\<lambda>k s. f k s) (s, k) = (r, (s', k'))" "\<And>k. f k s = Inr ((), g k)"
  shows "wrote s (g k) r s'"
  using assms(3) m_held_same [OF assms(1,2)] assms(4) by (cases rule: m_call_cases) (auto simp: wrote_def)

lemma SetVersion_wrote:
  "menv_ok env \<Longrightarrow> \<not> clean 3 s \<Longrightarrow> SetVersion env v d (s, k) = (r, (s', k')) \<Longrightarrow>
   wrote s (s\<lparr>version_row := Some (v, d)\<rparr>) r s'"
  unfolding SetVersion_def by (erule (2) wrote_call) simp

lemma Run_wrote:
  assumes "menv_ok env" "\<not> clean 3 s" "Run env b (s, k) = (r, (s', k'))" "steps_up v b" "stage v (tables s)"
  obtains D where "stage (Suc v) (Some D)" "wrote s (s\<lparr>tables := Some D\<rparr>) r s'"
proof -
  have "\<forall>k. \<exists>D. b (m_now env k) (m_seq env k) (tables s) = Inr D \<and> stage (Suc v) (Some D)"
    using assms(4,5) by (auto simp: steps_up_def)
  then obtain D where D: "\<And>k. b (m_now env k) (m_seq env k) (tables s) = Inr (D k)" "\<And>k. stage (Suc v) (Some (D k))"
    by metis
  have "wrote s (s\<lparr>tables := Some (D k)\<rparr>) r s'"
    using assms(1-3) unfolding Run_def by (rule wrote_call) (simp add: D(1))
  with D(2) that show ?thesis by blast
qed

text \<open>From the state marked dirty: the migration and the second write of the version row.\<close>

lemma run_and_clear:
  assumes env: "menv_ok env" and d: "unfinished (Suc v) d" "version_row d = Some (Suc v, True)" "stage v (tables d)" and b: "steps_up v b"
    and run: "bindMM (Run env b) (\<lambda>_. bindMM (SetVersion env (Suc v) False) (\<lambda>_. rest)) (d, k) = (r, (s', k'))"
  obtains (failed) e where "r = Inl (DatabaseError e)" "unfinished (Suc v) s' \<or> clean (Suc v) s'"
  | (applied) s1 k1 where "clean (Suc v) s1" "rest (s1, k1) = (r, (s', k'))"
proof -
  obtain r2 s2 k2 where 2: "Run env b (d, k) = (r2, (s2, k2))" by (metis prod.collapse)
  from Run_wrote [OF env unfinished_not_clean [OF d(1)] 2 b d(3)] obtain D where
    D: "stage (Suc v) (Some D)" and w2: "wrote d (d\<lparr>tables := Some D\<rparr>) r2 s2" by blast
  let ?e = "d\<lparr>tables := Some D\<rparr>"
  have e: "unfinished (Suc v) ?e" "clean (Suc v) (?e\<lparr>version_row := Some (Suc v, False)\<rparr>)"
    using D d(2) by (simp_all add: unfinished_def clean_def)
  show thesis
  proof (cases r2)
    case (Inl x)
    with run 2 w2 d e show ?thesis by (auto simp: bindMM_def wrote_def intro: failed)
  next
    case (Inr u)
    with w2 have s2: "s2 = ?e" by (simp add: wrote_def)
    obtain r3 s3 k3 where 3: "SetVersion env (Suc v) False (?e, k2) = (r3, (s3, k3))" by (metis prod.collapse)
    from SetVersion_wrote [OF env unfinished_not_clean [OF e(1)] 3]
    have w3: "wrote ?e (?e\<lparr>version_row := Some (Suc v, False)\<rparr>) r3 s3" .
    show ?thesis
    proof (cases r3)
      case (Inl x)
      with run 2 3 Inr s2 w3 e show ?thesis by (auto simp: bindMM_def wrote_def intro: failed)
    next
      case (Inr y)
      with run 2 3 \<open>r2 = Inr u\<close> s2 w3 e(2) show ?thesis by (auto simp: bindMM_def wrote_def intro: applied)
    qed
  qed
qed

lemma runMigrations_step:
  assumes env: "menv_ok env" and s: "clean v s" "v < 3" and b: "steps_up v b"
    and run: "runMigrations env (Inr (Suc v, Some b) # rs) (s, k) = (r, (s', k'))"
  obtains (failed) e where "r = Inl (DatabaseError e)" "schema_ok s'"
  | (applied) s1 k1 where "clean (Suc v) s1" "runMigrations env rs (s1, k1) = (r, (s', k'))"
proof -
  let ?d = "s\<lparr>version_row := Some (Suc v, True)\<rparr>"
  obtain r1 s1 k1 where 1: "SetVersion env (Suc v) True (s, k) = (r1, (s1, k1))" by (metis prod.collapse)
  have "\<not> clean 3 s" using s clean_unique by blast
  from SetVersion_wrote [OF env this 1] have w1: "wrote s ?d r1 s1" .
  have d: "unfinished (Suc v) ?d" "version_row ?d = Some (Suc v, True)" "stage v (tables ?d)"
    using s by (simp_all add: unfinished_def clean_def)
  have ok: "schema_ok s'" if "clean v s' \<or> unfinished (Suc v) s' \<or> clean (Suc v) s'"
    using that s(2) by (auto intro: clean_schema unfinished_schema)
  show thesis
  proof (cases r1)
    case (Inl e)
    with run 1 w1 s(1) d(1) have "\<exists>x. r = Inl (DatabaseError x)" "clean v s' \<or> unfinished (Suc v) s'"
      by (auto simp: bindMM_def wrote_def)
    with failed ok show ?thesis by blast
  next
    case (Inr u)
    with run 1 w1 have "bindMM (Run env b) (\<lambda>_. bindMM (SetVersion env (Suc v) False) (\<lambda>_. runMigrations env rs)) (?d, k1) = (r, (s', k'))"
      by (simp add: bindMM_def wrote_def)
    from run_and_clear [OF env d b this] show ?thesis using failed applied ok by blast
  qed
qed

subsection \<open>The three migrations\<close>

lemma seeds_eq:
  "seed_demo_accounts_up now seq (seed_system_account_up now0 init_up) =
     (seed_db now)\<lparr>accounts := map (\<lambda>r. if ar_id r = external_id then r\<lparr>ar_created_at := now0\<rparr> else r) (accounts (seed_db now)),
       entries := map (\<lambda>e. e\<lparr>er_id := er_id e + (seq - 1)\<rparr>) (entries (seed_db now))\<rparr>"
  by (simp add: seed_db_eq seed_demo_accounts_up_def seed_system_account_up_def init_up_def insert_account_def
      insert_transaction_def insert_seed_entry_def charge_external_def set_external_balance_def set_balance_def seed_neq)

lemma seeds_ledger: "ledger_ok (seed_demo_accounts_up now seq (seed_system_account_up now0 init_up))"
proof -
  let ?D = "seed_demo_accounts_up now seq (seed_system_account_up now0 init_up)"
  have "keys_ok ?D" by (simp add: keys_ok_def seeds_eq seed_db_eq seed_neq)
  moreover have "\<forall>r\<in>set (accounts ?D). account_ok ?D r"
    by (simp add: seeds_eq seed_db_eq account_ok_def account_net_def signed_def numeric_fits_def seed_neq seed_wf
        external_id_eq [symmetric])
  moreover have "\<forall>e\<in>set (entries ?D). entry_ok ?D e"
    by (simp add: seeds_eq seed_db_eq entry_ok_def numeric_fits_def seed_neq)
  moreover have "\<forall>t\<in>set (transactions ?D). transaction_ok ?D t"
    by (simp add: seeds_eq seed_db_eq transaction_ok_def legs_def seed_neq direction_defs kind_defs Let_def
        external_id_eq [symmetric])
  moreover have "ExternalAccountID \<in> ar_id ` set (accounts ?D)"
    by (simp add: seeds_eq seed_db_eq external_id_eq)
  ultimately show ?thesis by (simp add: ledger_ok_def)
qed

definition up_file :: "nat \<Rightarrow> migration" where
  "up_file v = (if v = 1 then up_0001 else if v = 2 then up_0002 else up_0003)"

lemma up_steps: "v < 3 \<Longrightarrow> steps_up v (up_file (Suc v))"
  by (cases "v = 0"; cases "v = 1")
    (auto simp: steps_up_def stage_def up_file_def up_0001_def up_0002_def up_0003_def seeds_ledger)

lemma dir_next:
  assumes "v < 3"
  shows "(0 < v \<longrightarrow> Next (migrations_dir bad) (int v) = Some (Suc v)) \<and> newMigration (migrations_dir bad) (Suc v) =
     (case bad (Suc v) of Some e \<Rightarrow> Inl (SourceError e) | None \<Rightarrow> Inr (Suc v, Some (up_file (Suc v))))"
proof -
  from assms consider "v = 0" | "v = 1" | "v = 2" by linarith
  then show ?thesis
    by cases (simp_all add: migrations_dir_def Next_def newMigration_def open_file_def up_file_def flip: numeral_2_eq_2 split: option.splits)
qed

lemma dir_exists:
  assumes "0 < v" "v \<le> 3"
  shows "versionExists (migrations_dir bad) v = map_option SourceError (bad v)"
proof -
  from assms consider "v = 1" | "v = 2" | "v = 3" by linarith
  then show ?thesis by cases (simp_all add: migrations_dir_def versionExists_def open_file_def split: option.splits)
qed

lemma dir_ends: "First (migrations_dir bad) = Inr 1" "Next (migrations_dir bad) 3 = None"
  by (simp_all add: First_def Next_def migrations_dir_def)

text \<open>The position of the loop at a version: the nil version is -1.\<close>

definition at_version :: "nat \<Rightarrow> int" where
  "at_version v = (if v = 0 then -1 else int v)"

lemma readUp_loop_at:
  "readUp_loop (migrations_dir bad) (at_version 3) n = (if n = 0 then [Inl ErrNoChange] else [])"
  "v < 3 \<Longrightarrow> readUp_loop (migrations_dir bad) (at_version v) n =
     (case bad (Suc v) of Some e \<Rightarrow> [Inl (SourceError e)]
      | None \<Rightarrow> Inr (Suc v, Some (up_file (Suc v))) # readUp_loop (migrations_dir bad) (at_version (Suc v)) (n + 1))"
proof -
  show "v < 3 \<Longrightarrow> readUp_loop (migrations_dir bad) (at_version v) n =
     (case bad (Suc v) of Some e \<Rightarrow> [Inl (SourceError e)]
      | None \<Rightarrow> Inr (Suc v, Some (up_file (Suc v))) # readUp_loop (migrations_dir bad) (at_version (Suc v)) (n + 1))"
    using dir_next [of 0 bad] dir_next [of v bad]
    by (subst readUp_loop.simps) (auto simp: at_version_def dir_ends split: option.splits)
qed (subst readUp_loop.simps, simp add: at_version_def dir_ends)

lemma runMigrations_all:
  assumes env: "menv_ok env"
  shows "clean v s \<Longrightarrow> v \<le> 3 \<Longrightarrow>
    runMigrations env (readUp_loop (migrations_dir bad) (at_version v) n) (s, k) = (r, (s', k')) \<Longrightarrow>
    schema_ok s' \<and> (r = Inr () \<or> (\<exists>e. r = Inl e \<and> is_no_change e) \<longrightarrow> clean 3 s')"
proof (induction "3 - v" arbitrary: v n s k)
  case 0
  then have "v = 3" by simp
  with 0 show ?case by (auto simp: readUp_loop_at split: if_splits intro: clean_schema)
next
  case (Suc m)
  then have v: "v < 3" "m = 3 - Suc v" "Suc v \<le> 3" by simp_all
  show ?case
  proof (cases "bad (Suc v)")
    case (Some e)
    with Suc.prems v(1) show ?thesis by (auto simp: readUp_loop_at intro: clean_schema)
  next
    case None
    with Suc.prems(3) v(1) have "runMigrations env (Inr (Suc v, Some (up_file (Suc v))) #
        readUp_loop (migrations_dir bad) (at_version (Suc v)) (n + 1)) (s, k) = (r, (s', k'))"
      by (simp add: readUp_loop_at del: runMigrations.simps)
    from runMigrations_step [OF env Suc.prems(1) v(1) up_steps [OF v(1)] this] consider
        (failed) e where "r = Inl (DatabaseError e)" "schema_ok s'"
      | (applied) s1 k1 where "clean (Suc v) s1"
          "runMigrations env (readUp_loop (migrations_dir bad) (at_version (Suc v)) (n + 1)) (s1, k1) = (r, (s', k'))" .
    then show ?thesis
    proof cases
      case failed
      then show ?thesis by auto
    next
      case (applied s1 k1)
      from Suc.hyps(1) [OF v(2) applied(1) v(3) applied(2)] show ?thesis .
    qed
  qed
qed

subsection \<open>What Up leaves behind\<close>

lemma unlockErr_keeps:
  assumes "menv_ok env" "unlockErr env p (s, k) = (r, (s', k'))"
  shows "schema_ok s \<Longrightarrow> schema_ok s'" "clean 3 s \<Longrightarrow> clean 3 s'" "\<not> clean 3 s \<Longrightarrow> s' = s"
    "r = Inr () \<Longrightarrow> p = None" "r = Inl e \<Longrightarrow> is_no_change e \<Longrightarrow> \<exists>p'. p = Some p' \<and> is_no_change p'"
proof -
  obtain ru su ku where u: "Unlock env (s, k) = (ru, (su, ku))" by (metis prod.collapse)
  then have "su = m_held env k s" "ru = Inr () \<or> (\<exists>x. ru = Inl (DatabaseError x))"
    unfolding Unlock_def by (auto elim!: m_call_cases)
  moreover have "s' = su" "r = Inr () \<Longrightarrow> p = None" "\<forall>x. ru = Inl (DatabaseError x) \<longrightarrow> r = Inl e \<longrightarrow> is_no_change e \<longrightarrow> (\<exists>p'. p = Some p' \<and> is_no_change p')"
    "ru = Inr () \<longrightarrow> r = Inl e \<longrightarrow> p = Some e"
    using assms(2) u by (auto simp: unlockErr_def split: sum.splits option.splits)
  ultimately show "schema_ok s \<Longrightarrow> schema_ok s'" "clean 3 s \<Longrightarrow> clean 3 s'" "\<not> clean 3 s \<Longrightarrow> s' = s"
    "r = Inr () \<Longrightarrow> p = None" "r = Inl e \<Longrightarrow> is_no_change e \<Longrightarrow> \<exists>p'. p = Some p' \<and> is_no_change p'"
    using m_held_schema [OF assms(1), of s k] m_held_clean [OF assms(1), of 3 s k] m_held_same [OF assms(1), of s k] by auto
qed

lemma Version_result:
  assumes "menv_ok env" "Version env (s, k) = (r, (s', k'))"
  shows "s' = m_held env k s" "(\<exists>x. r = Inl (DatabaseError x)) \<or>
    r = Inr (case version_row s' of None \<Rightarrow> (-1, False) | Some (v, dirty) \<Rightarrow> (int v, dirty))"
  using assms(2) unfolding Version_def by (auto elim!: m_call_cases)

lemma version_at:
  "clean n s \<Longrightarrow> (case version_row s of None \<Rightarrow> (-1, False) | Some (v, dirty) \<Rightarrow> (int v, dirty)) = (at_version n, False)"
  "unfinished n s \<Longrightarrow> (case version_row s of None \<Rightarrow> (-1, False) | Some (v, dirty) \<Rightarrow> (int v, dirty)) = (int n, True)"
  by (auto simp: clean_def unfinished_def at_version_def)

lemma readUp_at:
  assumes "v \<le> 3"
  shows "readUp (migrations_dir bad) (at_version v) = readUp_loop (migrations_dir bad) (at_version v) 0 \<or>
    (\<exists>e. readUp (migrations_dir bad) (at_version v) = [Inl (SourceError e)])"
  using dir_exists [of v bad] assms
  by (cases "v = 0") (auto simp: readUp_def at_version_def split: option.splits)

lemma Up_keeps:
  assumes env: "menv_ok env" and s: "schema_ok s" and run: "Up env (migrations_dir bad) (s, k) = (r, (s', k'))"
  shows "schema_ok s' \<and> (r = Inr () \<or> (\<exists>e. r = Inl e \<and> is_no_change e) \<longrightarrow> clean 3 s')"
proof -
  have fin: ?thesis if "unlockErr env p (x, y) = (r, (s', k'))" "schema_ok x"
    "p = None \<or> (\<exists>e. p = Some e \<and> is_no_change e) \<longrightarrow> clean 3 x" for p x y
    using unlockErr_keeps [OF env that(1)] that(2,3) by blast
  from run show ?thesis unfolding Up_def
  proof (cases rule: bindMM_cases)
    case (err e)
    then show ?thesis using m_others_keeps [OF env] s unfolding Lock_def by (auto elim!: m_call_cases)
  next
    case (ok x st1)
    then have st1: "st1 = (m_others env k s, k + 1)" unfolding Lock_def by (auto elim!: m_call_cases)
    have s1: "schema_ok (m_others env k s)" using m_others_keeps [OF env] s by blast
    obtain rv sv kv where v: "Version env st1 = (rv, (sv, kv))" by (metis prod.collapse)
    have sv: "schema_ok sv" "(\<exists>x. rv = Inl (DatabaseError x)) \<or>
        rv = Inr (case version_row sv of None \<Rightarrow> (-1, False) | Some (v, dirty) \<Rightarrow> (int v, dirty))"
      using Version_result [OF env v [unfolded st1]] m_held_schema [OF env s1] by simp_all
    then consider (fails) x where "rv = Inl (DatabaseError x)"
      | (dirty) n where "rv = Inr (n, True)" | (at) n where "n \<le> 3" "clean n sv" "rv = Inr (at_version n, False)"
      unfolding schema_ok_def by (metis version_at)
    then show ?thesis
    proof cases
      case at
      obtain rr sr kr where m: "runMigrations env (readUp (migrations_dir bad) (at_version n)) (sv, kv) = (rr, (sr, kr))"
        by (metis prod.collapse)
      then have rr: "schema_ok sr \<and> (rr = Inr () \<or> (\<exists>e. rr = Inl e \<and> is_no_change e) \<longrightarrow> clean 3 sr)"
        using readUp_at [OF at(1), of bad] runMigrations_all [OF env at(2,1), of bad 0 kv rr sr kr] sv(1) by auto
      let ?p = "case rr of Inl e \<Rightarrow> Some e | Inr _ \<Rightarrow> None"
      have "unlockErr env ?p (sr, kr) = (r, (s', k'))" using ok(2) v at(3) m by (simp split: sum.splits)
      then show ?thesis by (rule fin) (use rr in \<open>auto split: sum.splits\<close>)
    next
      case fails
      with ok(2) v show ?thesis by (intro fin [of "Some (DatabaseError x)" sv kv]) (auto simp: sv(1))
    next
      case dirty
      with ok(2) v show ?thesis by (intro fin [of "Some (ErrDirty n)" sv kv]) (auto simp: sv(1))
    qed
  qed
qed

text \<open>A dirty database is refused and left as it is, whatever fails.\<close>

lemma Up_dirty:
  assumes env: "menv_ok env" and d: "version_row (m_others env k s) = Some (v, True)"
    and run: "Up env src (s, k) = (r, (s', k'))"
  shows "s' = m_others env k s \<and> (\<exists>e. r = Inl e \<and> \<not> is_no_change e)"
  using run unfolding Up_def
proof (cases rule: bindMM_cases)
  case (err e)
  then show ?thesis unfolding Lock_def by (auto elim!: m_call_cases)
next
  case (ok x st1)
  let ?s = "m_others env k s"
  have st1: "st1 = (?s, k + 1)" using ok(1) unfolding Lock_def by (auto elim!: m_call_cases)
  have c: "\<not> clean 3 ?s" using d by (simp add: clean_def)
  obtain rv sv kv where v: "Version env st1 = (rv, (sv, kv))" by (metis prod.collapse)
  from Version_result [OF env v [unfolded st1]] m_held_same [OF env c] d
  have rv: "sv = ?s" "(\<exists>x. rv = Inl (DatabaseError x)) \<or> rv = Inr (int v, True)" by auto
  then obtain p where "unlockErr env (Some p) (?s, kv) = (r, (s', k'))" "\<not> is_no_change p"
    using ok(2) v by (auto split: if_splits)
  with unlockErr_keeps [OF env, of "Some p" ?s kv r s' k'] c show ?thesis by (cases r) auto
qed

subsection \<open>Undisturbed\<close>

definition m_calm :: "menv \<Rightarrow> bool" where
  "m_calm env \<longleftrightarrow> (\<forall>k. m_fate env k = Proceed) \<and> (\<forall>k s. m_others env k s = s \<and> m_held env k s = s)"

lemma m_calm_ok: "m_calm env \<Longrightarrow> menv_ok env"
  by (simp add: m_calm_def menv_ok_def mrely_def mheld_def)

lemma m_calm_call:
  "m_calm env \<Longrightarrow> m_call env h f (s, k) =
     (case f k s of Inl e \<Rightarrow> (Inl (DatabaseError e), (s, k + 1)) | Inr (x, s1) \<Rightarrow> (Inr x, (s1, k + 1)))"
  by (auto simp: m_calm_def m_call_def Let_def split: sum.splits)

lemmas calm_driver = Lock_def Unlock_def Version_def SetVersion_def Run_def unlockErr_def bindMM_def m_calm_call

lemma Up_fresh:
  assumes "m_calm env" "version_row s = None" "tables s = None"
  shows "\<exists>now0 now seq k'. Up env (migrations_dir (\<lambda>_. None)) (s, k) =
    (Inr (), (s\<lparr>tables := Some (seed_demo_accounts_up now seq (seed_system_account_up now0 init_up)),
       version_row := Some (3, False)\<rparr>, k'))"
proof -
  have "readUp (migrations_dir (\<lambda>_. None)) (- 1) = [Inr (1, Some up_0001), Inr (2, Some up_0002), Inr (3, Some up_0003)]"
    using readUp_loop_at(2) [of 0 "\<lambda>_. None" 0] readUp_loop_at(2) [of 1 "\<lambda>_. None" 1] readUp_loop_at(2) [of 2 "\<lambda>_. None" 2]
      readUp_loop_at(1) [of "\<lambda>_. None" 3]
    by (simp add: readUp_def at_version_def up_file_def numeral_2_eq_2 numeral_3_eq_3)
  with assms show ?thesis
    by (simp add: Up_def calm_driver up_0001_def up_0002_def up_0003_def) blast
qed

lemma Up_again:
  assumes "m_calm env" "clean 3 s"
  shows "Up env (migrations_dir (\<lambda>_. None)) (s, k) = (Inl ErrNoChange, (s, k + 3))"
proof -
  have "readUp (migrations_dir (\<lambda>_. None)) 3 = [Inl ErrNoChange]"
    using readUp_loop_at(1) [of "\<lambda>_. None" 0] dir_exists [of 3 "\<lambda>_. None"] by (simp add: readUp_def at_version_def)
  with assms show ?thesis by (simp add: Up_def calm_driver clean_def)
qed

end
