(* ===== verification/Server.thy ===== *)
theory Server
  imports Migrator Guarantees Sample
begin

text \<open>
  \<^verbatim>\<open>cmd/server/main.go\<close>: the start (environment, migrations, connection pool, address), the routes of
  the mux around those of the API, and the life of the process as a step relation: starting, listening
  and serving requests, stopped with an exit code. \<^verbatim>\<open>store.New\<close> is here too. A server listens only on a
  database at the last version of the schema, and serves every request on a correct ledger.
\<close>

subsection \<open>Starting\<close>

text \<open>
  \<^verbatim>\<open>migrate.New\<close> opens the directory and the database and sees to it that the table of versions is there;
  \<^verbatim>\<open>store.New\<close> makes the pool and pings. Neither touches the version row or the program's tables.
\<close>

definition migrate_New :: "menv \<Rightarrow> unit MM" where
  "migrate_New env = m_call env False (\<lambda>k s. Inr ((), s))"

definition pool_New :: "menv \<Rightarrow> unit MM" where
  "pool_New env = m_call env False (\<lambda>k s. Inr ((), s))"

definition Ping :: "menv \<Rightarrow> unit MM" where
  "Ping env = m_call env False (\<lambda>k s. Inr ((), s))"

definition Store_New :: "menv \<Rightarrow> unit MM" where
  "Store_New env = bindMM (pool_New env) (\<lambda>_. Ping env)"

definition server_addr :: "(string \<Rightarrow> string) \<Rightarrow> string" where
  "server_addr getenv = (let port = getenv ''PORT'' in '':'' @ (if port = [] then ''8080'' else port))"

text \<open>The start of \<^verbatim>\<open>main\<close>, up to \<^verbatim>\<open>ListenAndServe\<close>: the address, or \<open>None\<close> where it calls \<^verbatim>\<open>os.Exit(1)\<close>.\<close>

definition start_server :: "menv \<Rightarrow> (nat \<Rightarrow> string option) \<Rightarrow> (string \<Rightarrow> string) \<Rightarrow> mstate \<Rightarrow> string option \<times> mstate" where
  "start_server env bad getenv st =
     (if getenv ''DATABASE_URL'' = [] then (None, st)
      else case migrate_New env st of
             (Inl _, st1) \<Rightarrow> (None, st1)
           | (Inr _, st1) \<Rightarrow>
               (case Up env (migrations_dir bad) st1 of
                  (res, st2) \<Rightarrow>
                    if (case res of Inl err \<Rightarrow> \<not> is_no_change err | Inr _ \<Rightarrow> False) then (None, st2)
                    else (case Store_New env st2 of
                            (Inl _, st3) \<Rightarrow> (None, st3)
                          | (Inr _, st3) \<Rightarrow> (Some (server_addr getenv), st3))))"

subsection \<open>The mux\<close>

text \<open>
  Paths are the segments of a cleaned path: \<^verbatim>\<open>/\<close> has one empty segment, \<^verbatim>\<open>/static/\<close> ends in one. What the
  file server finds below \<^verbatim>\<open>web\<close> is not modelled.
\<close>

datatype reply = ApiReply response | HealthOK | FileReply "string list" | IndexPage | RedirectSlash

definition mux_serve :: "env \<Rightarrow> request \<Rightarrow> reply M" where
  "mux_serve env r =
     (let get = is_get (r_method r); refuse = returnM (ApiReply (writeJSON 405 PNone)) in
      if r_path r = [''healthz''] then (if get then returnM HealthOK else refuse)
      else if r_path r = [[]] then (if get then returnM IndexPage else refuse)
      else if r_path r = [''static''] then (if get then returnM RedirectSlash else refuse)
      else if take 1 (r_path r) = [''static''] then (if get then returnM (FileReply (drop 1 (r_path r))) else refuse)
      else bindM (serve env r) (\<lambda>resp. returnM (ApiReply resp)))"

subsection \<open>The process\<close>

datatype phase = Starting mstate | Listening string world | Stopped nat

definition new_process :: "db \<Rightarrow> world \<Rightarrow> bool" where
  "new_process D w \<longleftrightarrow> wdb w = D \<and> snap w = D \<and> pending w = [] \<and> lastV7time w = 0"

text \<open>
  A request whose handler panics ends like any other for the server. \<^verbatim>\<open>ListenAndServe\<close> may fail; a signal
  ends the process with code 0.
\<close>

inductive server_step :: "menv \<Rightarrow> (nat \<Rightarrow> string option) \<Rightarrow> (string \<Rightarrow> string) \<Rightarrow> env \<Rightarrow> phase \<Rightarrow> phase \<Rightarrow> bool"
  for menv bad getenv env where
  start_fails: "start_server menv bad getenv st = (None, st') \<Longrightarrow> server_step menv bad getenv env (Starting st) (Stopped 1)"
| start_listens: "start_server menv bad getenv st = (Some addr, st') \<Longrightarrow> tables (fst st') = Some D \<Longrightarrow> new_process D w \<Longrightarrow>
    server_step menv bad getenv env (Starting st) (Listening addr w)"
| request: "mux_serve env r w = (res, w') \<Longrightarrow> server_step menv bad getenv env (Listening addr w) (Listening addr w')"
| listen_fails: "server_step menv bad getenv env (Listening addr w) (Stopped 1)"
| signal: "server_step menv bad getenv env (Listening addr w) (Stopped 0)"

inductive_cases from_starting: "server_step menv bad getenv env (Starting st) ph"
inductive_cases from_listening: "server_step menv bad getenv env (Listening addr w) ph"
inductive_cases from_stopped: "server_step menv bad getenv env (Stopped c) ph"

subsection \<open>What starting keeps\<close>

lemma idle_call:
  assumes "m_call env False (\<lambda>k s. Inr ((), s)) (s, k) = (r, (s', k'))"
  shows "s' = m_others env k s"
  using assms by (auto elim!: m_call_cases)

lemma Store_New_keeps:
  assumes env: "menv_ok env" and run: "Store_New env (s, k) = (r, (s', k'))"
  shows "schema_ok s \<Longrightarrow> schema_ok s'" "clean 3 s \<Longrightarrow> clean 3 s'"
proof -
  from run have "s' = m_others env k s \<or> (\<exists>k1. s' = m_others env k1 (m_others env k s))"
    unfolding Store_New_def pool_New_def Ping_def by (cases rule: bindMM_cases) (auto dest!: idle_call elim!: m_call_cases)
  then show "schema_ok s \<Longrightarrow> schema_ok s'" "clean 3 s \<Longrightarrow> clean 3 s'"
    using m_others_keeps [OF env] by auto
qed

lemma start_keeps:
  assumes env: "menv_ok env" and s: "schema_ok s" and run: "start_server env bad getenv (s, k) = (a, (s', k'))"
  shows "schema_ok s'" "a = Some addr \<Longrightarrow> clean 3 s' \<and> addr = server_addr getenv \<and> getenv ''DATABASE_URL'' \<noteq> []"
proof -
  obtain r1 s1 k1 where 1: "migrate_New env (s, k) = (r1, (s1, k1))" by (metis prod.collapse)
  obtain r2 s2 k2 where 2: "Up env (migrations_dir bad) (s1, k1) = (r2, (s2, k2))" by (metis prod.collapse)
  obtain r3 s3 k3 where 3: "Store_New env (s2, k2) = (r3, (s3, k3))" by (metis prod.collapse)
  have s1: "schema_ok s1" using 1 s m_others_keeps(1) [OF env] unfolding migrate_New_def by (metis idle_call)
  note u = Up_keeps [OF env s1 2] and n = Store_New_keeps [OF env 3]
  show "schema_ok s'"
    using run 1 2 3 s s1 u n by (auto simp: start_server_def split: if_splits sum.splits)
  show "clean 3 s' \<and> addr = server_addr getenv \<and> getenv ''DATABASE_URL'' \<noteq> []" if "a = Some addr"
    using run 1 2 3 that u n(2) by (auto simp: start_server_def split: if_splits sum.splits)
qed

lemma mux_keeps: "env_ok env \<Longrightarrow> keeps (lift_db rely) (mux_serve env r)"
  unfolding mux_serve_def Let_def by (auto intro!: ir.keeps_intros serve_keeps)

lemma listening_keeps:
  assumes "env_ok env" "server_step menv bad getenv env (Listening addr w) (Listening addr' w')"
  shows "addr' = addr \<and> rely (wdb w) (wdb w')"
  using assms(2) mux_keeps [OF assms(1)] unfolding keeps_def lift_db_def by (elim from_listening) (metis phase.inject(2) snd_conv, simp_all)

lemma server_reachable:
  assumes env: "env_ok env" "menv_ok menv" "schema_ok s"
    and run: "(server_step menv bad getenv env)\<^sup>*\<^sup>* (Starting (s, k)) ph"
  shows "case ph of Starting st \<Rightarrow> st = (s, k)
    | Listening addr w \<Rightarrow> ledger_ok (wdb w) \<and> addr = server_addr getenv \<and> getenv ''DATABASE_URL'' \<noteq> []
    | Stopped c \<Rightarrow> c = 0 \<or> c = 1"
  using run
proof (induction rule: rtranclp_induct)
  case (step ph ph')
  from step.hyps(2) step.IH show ?case
  proof (cases rule: server_step.cases)
    case (start_listens st addr st' D w)
    obtain s' k' where st': "st' = (s', k')" by fastforce
    from start_listens(3) step.IH start_listens(1) have "start_server menv bad getenv (s, k) = (Some addr, (s', k'))"
      by (simp add: st')
    from start_keeps(2) [OF env(2,3) this refl] start_listens show ?thesis
      by (auto simp: clean_def stage_def st' new_process_def)
  next
    case (request r w res w' addr)
    with step.IH listening_keeps [OF env(1), of menv bad getenv addr w addr w'] step.hyps(2) show ?thesis
      by (auto dest: relyD(1))
  qed auto
qed simp

subsection \<open>An environment to evaluate\<close>

definition sample_menv :: menv where
  "sample_menv = \<lparr>m_fate = (\<lambda>_. Proceed), m_others = (\<lambda>k s. s), m_held = (\<lambda>k s. s), m_now = (\<lambda>_. 0), m_seq = (\<lambda>_. 1)\<rparr>"

definition empty_schema :: schema where
  "empty_schema = \<lparr>version_row = None, tables = None\<rparr>"

definition sample_getenv :: "string \<Rightarrow> string" where
  "sample_getenv name = (if name = ''DATABASE_URL'' then ''postgres://db'' else [])"

lemma sample_menv_calm: "m_calm sample_menv"
  by (simp add: m_calm_def sample_menv_def)

lemma empty_schema_ok: "clean 0 empty_schema" "schema_ok empty_schema"
  using clean_schema [of 0] by (simp_all add: clean_def stage_def empty_schema_def)

lemma calm_idle: "m_calm env \<Longrightarrow> migrate_New env (s, k) = (Inr (), (s, k + 1)) \<and> Store_New env (s, k) = (Inr (), (s, k + 2))"
  by (simp add: migrate_New_def Store_New_def pool_New_def Ping_def bindMM_def m_calm_call)

lemma start_fresh:
  assumes "m_calm env" "getenv ''DATABASE_URL'' \<noteq> []" "version_row s = None" "tables s = None"
  obtains now0 now seq s' k' where "start_server env (\<lambda>_. None) getenv (s, k) = (Some (server_addr getenv), (s', k'))"
    "version_row s' = Some (3, False)" "tables s' = Some (seed_demo_accounts_up now seq (seed_system_account_up now0 init_up))"
proof -
  obtain now0 now seq k' where up: "Up env (migrations_dir (\<lambda>_. None)) (s, k + 1) =
      (Inr (), (s\<lparr>tables := Some (seed_demo_accounts_up now seq (seed_system_account_up now0 init_up)),
         version_row := Some (3, False)\<rparr>, k'))"
    using Up_fresh [OF assms(1,3,4), of "k + 1"] by blast
  show ?thesis
    by (rule that) (simp_all only: start_server_def assms(2) calm_idle [OF assms(1)] up if_False prod.case sum.case, simp_all)
qed

lemma sample_start:
  obtains s' k' D where "start_server sample_menv (\<lambda>_. None) sample_getenv (empty_schema, 0) = (Some '':8080'', (s', k'))"
    "tables s' = Some D"
proof -
  have "sample_getenv ''DATABASE_URL'' \<noteq> []" "server_addr sample_getenv = '':8080''"
    by (simp_all add: sample_getenv_def server_addr_def)
  moreover have "version_row empty_schema = None" "tables empty_schema = None" by (simp_all add: empty_schema_def)
  ultimately show ?thesis using start_fresh [OF sample_menv_calm, of sample_getenv empty_schema 0] that by metis
qed

subsection \<open>Properties\<close>

text \<open>
  C15: starting is safe: whatever call fails, and whatever other instances do that keep to the same rules,
  a start leaves the database at a version of the schema or marked dirty at the one that was being
  applied; and the server comes to listen only with \<^verbatim>\<open>DATABASE_URL\<close> set, on the port asked for or 8080, at
  the last version, over a correct ledger.
\<close>

theorem start_safe:
  assumes "menv_ok env" "schema_ok s" "start_server env bad getenv (s, k) = (a, (s', k'))"
  shows "schema_ok s' \<and> (\<forall>addr. a = Some addr \<longrightarrow>
    getenv ''DATABASE_URL'' \<noteq> [] \<and> addr = '':'' @ (if getenv ''PORT'' = [] then ''8080'' else getenv ''PORT'') \<and>
    version_row s' = Some (3, False) \<and> (\<exists>D. tables s' = Some D \<and> ledger_ok D))"
proof (intro conjI allI impI)
  show "schema_ok s'" by (rule start_keeps(1) [OF assms])
next
  fix addr assume "a = Some addr"
  from start_keeps(2) [OF assms this]
  show "getenv ''DATABASE_URL'' \<noteq> []" "addr = '':'' @ (if getenv ''PORT'' = [] then ''8080'' else getenv ''PORT'')"
    "version_row s' = Some (3, False)" "\<exists>D. tables s' = Some D \<and> ledger_ok D"
    by (simp_all add: clean_def stage_def server_addr_def Let_def)
qed

theorem start_safe_witness:
  "\<exists>s' k' D. start_server sample_menv (\<lambda>_. None) sample_getenv (empty_schema, 0) = (Some '':8080'', (s', k')) \<and>
     tables s' = Some D \<and> ledger_ok D"
proof -
  obtain s' k' D where run: "start_server sample_menv (\<lambda>_. None) sample_getenv (empty_schema, 0) = (Some '':8080'', (s', k'))"
    by (rule sample_start)
  with start_safe [OF m_calm_ok [OF sample_menv_calm] empty_schema_ok(2) run] show ?thesis by auto
qed

text \<open>
  C14: a server that listens serves a correct ledger: in every state the process can reach from its start,
  through any start, any requests, and whatever fails and whatever other instances do, it listens
  only over a correct ledger, and it ends with code 0 or 1.
\<close>

theorem server_run_safe:
  assumes "env_ok env" "menv_ok menv" "schema_ok s" "(server_step menv bad getenv env)\<^sup>*\<^sup>* (Starting (s, k)) ph"
  shows "(\<forall>addr w. ph = Listening addr w \<longrightarrow> ledger_ok (wdb w) \<and> getenv ''DATABASE_URL'' \<noteq> []) \<and>
    (\<forall>c. ph = Stopped c \<longrightarrow> c = 0 \<or> c = 1)"
  using server_reachable [OF assms] by (auto split: phase.splits)

theorem server_run_safe_witness:
  "\<exists>w. (server_step sample_menv (\<lambda>_. None) sample_getenv sample_env)\<^sup>*\<^sup>* (Starting (empty_schema, 0)) (Listening '':8080'' w) \<and>
     ledger_ok (wdb w)"
proof -
  obtain s' k' D where run: "start_server sample_menv (\<lambda>_. None) sample_getenv (empty_schema, 0) = (Some '':8080'', (s', k'))"
    "tables s' = Some D" by (rule sample_start)
  define w where "w = \<lparr>wdb = D, snap = D, pending = [], tx_start = 0, tick = 0, lastV7time = 0\<rparr>"
  have "server_step sample_menv (\<lambda>_. None) sample_getenv sample_env (Starting (empty_schema, 0)) (Listening '':8080'' w)"
    by (rule start_listens [OF run(1)]) (simp_all add: run(2) new_process_def w_def)
  then have "(server_step sample_menv (\<lambda>_. None) sample_getenv sample_env)\<^sup>*\<^sup>* (Starting (empty_schema, 0)) (Listening '':8080'' w)" ..
  with server_run_safe [OF sample_env_ok m_calm_ok [OF sample_menv_calm] empty_schema_ok(2) this] show ?thesis by blast
qed

text \<open>
  C29: undisturbed, a start succeeds: on an empty database it applies all migrations and listens over the
  seeded ledger; on a database at the last version it changes nothing and listens.
\<close>

theorem start_succeeds:
  assumes "m_calm env" "getenv ''DATABASE_URL'' \<noteq> []"
  shows "(version_row s = None \<and> tables s = None \<longrightarrow> (\<exists>now0 now seq s' k'.
      start_server env (\<lambda>_. None) getenv (s, k) = (Some (server_addr getenv), (s', k')) \<and> version_row s' = Some (3, False) \<and>
      tables s' = Some (seed_demo_accounts_up now seq (seed_system_account_up now0 init_up)) \<and> ledger_ok (the (tables s')))) \<and>
    (clean 3 s \<longrightarrow> (\<exists>k'. start_server env (\<lambda>_. None) getenv (s, k) = (Some (server_addr getenv), (s, k'))))"
proof (intro conjI impI)
  assume "version_row s = None \<and> tables s = None"
  then show "\<exists>now0 now seq s' k'. start_server env (\<lambda>_. None) getenv (s, k) = (Some (server_addr getenv), (s', k')) \<and>
      version_row s' = Some (3, False) \<and> tables s' = Some (seed_demo_accounts_up now seq (seed_system_account_up now0 init_up)) \<and>
      ledger_ok (the (tables s'))"
    using start_fresh [where env = env and getenv = getenv and s = s and k = k] assms seeds_ledger by (metis option.sel)
next
  assume "clean 3 s"
  then show "\<exists>k'. start_server env (\<lambda>_. None) getenv (s, k) = (Some (server_addr getenv), (s, k'))"
    using assms(2) calm_idle [OF assms(1)] Up_again [OF assms(1)] by (simp add: start_server_def)
qed

theorem start_succeeds_witness:
  "\<exists>k'. start_server sample_menv (\<lambda>_. None) sample_getenv (\<lparr>version_row = Some (3, False), tables = Some (seed_db 0)\<rparr>, 0) =
     (Some '':8080'', (\<lparr>version_row = Some (3, False), tables = Some (seed_db 0)\<rparr>, k'))"
  using start_succeeds [OF sample_menv_calm, of sample_getenv "\<lparr>version_row = Some (3, False), tables = Some (seed_db 0)\<rparr>" 0] seed_ledger_ok
  by (auto simp: sample_getenv_def server_addr_def clean_def stage_def)

text \<open>
  C30: a database that a failed migration left dirty is refused: as long as nobody repairs it, every start
  ends with code 1, whatever its calls answer, and changes neither the tables nor the version row.
\<close>

theorem dirty_start_refused:
  assumes "menv_ok env" "version_row s = Some (v, True)" "\<forall>k. m_others env k s = s"
  shows "\<exists>k'. start_server env bad getenv (s, k) = (None, (s, k'))"
proof -
  obtain r1 s1 k1 where 1: "migrate_New env (s, k) = (r1, (s1, k1))" by (metis prod.collapse)
  have s1: "s1 = s" using 1 assms(3) unfolding migrate_New_def by (metis idle_call)
  obtain r2 s2 k2 where 2: "Up env (migrations_dir bad) (s, k1) = (r2, (s2, k2))" by (metis prod.collapse)
  from Up_dirty [OF assms(1) _ 2] assms(2,3) have "s2 = s" "\<exists>e. r2 = Inl e \<and> \<not> is_no_change e" by auto
  with 1 2 s1 show ?thesis by (auto simp: start_server_def split: sum.splits)
qed

theorem dirty_start_refused_witness:
  "\<exists>k'. start_server sample_menv (\<lambda>_. None) sample_getenv (\<lparr>version_row = Some (2, True), tables = Some init_up\<rparr>, 0) =
     (None, (\<lparr>version_row = Some (2, True), tables = Some init_up\<rparr>, k'))"
  by (rule dirty_start_refused [OF m_calm_ok [OF sample_menv_calm]]) (simp_all add: sample_menv_def)

end
