(* ===== verification/Responses.thy ===== *)
theory Responses
  imports Guarantees Sample
begin

text \<open>
  What the values in responses look like: every amount a response shows is a scaled amount, whatever
  the database sent, whatever failed and whatever other clients did. Each function of the store and of
  the service is given the property of what it returns; the rules follow the structure of the code.
\<close>

subsection \<open>What a computation returns\<close>

definition returns :: "('a \<Rightarrow> bool) \<Rightarrow> 'a M \<Rightarrow> bool" where
  "returns P m \<longleftrightarrow> (\<forall>w x w'. m w = (Inr x, w') \<longrightarrow> P x)"

named_theorems returns_intros

lemma returns_any: "returns (\<lambda>_. True) m"
  by (simp add: returns_def)

lemma returns_mono: "returns Q m \<Longrightarrow> (\<And>x. Q x \<Longrightarrow> P x) \<Longrightarrow> returns P m"
  by (auto simp: returns_def)

lemma returns_return [returns_intros]: "P x \<Longrightarrow> returns P (returnM x)"
  by (simp add: returns_def returnM_def)

lemma returns_throw [returns_intros]: "returns P (throwM e)"
  by (simp add: returns_def throwM_def)

lemma returns_lift [returns_intros]: "(\<And>x. r = Inr x \<Longrightarrow> P x) \<Longrightarrow> returns P (liftM r)"
  by (simp add: returns_def liftM_def)

lemma returns_bind: "returns Q m \<Longrightarrow> (\<And>x. Q x \<Longrightarrow> returns P (f x)) \<Longrightarrow> returns P (bindM m f)"
  unfolding returns_def by (metis bindM_Inr)

lemma returns_after [returns_intros]: "(\<And>x. returns P (f x)) \<Longrightarrow> returns P (bindM m f)"
  by (rule returns_bind [OF returns_any])

lemma returns_mapErr [returns_intros]: "returns P m \<Longrightarrow> returns P (mapErr g m)"
  by (simp add: returns_def mapErr_Inr)

lemma returns_tryM: "returns P m \<Longrightarrow> returns (\<lambda>r. \<forall>x. r = Inr x \<longrightarrow> P x) (tryM m)"
  by (auto simp: returns_def tryM_run)

lemma returns_mapM [returns_intros]: "(\<And>x. returns P (f x)) \<Longrightarrow> returns (\<lambda>ys. \<forall>y\<in>set ys. P y) (mapM f xs)"
proof (induction xs)
  case (Cons x xs)
  show ?case unfolding mapM.simps
    by (rule returns_bind [OF Cons.prems], rule returns_bind [OF Cons.IH [OF Cons.prems]], rule returns_return) simp
qed (simp add: returns_return)

text \<open>A read in a loop, and what is done with its result.\<close>

lemma returns_collected:
  "(\<And>x. returns P (f x)) \<Longrightarrow> (\<And>ys. \<forall>y\<in>set ys. P y \<Longrightarrow> returns Q (g ys)) \<Longrightarrow> returns Q (bindM (mapM f xs) g)"
  by (rule returns_bind [OF returns_mapM])

lemma returns_WithTx:
  assumes "returns P fn"
  shows "returns P (WithTx env fn)"
  unfolding WithTx_def
proof (rule returns_after)
  fix u :: unit
  show "returns P (\<lambda>w. case fn w of (Inl e, w') \<Rightarrow> (Inl e, rollback w') | (Inr x, w') \<Rightarrow> commit env x w')"
    using assms unfolding returns_def
    by (auto simp: commit_def Let_def split: prod.splits sum.splits fate.splits if_splits)
qed

subsection \<open>The store\<close>

lemma scan_numeric_money: "scan_numeric src = Inr d \<Longrightarrow> money_ok (NewFromDecimal d)"
  by (auto simp: scan_numeric_def Decimal_Scan_def intro!: Money_constructors_ok(4) dest: NewFromString_init
      split: sum.splits option.splits)

definition entries_ok :: "Entry list \<Rightarrow> bool" where
  "entries_ok es \<longleftrightarrow> (\<forall>e\<in>set es. money_ok (eAmount e))"

definition txn_ok :: "Transaction \<Rightarrow> bool" where
  "txn_ok t \<longleftrightarrow> entries_ok (tEntries t)"

definition audit_amount_ok :: "AuditEntry \<Rightarrow> bool" where
  "audit_amount_ok e \<longleftrightarrow> (\<forall>m. auAmount e = Some m \<longrightarrow> money_ok m)"

lemma scans_ok:
  "scanAccount env r = Inr a \<Longrightarrow> money_ok (aBalance a)" "scanEntry env row = Inr e \<Longrightarrow> money_ok (eAmount e)"
  "scanAudit env au = Inr x \<Longrightarrow> audit_amount_ok x"
  by (auto simp: scanAccount_def scanEntry_def scanAudit_def audit_amount_ok_def Let_def intro: scan_numeric_money
      split: sum.splits prod.splits option.splits)

lemma accounts_return:
  "returns (\<lambda>a. money_ok (aBalance a)) (GetAccount env i)" "returns (\<lambda>a. money_ok (aBalance a)) (CreateAccount env name)"
  "returns (\<lambda>as. \<forall>a\<in>set as. money_ok (aBalance a)) (ListAccounts env)"
  unfolding GetAccount_def CreateAccount_def ListAccounts_def collectAccounts_def
  by (intro returns_intros returns_collected; (erule scans_ok | assumption))+

lemma listEntries_return: "returns entries_ok (listEntries env t)"
  unfolding listEntries_def entries_ok_def
  by (intro returns_intros returns_collected; (erule scans_ok | assumption))

lemma fill_entries_return: "returns (\<lambda>ts. \<forall>t\<in>set ts. txn_ok t) (fill_entries env ts)"
  unfolding fill_entries_def
  by (rule returns_mapM, rule returns_bind [OF listEntries_return]) (simp add: returns_return txn_ok_def)

lemma lists_return:
  "returns (\<lambda>ts. \<forall>t\<in>set ts. txn_ok t) (ListTransactionsForAccount env i n)"
  "returns (\<lambda>ts. \<forall>t\<in>set ts. txn_ok t) (ListTransactions env opts)"
  "returns (\<lambda>es. \<forall>e\<in>set es. audit_amount_ok e) (ListAuditForAccount env i n)"
  unfolding ListTransactionsForAccount_def ListTransactions_def ListAuditForAccount_def Let_def
  by (intro returns_intros returns_collected fill_entries_return; (erule scans_ok | assumption))+

lemma lookups_return:
  "returns (\<lambda>res. txn_ok (fst res)) (GetTransactionByIdempotencyKey env key)"
  "returns (\<lambda>res. txn_ok (fst res)) (GetTransaction env i)"
  unfolding GetTransactionByIdempotencyKey_def GetTransaction_def Let_def
  by (rule returns_after, rule returns_bind [OF listEntries_return], simp add: returns_return txn_ok_def)+

subsection \<open>The service\<close>

lemma posting_tx_return:
  "tEntries txn = [] \<Longrightarrow> returns (\<lambda>res. txn_ok (fst res)) (posting_tx S msg a b swapped check ins amount txn)"
  unfolding posting_tx_def Let_def case_prod_beta
  by (auto intro!: returns_intros simp: txn_ok_def entries_ok_def)

lemma found_return:
  assumes "\<And>e. returns (\<lambda>res. txn_ok (fst res)) (f e)"
  shows "returns (\<lambda>res. txn_ok (fst res)) (bindM (tryM (GetTransactionByIdempotencyKey env key)) (\<lambda>found.
    case found of Inr existing \<Rightarrow> returnM existing | Inl e \<Rightarrow> f e))"
  by (rule returns_bind [OF returns_tryM [OF lookups_return(1)]]) (auto intro: returns_return assms split: sum.splits)

lemma commit_flow_return:
  assumes "returns (\<lambda>res. txn_ok (fst res)) body"
  shows "returns (\<lambda>res. txn_ok (fst res)) (commit_flow (Store_Storer env) op f t m rid key i body)"
  unfolding commit_flow_def Let_def Store_Storer_sel
  by (rule returns_bind [OF returns_tryM [OF returns_WithTx [OF assms]]])
    (auto intro!: returns_intros found_return split: sum.splits)

lemma service_return:
  "returns (\<lambda>res. txn_ok (fst res)) (Transfer env (Store_Storer env) s d amount key rid)"
  "returns (\<lambda>res. txn_ok (fst res)) (Deposit env (Store_Storer env) d amount key rid)"
  "returns (\<lambda>res. txn_ok (fst res)) (Reverse env (Store_Storer env) i key rid)"
  unfolding Transfer_flow Deposit_flow Reverse_flow Let_def Store_Storer_sel tx_shapes case_prod_beta
  by (auto intro!: returns_intros found_return commit_flow_return posting_tx_return simp: mk_Transaction_def
      split: sum.splits)

subsection \<open>Responses\<close>

fun payload_ok :: "payload \<Rightarrow> bool" where
  "payload_ok (PAccounts as) = (\<forall>a\<in>set as. money_ok (aBalance a))"
| "payload_ok (PAccount a) = money_ok (aBalance a)"
| "payload_ok (PTransaction t) = txn_ok t"
| "payload_ok (PTransactions ts) = (\<forall>t\<in>set ts. txn_ok t)"
| "payload_ok (PAudit es) = (\<forall>e\<in>set es. audit_amount_ok e)"
| "payload_ok _ = True"

lemma returns_tried:
  fixes m :: "'a M"
  assumes "returns Q m" "\<And>e. P (g (Inl e))" "\<And>x. Q x \<Longrightarrow> P (g (Inr x))"
  shows "returns P (bindM (tryM m) (\<lambda>res. returnM (g res)))"
proof (rule returns_bind [OF returns_tryM [OF assms(1)]])
  fix res :: "gerror + 'a" assume "\<forall>x. res = Inr x \<longrightarrow> Q x"
  then show "returns P (returnM (g res))" using assms(2,3) by (cases res) (auto intro: returns_return)
qed

lemma payload_writes [simp]:
  "payload (writeJSON st p) = p" "payload_ok (payload (writeError st c t))" "payload_ok (payload (mapError e))"
  "payload_ok (payload (internalError e))"
  by (simp_all add: writeJSON_def writeError_def mapError_def internalError_def)

lemma parse_payload:
  "parseUUID s = Inl resp \<Longrightarrow> payload_ok (payload resp)" "parseUUIDField s f = Inl resp \<Longrightarrow> payload_ok (payload resp)"
  by (auto simp: parseUUID_def parseUUIDField_def split: sum.splits if_splits)

abbreviation good_response :: "response M \<Rightarrow> bool" where
  "good_response \<equiv> returns (\<lambda>resp. payload_ok (payload resp))"

lemma answer_txn:
  "returns (\<lambda>res. txn_ok (fst res)) m \<Longrightarrow> good_response (bindM (tryM m) (\<lambda>res. returnM
     (case res of Inl err \<Rightarrow> mapError err | Inr (txn, _) \<Rightarrow> writeJSON 201 (PTransaction txn))))"
  by (erule returns_tried) (auto split: prod.splits)

lemma answer_value:
  "returns Q m \<Longrightarrow> (\<And>e. payload_ok (payload (f e))) \<Longrightarrow> (\<And>x. Q x \<Longrightarrow> payload_ok (g x)) \<Longrightarrow>
     good_response (bindM (tryM m) (\<lambda>res. returnM (case res of Inl err \<Rightarrow> f err | Inr x \<Rightarrow> writeJSON st (g x))))"
  by (erule returns_tried) auto

lemma reads_return:
  "good_response (listAccounts env r)" "good_response (createAccount env r)" "good_response (getAccount env i r)"
  "good_response (listTransactions env i r)" "good_response (listAllTransactions env r)" "good_response (listAudit env i r)"
  unfolding listAccounts_def createAccount_def getAccount_def listTransactions_def listAllTransactions_def listAudit_def Let_def
  by (auto intro!: answer_value [OF accounts_return(1)] answer_value [OF accounts_return(2)] answer_value [OF accounts_return(3)]
      answer_value [OF lists_return(1)] answer_value [OF lists_return(2)] answer_value [OF lists_return(3)] returns_return
      intro: parse_payload split: option.splits sum.splits)

lemma writes_return:
  "good_response (createTransfer env (Store_Storer env) r)" "good_response (reverseTransfer env (Store_Storer env) i r)"
  "good_response (createDeposit env (Store_Storer env) r)"
  unfolding createTransfer_def reverseTransfer_def createDeposit_def Let_def
  by (auto intro!: answer_txn service_return returns_after [where m = "resolveRequestID env r"] returns_return
      intro: parse_payload split: option.splits sum.splits)

lemma serve_return: "good_response (serve env r)"
  unfolding serve_def Let_def
  by (auto intro!: reads_return writes_return returns_return split: sum.splits route.splits)

text \<open>
  C19: every amount in every response is a scaled amount: an integer number of ten-thousandths with exponent
  -4, whatever the database sent and whatever else happened.
\<close>

theorem response_amounts_scaled:
  assumes "serve env r w = (Inr resp, w')"
  shows "payload_ok (payload resp)"
  using serve_return [of env r] assms unfolding returns_def by blast

theorem response_amounts_scaled_witness:
  "\<exists>resp w'. serve sample_env \<lparr>r_method = ''GET'', r_path = [''api'', ''accounts''], r_headers = [], r_query = [], r_body = None\<rparr>
     sample_world = (Inr resp, w') \<and> payload_ok (payload resp)"
proof -
  let ?r = "\<lparr>r_method = ''GET'', r_path = [''api'', ''accounts''], r_headers = [], r_query = [], r_body = None\<rparr>"
  obtain resp w' where "serve sample_env ?r sample_world = (Inr resp, w')"
    using serve_yields [of sample_env ?r] calmD(3) [OF sample_calm] unfolding yields_def
    by (metis prod.collapse sum.collapse(2))
  with response_amounts_scaled [OF this] show ?thesis by blast
qed

end
