(* ===== verification/Webclient.thy ===== *)
theory Webclient
  imports Server Queries Responses
begin

text \<open>
  \<^verbatim>\<open>web/app.js\<close>, the page the server hands out: the tables, forms and lists of the page as a record, one
  definition per function of the script, and what the user can do as a step relation. The page talks
  to the server through the mux; its calls may fail with or without effect. A handler runs from its
  event to its end; two handlers at once, and the scrolling of the banner, are not modelled.
\<close>

subsection \<open>The browser\<close>

text \<open>
  What the script uses of its surroundings: the fate of its calls, the parser of URLs (path and query),
  \<^verbatim>\<open>crypto.randomUUID\<close>, \<^verbatim>\<open>toLocaleString\<close>, which of two calls of \<^verbatim>\<open>Promise.all\<close> comes first, and the texts of
  the errors of \<^verbatim>\<open>res.json()\<close> and of iterating over something else than an array.
\<close>

record browser =
  b_fate :: "nat \<Rightarrow> fate"
  b_url :: "string \<Rightarrow> string list \<times> (string \<times> string) list"
  b_randomUUID :: "nat \<Rightarrow> string"
  b_toLocaleString :: "timestamp \<Rightarrow> string"
  b_in_order :: "nat \<Rightarrow> bool"
  b_not_json :: string
  b_not_iterable :: string

record account_line =
  al_id :: string
  al_name :: string
  al_balance :: string

text \<open>A row of a table of transactions: its four cells, the entries below the kind, and the button.\<close>

record txn_line =
  tl_id :: string
  tl_kind :: string
  tl_entries :: "string list"
  tl_date :: string
  tl_reverse :: bool

record audit_line =
  ul_operation :: string
  ul_outcome :: string
  ul_class :: string
  ul_amount :: string
  ul_reason :: string
  ul_date :: string

record dropdown =
  options :: "(string \<times> string) list"
  sel_value :: string

record page =
  banner_msg :: string
  banner_class :: string
  accounts_body :: "account_line list"
  account_name :: string
  transfer_src :: dropdown
  transfer_dst :: dropdown
  transfer_amount :: string
  deposit_dst :: dropdown
  deposit_amount :: string
  reverse_txid :: string
  history_account :: dropdown
  txns_body :: "txn_line list"
  audit_body :: "audit_line list"
  all_txns_body :: "txn_line list"
  load_more_hidden :: bool
  currentHistoryAccountID :: "string option"
  allLedgerOffset :: nat

text \<open>The tab: the page, the server behind it, and the number of calls made.\<close>

record tab =
  doc :: page
  srv :: world
  calls :: nat

text \<open>A computation of the script: it ends with a value or throws an error, of which only the message is used.\<close>

type_synonym 'a JS = "tab \<Rightarrow> (string + 'a) \<times> tab"

definition returnJ :: "'a \<Rightarrow> 'a JS" where
  "returnJ x = (\<lambda>t. (Inr x, t))"

definition throwJ :: "string \<Rightarrow> 'a JS" where
  "throwJ e = (\<lambda>t. (Inl e, t))"

definition bindJ :: "'a JS \<Rightarrow> ('a \<Rightarrow> 'b JS) \<Rightarrow> 'b JS" where
  "bindJ m f = (\<lambda>t. case m t of (Inl e, t') \<Rightarrow> (Inl e, t') | (Inr x, t') \<Rightarrow> f x t')"

definition catchJ :: "'a JS \<Rightarrow> (string \<Rightarrow> 'a JS) \<Rightarrow> 'a JS" where
  "catchJ m h = (\<lambda>t. case m t of (Inl e, t') \<Rightarrow> h e t' | (Inr x, t') \<Rightarrow> (Inr x, t'))"

definition thenJ :: "'a JS \<Rightarrow> 'b JS \<Rightarrow> 'b JS" where
  "thenJ m k = bindJ m (\<lambda>_. k)"

definition getJ :: "(page \<Rightarrow> 'a) \<Rightarrow> 'a JS" where
  "getJ f = (\<lambda>t. (Inr (f (doc t)), t))"

definition setJ :: "(page \<Rightarrow> page) \<Rightarrow> unit JS" where
  "setJ f = (\<lambda>t. (Inr (), t\<lparr>doc := f (doc t)\<rparr>))"

subsection \<open>The banner\<close>

definition showBanner :: "string \<Rightarrow> bool \<Rightarrow> unit JS" where
  "showBanner msg isError = setJ (\<lambda>p. p\<lparr>banner_msg := msg,
     banner_class := ''banner '' @ (if isError then ''banner-error'' else ''banner-success'')\<rparr>)"

definition hideBanner :: "unit JS" where
  "hideBanner = setJ (\<lambda>p. p\<lparr>banner_class := ''banner hidden''\<rparr>)"

subsection \<open>Calls of the API\<close>

text \<open>\<^verbatim>\<open>JSON.stringify\<close> of a text: quotes, backslashes and control characters are escaped.\<close>

definition hex_digit :: "nat \<Rightarrow> char" where
  "hex_digit d = (if d < 10 then digit_char d else char_of (87 + d))"

definition js_escape :: "char \<Rightarrow> string" where
  "js_escape c =
     (if c = CHR 0x22 then [CHR 0x5C, CHR 0x22]
      else if c = CHR 0x5C then [CHR 0x5C, CHR 0x5C]
      else if c = CHR 0x08 then [CHR 0x5C, CHR ''b'']
      else if c = CHR 0x0C then [CHR 0x5C, CHR ''f'']
      else if c = CHR 0x0A then [CHR 0x5C, CHR ''n'']
      else if c = CHR 0x0D then [CHR 0x5C, CHR ''r'']
      else if c = CHR 0x09 then [CHR 0x5C, CHR ''t'']
      else if of_char c < (32 :: nat) then [CHR 0x5C, CHR ''u'', CHR ''0'', CHR ''0'', hex_digit (of_char c div 16), hex_digit (of_char c mod 16)]
      else [c])"

definition js_quote :: "string \<Rightarrow> string" where
  "js_quote s = [CHR 0x22] @ concat (map js_escape s) @ [CHR 0x22]"

fun js_members :: "(string \<times> string) list \<Rightarrow> string" where
  "js_members [] = []"
| "js_members [(k, v)] = js_quote k @ '':'' @ js_quote v"
| "js_members ((k, v) # kvs) = js_quote k @ '':'' @ js_quote v @ '','' @ js_members kvs"

text \<open>\<^verbatim>\<open>JSON.stringify\<close> of an object of texts, as the server's decoder sees it.\<close>

definition stringify :: "(string \<times> string) list \<Rightarrow> json" where
  "stringify kvs = JObject (''{'' @ js_members kvs @ ''}'') (map (\<lambda>(k, v). (k, JString (js_quote v) v)) kvs)"

text \<open>The white space \<^verbatim>\<open>trim\<close> removes, for texts in ASCII.\<close>

definition js_space :: "char \<Rightarrow> bool" where
  "js_space c \<longleftrightarrow> c \<in> {CHR '' '', CHR 0x09, CHR 0x0A, CHR 0x0B, CHR 0x0C, CHR 0x0D}"

definition trim :: "string \<Rightarrow> string" where
  "trim s = rev (dropWhile js_space (rev (dropWhile js_space s)))"

definition fetch :: "browser \<Rightarrow> env \<Rightarrow> string \<Rightarrow> string \<Rightarrow> json option \<Rightarrow> (string \<times> string) list \<Rightarrow> reply JS" where
  "fetch b env meth path body headers t =
     (let n = calls t; (segs, query) = b_url b path;
          r = \<lparr>r_method = meth, r_path = segs, r_headers = headers, r_query = query, r_body = body\<rparr>
      in case b_fate b n of
           Fail_before e \<Rightarrow> (Inl e, t\<lparr>calls := n + 1\<rparr>)
         | ft \<Rightarrow>
             (case mux_serve env r (srv t) of
                (Inl _, w) \<Rightarrow> (Inl ''Failed to fetch'', t\<lparr>srv := w, calls := n + 1\<rparr>)
              | (Inr rep, w) \<Rightarrow>
                  ((case ft of Fail_after e \<Rightarrow> Inl e | _ \<Rightarrow> Inr rep), t\<lparr>srv := w, calls := n + 1\<rparr>)))"

text \<open>
  \<^verbatim>\<open>res.json()\<close>: the content of an answer of the API, if it has one and its amounts have a text. No other
  answer of the mux is JSON.
\<close>

fun amounts :: "payload \<Rightarrow> Money list" where
  "amounts (PAccounts as) = map aBalance as"
| "amounts (PAccount a) = [aBalance a]"
| "amounts (PTransaction t) = map eAmount (tEntries t)"
| "amounts (PTransactions ts) = concat (map (\<lambda>t. map eAmount (tEntries t)) ts)"
| "amounts (PAudit es) = List.map_filter auAmount es"
| "amounts _ = []"

definition res_json :: "reply \<Rightarrow> payload option" where
  "res_json rep =
     (case rep of
        ApiReply resp \<Rightarrow>
          if payload resp \<noteq> PNone \<and> (\<forall>m\<in>set (amounts (payload resp)). Money_MarshalJSON m \<noteq> None)
          then Some (payload resp) else None
      | _ \<Rightarrow> None)"

definition res_ok :: "reply \<Rightarrow> bool" where
  "res_ok rep = (case rep of ApiReply resp \<Rightarrow> 200 \<le> status resp \<and> status resp \<le> 299 | _ \<Rightarrow> True)"

definition error_message :: "payload \<Rightarrow> string" where
  "error_message p =
     (case p of
        PError code msg \<Rightarrow> if msg \<noteq> [] then msg else if code \<noteq> [] then code else ''unknown error''
      | PErrorCode code \<Rightarrow> if code \<noteq> [] then code else ''unknown error''
      | _ \<Rightarrow> ''unknown error'')"

definition apiFetch :: "browser \<Rightarrow> env \<Rightarrow> string \<Rightarrow> string \<Rightarrow> json option \<Rightarrow> (string \<times> string) list \<Rightarrow> payload JS" where
  "apiFetch b env meth path body headers =
     bindJ (fetch b env meth path body ((''Content-Type'', ''application/json'') # headers)) (\<lambda>res.
       case res_json res of
         None \<Rightarrow> throwJ (b_not_json b)
       | Some data \<Rightarrow> if res_ok res then returnJ data else throwJ (error_message data))"

subsection \<open>Accounts\<close>

definition money_text :: "Money \<Rightarrow> string" where
  "money_text m = (case Money_String m of None \<Rightarrow> [] | Some s \<Rightarrow> s)"

definition account_line_of :: "Account \<Rightarrow> account_line" where
  "account_line_of acc = \<lparr>al_id = UUID_String (aID acc), al_name = aName acc, al_balance = money_text (aBalance acc)\<rparr>"

definition renderAccounts :: "Account list \<Rightarrow> unit JS" where
  "renderAccounts accs = setJ (\<lambda>p. p\<lparr>accounts_body := map account_line_of accs\<rparr>)"

text \<open>
  A list that gets new options has the first of them chosen; setting its value to one it does not have
  leaves nothing chosen.
\<close>

definition populate :: "Account list \<Rightarrow> dropdown \<Rightarrow> dropdown" where
  "populate accs sel =
     (let opts = map (\<lambda>acc. (UUID_String (aID acc), aName acc)) accs; current = sel_value sel in
      \<lparr>options = opts,
       sel_value = (if current = [] then (case opts of [] \<Rightarrow> [] | (i, _) # _ \<Rightarrow> i)
                    else if current \<in> fst ` set opts then current else [])\<rparr>)"

definition populateDropdowns :: "Account list \<Rightarrow> unit JS" where
  "populateDropdowns accs = setJ (\<lambda>p. p\<lparr>transfer_src := populate accs (transfer_src p),
     transfer_dst := populate accs (transfer_dst p), deposit_dst := populate accs (deposit_dst p),
     history_account := populate accs (history_account p)\<rparr>)"

definition fetchAccounts :: "browser \<Rightarrow> env \<Rightarrow> unit JS" where
  "fetchAccounts b env =
     catchJ
       (bindJ (apiFetch b env ''GET'' ''/api/accounts'' None []) (\<lambda>data.
          case data of
            PAccounts accs \<Rightarrow> thenJ (renderAccounts accs) (populateDropdowns accs)
          | _ \<Rightarrow> thenJ (renderAccounts []) (throwJ (b_not_iterable b))))
       (\<lambda>err. showBanner (''Failed to load accounts: '' @ err) True)"

definition handleCreateAccount :: "browser \<Rightarrow> env \<Rightarrow> unit JS" where
  "handleCreateAccount b env =
     bindJ (getJ (\<lambda>p. trim (account_name p))) (\<lambda>name.
       if name = [] then returnJ ()
       else catchJ
         (thenJ (apiFetch b env ''POST'' ''/api/accounts'' (Some (stringify [(''name'', name)])) [])
         (thenJ (showBanner (''Account created: '' @ name) False)
         (thenJ (setJ (\<lambda>p. p\<lparr>account_name := []\<rparr>)) (fetchAccounts b env))))
         (\<lambda>err. showBanner (''Create account failed: '' @ err) True))"

subsection \<open>History of an account\<close>

definition entry_text :: "Entry \<Rightarrow> string" where
  "entry_text e = eDirection e @ '' '' @ money_text (eAmount e) @ '' ('' @ eAccountName e @ '')''"

definition txn_line_of :: "browser \<Rightarrow> Transaction \<Rightarrow> txn_line" where
  "txn_line_of b tx = \<lparr>tl_id = UUID_String (tID tx), tl_kind = tKind tx, tl_entries = map entry_text (tEntries tx),
     tl_date = b_toLocaleString b (tCreatedAt tx), tl_reverse = (tKind tx = ''TRANSFER'')\<rparr>"

datatype tbody = Txns_body | All_txns_body

definition renderTransactions :: "browser \<Rightarrow> Transaction list \<Rightarrow> bool \<Rightarrow> tbody \<Rightarrow> unit JS" where
  "renderTransactions b txns add_rows target =
     (let rows = map (txn_line_of b) txns in
      case target of
        Txns_body \<Rightarrow> setJ (\<lambda>p. p\<lparr>txns_body := (if add_rows then txns_body p else []) @ rows\<rparr>)
      | All_txns_body \<Rightarrow> setJ (\<lambda>p. p\<lparr>all_txns_body := (if add_rows then all_txns_body p else []) @ rows\<rparr>))"

definition fetchTransactions :: "browser \<Rightarrow> env \<Rightarrow> string \<Rightarrow> unit JS" where
  "fetchTransactions b env accountID =
     catchJ
       (bindJ (apiFetch b env ''GET'' (''/api/accounts/'' @ accountID @ ''/transactions'') None []) (\<lambda>data.
          case data of
            PTransactions txns \<Rightarrow> renderTransactions b txns False Txns_body
          | _ \<Rightarrow> thenJ (renderTransactions b [] False Txns_body) (throwJ (b_not_iterable b))))
       (\<lambda>err. showBanner (''Failed to load transactions: '' @ err) True)"

definition audit_line_of :: "browser \<Rightarrow> AuditEntry \<Rightarrow> audit_line" where
  "audit_line_of b e = \<lparr>ul_operation = auOperation e, ul_outcome = auOutcome e,
     ul_class = (if auOutcome e = ''SUCCESS'' then ''outcome-success'' else ''outcome-failure''),
     ul_amount = (case auAmount e of None \<Rightarrow> [] | Some m \<Rightarrow> money_text m),
     ul_reason = (case auErrorReason e of None \<Rightarrow> [] | Some s \<Rightarrow> s),
     ul_date = b_toLocaleString b (auCreatedAt e)\<rparr>"

definition renderAudit :: "browser \<Rightarrow> AuditEntry list \<Rightarrow> unit JS" where
  "renderAudit b es = setJ (\<lambda>p. p\<lparr>audit_body := map (audit_line_of b) es\<rparr>)"

definition fetchAudit :: "browser \<Rightarrow> env \<Rightarrow> string \<Rightarrow> unit JS" where
  "fetchAudit b env accountID =
     catchJ
       (bindJ (apiFetch b env ''GET'' (''/api/accounts/'' @ accountID @ ''/audit'') None []) (\<lambda>data.
          case data of
            PAudit es \<Rightarrow> renderAudit b es
          | _ \<Rightarrow> thenJ (renderAudit b []) (throwJ (b_not_iterable b))))
       (\<lambda>err. showBanner (''Failed to load audit: '' @ err) True)"

text \<open>\<^verbatim>\<open>Promise.all\<close> of two computations that do not throw: one after the other, in either order.\<close>

definition both :: "browser \<Rightarrow> unit JS \<Rightarrow> unit JS \<Rightarrow> unit JS" where
  "both b m k = (\<lambda>t. if b_in_order b (calls t) then thenJ m k t else thenJ k m t)"

definition loadHistory :: "browser \<Rightarrow> env \<Rightarrow> unit JS" where
  "loadHistory b env =
     bindJ (getJ (\<lambda>p. sel_value (history_account p))) (\<lambda>accountID.
       if accountID = [] then returnJ ()
       else thenJ (setJ (\<lambda>p. p\<lparr>currentHistoryAccountID := Some accountID\<rparr>))
              (both b (fetchTransactions b env accountID) (fetchAudit b env accountID)))"

subsection \<open>Ledger activity\<close>

definition allLedgerLimit :: nat where
  "allLedgerLimit = 50"

definition fetchLedgerActivity :: "browser \<Rightarrow> env \<Rightarrow> bool \<Rightarrow> unit JS" where
  "fetchLedgerActivity b env add_rows =
     catchJ
       (bindJ (getJ allLedgerOffset) (\<lambda>off.
        bindJ (apiFetch b env ''GET''
                (''/api/transactions?limit='' @ nat_str allLedgerLimit @ ''&offset='' @ nat_str off) None []) (\<lambda>data.
          case data of
            PTransactions txns \<Rightarrow>
              thenJ (renderTransactions b txns add_rows All_txns_body)
                (setJ (\<lambda>p. p\<lparr>load_more_hidden := \<not> length txns \<ge> allLedgerLimit\<rparr>))
          | _ \<Rightarrow> thenJ (renderTransactions b [] add_rows All_txns_body) (throwJ (b_not_iterable b)))))
       (\<lambda>err. showBanner (''Failed to load ledger activity: '' @ err) True)"

definition loadMoreLedger :: "browser \<Rightarrow> env \<Rightarrow> unit JS" where
  "loadMoreLedger b env =
     thenJ (setJ (\<lambda>p. p\<lparr>allLedgerOffset := allLedgerOffset p + allLedgerLimit\<rparr>)) (fetchLedgerActivity b env True)"

definition refreshOpenHistory :: "browser \<Rightarrow> env \<Rightarrow> unit JS" where
  "refreshOpenHistory b env =
     thenJ (bindJ (getJ currentHistoryAccountID) (\<lambda>cur.
              case cur of
                None \<Rightarrow> returnJ ()
              | Some accountID \<Rightarrow>
                  if accountID = [] then returnJ ()
                  else both b (fetchTransactions b env accountID) (fetchAudit b env accountID)))
     (thenJ (setJ (\<lambda>p. p\<lparr>allLedgerOffset := 0, all_txns_body := []\<rparr>)) (fetchLedgerActivity b env False))"

subsection \<open>Operations\<close>

text \<open>\<^verbatim>\<open>crypto.randomUUID\<close> for the call that comes next.\<close>

definition new_key :: "browser \<Rightarrow> string JS" where
  "new_key b = (\<lambda>t. (Inr (b_randomUUID b (calls t)), t))"

definition handleTransfer :: "browser \<Rightarrow> env \<Rightarrow> unit JS" where
  "handleTransfer b env =
     bindJ (getJ (\<lambda>p. sel_value (transfer_src p))) (\<lambda>src.
     bindJ (getJ (\<lambda>p. sel_value (transfer_dst p))) (\<lambda>dst.
     bindJ (getJ (\<lambda>p. trim (transfer_amount p))) (\<lambda>amount.
       catchJ
         (bindJ (new_key b) (\<lambda>key.
          thenJ (apiFetch b env ''POST'' ''/api/transfers''
                   (Some (stringify [(''src_account_id'', src), (''dst_account_id'', dst), (''amount'', amount)]))
                   [(''Idempotency-Key'', key)])
          (thenJ (showBanner ''Transfer successful'' False)
          (thenJ (setJ (\<lambda>p. p\<lparr>transfer_amount := []\<rparr>))
          (thenJ (fetchAccounts b env) (refreshOpenHistory b env))))))
         (\<lambda>err. showBanner (''Transfer failed: '' @ err) True))))"

definition handleDeposit :: "browser \<Rightarrow> env \<Rightarrow> unit JS" where
  "handleDeposit b env =
     bindJ (getJ (\<lambda>p. sel_value (deposit_dst p))) (\<lambda>dst.
     bindJ (getJ (\<lambda>p. trim (deposit_amount p))) (\<lambda>amount.
       catchJ
         (bindJ (new_key b) (\<lambda>key.
          thenJ (apiFetch b env ''POST'' ''/api/deposits''
                   (Some (stringify [(''dst_account_id'', dst), (''amount'', amount)])) [(''Idempotency-Key'', key)])
          (thenJ (showBanner ''Deposit successful'' False)
          (thenJ (setJ (\<lambda>p. p\<lparr>deposit_amount := []\<rparr>))
          (thenJ (fetchAccounts b env) (refreshOpenHistory b env))))))
         (\<lambda>err. showBanner (''Deposit failed: '' @ err) True)))"

definition doReverse :: "browser \<Rightarrow> env \<Rightarrow> string \<Rightarrow> unit JS" where
  "doReverse b env txID =
     catchJ
       (bindJ (new_key b) (\<lambda>key.
        thenJ (apiFetch b env ''POST'' (''/api/transfers/'' @ txID @ ''/reverse'') (Some JNull) [(''Idempotency-Key'', key)])
        (thenJ (showBanner ''Reversal successful'' False)
        (thenJ (fetchAccounts b env) (refreshOpenHistory b env)))))
       (\<lambda>err. showBanner (''Reversal failed: '' @ err) True)"

definition handleReverseById :: "browser \<Rightarrow> env \<Rightarrow> unit JS" where
  "handleReverseById b env =
     bindJ (getJ (\<lambda>p. trim (reverse_txid p))) (\<lambda>txID.
       thenJ (doReverse b env txID) (setJ (\<lambda>p. p\<lparr>reverse_txid := []\<rparr>)))"

definition handleReverseButton :: "browser \<Rightarrow> env \<Rightarrow> string \<Rightarrow> unit JS" where
  "handleReverseButton b env txID = doReverse b env txID"

definition init_page :: "browser \<Rightarrow> env \<Rightarrow> unit JS" where
  "init_page b env = both b (fetchAccounts b env) (fetchLedgerActivity b env False)"

subsection \<open>What the user does\<close>

text \<open>The page as \<^verbatim>\<open>index.html\<close> has it.\<close>

definition empty_page :: page where
  "empty_page =
     (let none = \<lparr>options = [], sel_value = []\<rparr> in
      \<lparr>banner_msg = [], banner_class = ''banner hidden'', accounts_body = [], account_name = [],
       transfer_src = none, transfer_dst = none, transfer_amount = [], deposit_dst = none, deposit_amount = [],
       reverse_txid = [], history_account = none, txns_body = [], audit_body = [], all_txns_body = [],
       load_more_hidden = True, currentHistoryAccountID = None, allLedgerOffset = 0\<rparr>)"

datatype action =
    Refresh
  | CloseBanner
  | SubmitAccount
  | SubmitTransfer
  | SubmitDeposit
  | SubmitReverse
  | ClickReverse string
  | LoadHistory
  | LoadMore

fun perform :: "browser \<Rightarrow> env \<Rightarrow> action \<Rightarrow> unit JS" where
  "perform b env Refresh = fetchAccounts b env"
| "perform b env CloseBanner = hideBanner"
| "perform b env SubmitAccount = handleCreateAccount b env"
| "perform b env SubmitTransfer = handleTransfer b env"
| "perform b env SubmitDeposit = handleDeposit b env"
| "perform b env SubmitReverse = handleReverseById b env"
| "perform b env (ClickReverse txID) = handleReverseButton b env txID"
| "perform b env LoadHistory = loadHistory b env"
| "perform b env LoadMore = loadMoreLedger b env"

text \<open>An action is possible when its button is there.\<close>

fun enabled :: "action \<Rightarrow> page \<Rightarrow> bool" where
  "enabled (ClickReverse txID) p = (\<exists>l\<in>set (txns_body p @ all_txns_body p). tl_reverse l \<and> tl_id l = txID)"
| "enabled LoadMore p = (\<not> load_more_hidden p)"
| "enabled _ p = True"

text \<open>Filling in the forms: the texts, and in each list one of its options.\<close>

definition filled_in :: "page \<Rightarrow> page \<Rightarrow> bool" where
  "filled_in p p' \<longleftrightarrow> (\<exists>n a d x vs vd vt vh.
     p' = p\<lparr>account_name := n, transfer_amount := a, deposit_amount := d, reverse_txid := x,
       transfer_src := (transfer_src p)\<lparr>sel_value := vs\<rparr>, transfer_dst := (transfer_dst p)\<lparr>sel_value := vd\<rparr>,
       deposit_dst := (deposit_dst p)\<lparr>sel_value := vt\<rparr>, history_account := (history_account p)\<lparr>sel_value := vh\<rparr>\<rparr> \<and>
     vs \<in> insert (sel_value (transfer_src p)) (fst ` set (options (transfer_src p))) \<and>
     vd \<in> insert (sel_value (transfer_dst p)) (fst ` set (options (transfer_dst p))) \<and>
     vt \<in> insert (sel_value (deposit_dst p)) (fst ` set (options (deposit_dst p))) \<and>
     vh \<in> insert (sel_value (history_account p)) (fst ` set (options (history_account p))))"

inductive page_step :: "browser \<Rightarrow> env \<Rightarrow> tab \<Rightarrow> tab \<Rightarrow> bool" for b env where
  load: "init_page b env (t\<lparr>doc := empty_page\<rparr>) = (r, t') \<Longrightarrow> page_step b env t t'"
| act: "enabled a (doc t) \<Longrightarrow> perform b env a t = (r, t') \<Longrightarrow> page_step b env t t'"
| fill: "filled_in (doc t) p \<Longrightarrow> page_step b env t (t\<lparr>doc := p\<rparr>)"

end
