(* ===== verification/Web_Properties.thy ===== *)
theory Web_Properties
  imports Webclient
begin

text \<open>
  Properties of the page and its handlers (\<open>Webclient\<close>): the invariant of the page and of the ledger
  behind it under everything the user does; what is accepted is posted; what the panel of all
  transactions shows. Locale \<open>tab_preorder\<close> has the rules for relations that every handler keeps, and
  \<open>page_writes\<close> what the loading functions rely on; it is provided for the invariant (\<open>kept\<close>) and for the
  texts of the forms (\<open>form\<close>).
\<close>

subsection \<open>What a handler keeps\<close>

text \<open>
  A computation keeps a relation between the tab before and after it, and its value has a property. The
  rules hold for every preorder.
\<close>

definition keepsJ :: "(tab \<Rightarrow> tab \<Rightarrow> bool) \<Rightarrow> ('a \<Rightarrow> bool) \<Rightarrow> 'a JS \<Rightarrow> bool" where
  "keepsJ R Q m \<longleftrightarrow> (\<forall>t r t'. m t = (r, t') \<longrightarrow> R t t' \<and> (\<forall>x. r = Inr x \<longrightarrow> Q x))"

locale tab_preorder =
  fixes R :: "tab \<Rightarrow> tab \<Rightarrow> bool"
  assumes tab_refl: "R t t" and tab_trans: "R t u \<Longrightarrow> R u v \<Longrightarrow> R t v"
begin

lemma keeps_pureJ: "Q x \<Longrightarrow> keepsJ R Q (returnJ x)" "keepsJ R Q (throwJ e)" "(\<And>p. Q (f p)) \<Longrightarrow> keepsJ R Q (getJ f)"
  by (auto simp: keepsJ_def returnJ_def throwJ_def getJ_def tab_refl)

lemma keeps_bindJ: "keepsJ R P m \<Longrightarrow> (\<And>x. P x \<Longrightarrow> keepsJ R Q (f x)) \<Longrightarrow> keepsJ R Q (bindJ m f)"
  unfolding keepsJ_def bindJ_def by (fastforce split: prod.splits sum.splits intro: tab_trans)

lemma keeps_thenJ: "keepsJ R P m \<Longrightarrow> keepsJ R Q k \<Longrightarrow> keepsJ R Q (thenJ m k)"
  unfolding thenJ_def by (rule keeps_bindJ)

lemma keeps_catchJ: "keepsJ R Q m \<Longrightarrow> (\<And>e. keepsJ R Q (h e)) \<Longrightarrow> keepsJ R Q (catchJ m h)"
  unfolding keepsJ_def catchJ_def by (fastforce split: prod.splits sum.splits intro: tab_trans)

lemma keeps_both: "keepsJ R (\<lambda>_. True) m \<Longrightarrow> keepsJ R (\<lambda>_. True) k \<Longrightarrow> keepsJ R (\<lambda>_. True) (both b m k)"
  using keeps_thenJ [of "\<lambda>_. True" m "\<lambda>_. True" k] keeps_thenJ [of "\<lambda>_. True" k "\<lambda>_. True" m]
  by (simp add: keepsJ_def both_def)

end

text \<open>
  The invariant of the page: pages begin at multiples of the limit; a row has a button for reversing it
  exactly when it is a transfer; every balance is the text of a scaled amount; a list shows one of its
  options or nothing; the colour of an audit row is that of its outcome.
\<close>

definition dropdown_ok :: "dropdown \<Rightarrow> bool" where
  "dropdown_ok d \<longleftrightarrow> sel_value d = [] \<or> sel_value d \<in> fst ` set (options d)"

definition page_ok :: "page \<Rightarrow> bool" where
  "page_ok p \<longleftrightarrow> allLedgerLimit dvd allLedgerOffset p \<and>
     (\<forall>l\<in>set (txns_body p @ all_txns_body p). tl_reverse l \<longleftrightarrow> tl_kind l = KindTransfer) \<and>
     (\<forall>l\<in>set (accounts_body p). \<exists>m. money_ok m \<and> FromString (al_balance l) = Inr m) \<and>
     (\<forall>d\<in>{transfer_src p, transfer_dst p, deposit_dst p, history_account p}. dropdown_ok d) \<and>
     (\<forall>l\<in>set (audit_body p). ul_class l = ''outcome-success'' \<longleftrightarrow> ul_outcome l = OutcomeSuccess)"

definition tab_kept :: "tab \<Rightarrow> tab \<Rightarrow> bool" where
  "tab_kept t t' \<longleftrightarrow> rely (wdb (srv t)) (wdb (srv t')) \<and> (page_ok (doc t) \<longrightarrow> page_ok (doc t'))"

interpretation tp: tab_preorder tab_kept
  by unfold_locales (auto simp: tab_kept_def intro: rely_trans)

lemma keeps_setJ: "(\<And>p. page_ok p \<Longrightarrow> page_ok (f p)) \<Longrightarrow> keepsJ tab_kept (\<lambda>_. True) (setJ f)"
  by (auto simp: keepsJ_def setJ_def tab_kept_def)

lemma keeps_new_key: "keepsJ tab_kept (\<lambda>_. True) (new_key b)"
  by (auto simp: keepsJ_def new_key_def tp.tab_refl)

lemma mux_amounts: "returns (\<lambda>rep. \<forall>resp. rep = ApiReply resp \<longrightarrow> payload_ok (payload resp)) (mux_serve env r)"
  unfolding mux_serve_def Let_def
  by (auto intro!: returns_return returns_bind [OF serve_return])

lemma keeps_fetch:
  assumes "env_ok env"
  shows "keepsJ tab_kept (\<lambda>rep. \<forall>resp. rep = ApiReply resp \<longrightarrow> payload_ok (payload resp)) (fetch b env meth path body hs)"
proof -
  have k: "rely (wdb w) (wdb w')" if "mux_serve env r w = (x, w')" for r w x w'
    using keepsD [OF mux_keeps [OF assms] that] by (simp add: lift_db_def)
  have q: "payload_ok (payload resp)" if "mux_serve env r w = (Inr (ApiReply resp), w')" for r w resp w'
    using mux_amounts [of env r] that unfolding returns_def by blast
  show ?thesis
    unfolding keepsJ_def fetch_def Let_def tab_kept_def
    by (auto split: prod.splits fate.splits sum.splits dest: k q)
qed

lemma keeps_apiFetch: "env_ok env \<Longrightarrow> keepsJ tab_kept payload_ok (apiFetch b env meth path body hs)"
  unfolding apiFetch_def
  by (rule tp.keeps_bindJ [OF keeps_fetch])
    (auto intro!: tp.keeps_pureJ simp: res_json_def split: option.splits reply.splits if_splits)

lemma money_text_parse: "money_ok m \<Longrightarrow> \<exists>m'. money_ok m' \<and> FromString (money_text m) = Inr m'"
  using Money_String_parse [of m] by (auto simp: money_text_def)

lemma populate_ok: "dropdown_ok (populate accs d)"
  by (auto simp: dropdown_ok_def populate_def Let_def split: list.splits)

text \<open>The functions that write into the page.\<close>

lemma renders_keep:
  "keepsJ tab_kept (\<lambda>_. True) (showBanner msg err)" "keepsJ tab_kept (\<lambda>_. True) hideBanner"
  "\<forall>a\<in>set accs. money_ok (aBalance a) \<Longrightarrow> keepsJ tab_kept (\<lambda>_. True) (renderAccounts accs)"
  "keepsJ tab_kept (\<lambda>_. True) (populateDropdowns accs)"
  "keepsJ tab_kept (\<lambda>_. True) (renderTransactions b txns add_rows target)" "keepsJ tab_kept (\<lambda>_. True) (renderAudit b es)"
  unfolding showBanner_def hideBanner_def renderAccounts_def populateDropdowns_def renderTransactions_def renderAudit_def Let_def
  by (auto intro!: keeps_setJ money_text_parse simp: page_ok_def account_line_of_def txn_line_of_def audit_line_of_def populate_ok
      KindTransfer_def OutcomeSuccess_def split: tbody.splits)

text \<open>
  What the functions that load something rely on: calls, and the writes into the page they are made
  of, keep the relation. It is provided twice: for the invariant, and for the texts of the forms.
\<close>

locale page_writes = tab_preorder +
  fixes ok :: "env \<Rightarrow> bool"
  assumes call: "ok env \<Longrightarrow> keepsJ R payload_ok (apiFetch b env meth path body hs)"
    and banner: "keepsJ R (\<lambda>_. True) (showBanner msg err)"
    and account_rows: "\<forall>a\<in>set accs. money_ok (aBalance a) \<Longrightarrow> keepsJ R (\<lambda>_. True) (renderAccounts accs)"
    and lists: "keepsJ R (\<lambda>_. True) (populateDropdowns accs)"
    and txn_rows: "keepsJ R (\<lambda>_. True) (renderTransactions b txns add_rows target)"
    and audit_rows: "keepsJ R (\<lambda>_. True) (renderAudit b es)"
    and panel: "keepsJ R (\<lambda>_. True) (setJ (\<lambda>p. p\<lparr>load_more_hidden := h\<rparr>))"
      "keepsJ R (\<lambda>_. True) (setJ (\<lambda>p. p\<lparr>allLedgerOffset := 0, all_txns_body := []\<rparr>))"
      "keepsJ R (\<lambda>_. True) (setJ (\<lambda>p. p\<lparr>allLedgerOffset := allLedgerOffset p + allLedgerLimit\<rparr>))"
      "keepsJ R (\<lambda>_. True) (setJ (\<lambda>p. p\<lparr>currentHistoryAccountID := Some i\<rparr>))"
begin

lemma keeps_call:
  assumes "ok env" "\<And>data. payload_ok data \<Longrightarrow> keepsJ R (\<lambda>_. True) (f data)"
  shows "keepsJ R (\<lambda>_. True) (bindJ (apiFetch b env meth path body hs) f)"
  using assms(2) by (rule keeps_bindJ [OF call [OF assms(1)]])

lemma keeps_read: "(\<And>x. keepsJ R Q (f x)) \<Longrightarrow> keepsJ R Q (bindJ (getJ g) f)"
  by (rule keeps_bindJ [of "\<lambda>_. True"]) (auto intro: keeps_pureJ)

lemmas writes = keeps_pureJ keeps_catchJ keeps_thenJ [where P = "\<lambda>_. True"] keeps_both banner account_rows lists txn_rows audit_rows panel

lemma loads_keep:
  assumes "ok env"
  shows "keepsJ R (\<lambda>_. True) (fetchAccounts b env)" "keepsJ R (\<lambda>_. True) (fetchTransactions b env i)"
    "keepsJ R (\<lambda>_. True) (fetchAudit b env i)" "keepsJ R (\<lambda>_. True) (fetchLedgerActivity b env add_rows)"
  unfolding fetchAccounts_def fetchTransactions_def fetchAudit_def fetchLedgerActivity_def
  by (auto intro!: writes keeps_call [OF assms] keeps_read split: payload.splits)

lemma refresh_keeps:
  assumes "ok env"
  shows "keepsJ R (\<lambda>_. True) (refreshOpenHistory b env)" "keepsJ R (\<lambda>_. True) (loadHistory b env)"
    "keepsJ R (\<lambda>_. True) (loadMoreLedger b env)" "keepsJ R (\<lambda>_. True) (init_page b env)"
  unfolding refreshOpenHistory_def loadHistory_def loadMoreLedger_def init_page_def
  by (auto intro!: writes keeps_read loads_keep [OF assms] split: option.splits)

end

interpretation kept: page_writes tab_kept env_ok
  by unfold_locales (auto intro!: keeps_apiFetch renders_keep keeps_setJ simp: page_ok_def)

definition form_kept :: "tab \<Rightarrow> tab \<Rightarrow> bool" where
  "form_kept t t' \<longleftrightarrow> transfer_amount (doc t') = transfer_amount (doc t) \<and> deposit_amount (doc t') = deposit_amount (doc t)"

lemma form_setJ:
  "(\<And>p. transfer_amount (f p) = transfer_amount p \<and> deposit_amount (f p) = deposit_amount p) \<Longrightarrow> keepsJ form_kept (\<lambda>_. True) (setJ f)"
  by (auto simp: keepsJ_def setJ_def form_kept_def)

lemma form_apiFetch: "keepsJ form_kept payload_ok (apiFetch b env meth path body hs)"
proof -
  have "payload_ok (payload resp)" if "mux_serve env r w = (Inr (ApiReply resp), w')" for r w resp w'
    using mux_amounts [of env r] that unfolding returns_def by blast
  then show ?thesis
    by (auto simp: keepsJ_def form_kept_def apiFetch_def fetch_def bindJ_def throwJ_def returnJ_def res_json_def Let_def
        split: prod.splits sum.splits fate.splits option.splits reply.splits if_splits)
qed

interpretation form: page_writes form_kept "\<lambda>_. True"
  by unfold_locales
    (auto intro!: form_apiFetch form_setJ simp: form_kept_def showBanner_def renderAccounts_def populateDropdowns_def renderTransactions_def
      renderAudit_def Let_def split: tbody.splits)

lemma keeps_keyed: "(\<And>key. keepsJ tab_kept Q (f key)) \<Longrightarrow> keepsJ tab_kept Q (bindJ (new_key b) f)"
  by (rule tp.keeps_bindJ [OF keeps_new_key])

lemma keeps_sent:
  "env_ok env \<Longrightarrow> keepsJ tab_kept Q k \<Longrightarrow> keepsJ tab_kept Q (thenJ (apiFetch b env meth path body hs) k)"
  by (rule tp.keeps_thenJ [OF keeps_apiFetch])

lemma perform_keeps:
  assumes "env_ok env"
  shows "keepsJ tab_kept (\<lambda>_. True) (perform b env a)"
  by (cases a)
    (auto simp: handleCreateAccount_def handleTransfer_def handleDeposit_def handleReverseById_def handleReverseButton_def
      doReverse_def page_ok_def intro!: keeps_sent [OF assms] kept.writes renders_keep(2) keeps_setJ kept.keeps_read keeps_keyed
      kept.loads_keep [OF assms] kept.refresh_keeps [OF assms])

lemma chosen_ok: "dropdown_ok d \<Longrightarrow> v \<in> insert (sel_value d) (fst ` set (options d)) \<Longrightarrow> dropdown_ok (d\<lparr>sel_value := v\<rparr>)"
  by (auto simp: dropdown_ok_def)

lemma filled_ok: "filled_in p p' \<Longrightarrow> page_ok p \<Longrightarrow> page_ok p'"
  unfolding filled_in_def by (elim exE conjE) (simp add: page_ok_def chosen_ok del: insert_iff)

lemma step_keeps:
  assumes env: "env_ok env" and step: "page_step b env t t'"
  shows "tab_kept t t'"
  using step
proof cases
  case (load r)
  then have "tab_kept (t\<lparr>doc := empty_page\<rparr>) t'" using kept.refresh_keeps(4) [OF env] unfolding keepsJ_def by blast
  moreover have "page_ok empty_page" by (simp add: page_ok_def empty_page_def dropdown_ok_def Let_def)
  ultimately show ?thesis by (simp add: tab_kept_def)
next
  case (act a r)
  then show ?thesis using perform_keeps [OF env] unfolding keepsJ_def by blast
next
  case (fill p)
  then show ?thesis using filled_ok by (simp add: tab_kept_def)
qed

lemma steps_keep:
  assumes "(page_step b env)\<^sup>*\<^sup>* t t'" "env_ok env"
  shows "tab_kept t t'"
  using assms by (induction rule: rtranclp_induct) (auto intro: tp.tab_refl tp.tab_trans step_keeps)

subsection \<open>URLs\<close>

text \<open>
  The documented behaviour of the parser that the panels rely on: a path of plain segments with a query
  of plain texts is taken apart.
\<close>

definition plain_char :: "char \<Rightarrow> bool" where
  "plain_char c \<longleftrightarrow> c = CHR ''-'' \<or> c = CHR ''_'' \<or> digit_val c \<noteq> None \<or>
     (let n = of_char c in (65 :: nat) \<le> n \<and> n \<le> 90 \<or> 97 \<le> n \<and> n \<le> 122)"

definition plain :: "string \<Rightarrow> bool" where
  "plain s \<longleftrightarrow> s \<noteq> [] \<and> (\<forall>c\<in>set s. plain_char c)"

fun join :: "char \<Rightarrow> string list \<Rightarrow> string" where
  "join c [] = []"
| "join c [s] = s"
| "join c (s # ss) = s @ [c] @ join c ss"

definition url_text :: "string list \<Rightarrow> (string \<times> string) list \<Rightarrow> string" where
  "url_text segs kvs = ''/'' @ join (CHR ''/'') segs @
     (if kvs = [] then [] else ''?'' @ join (CHR ''&'') (map (\<lambda>(k, v). k @ ''='' @ v) kvs))"

definition url_ok :: "browser \<Rightarrow> bool" where
  "url_ok b \<longleftrightarrow> (\<forall>segs kvs. segs \<noteq> [] \<and> (\<forall>s\<in>set segs. plain s) \<and> (\<forall>(k, v)\<in>set kvs. plain k \<and> plain v) \<longrightarrow>
     b_url b (url_text segs kvs) = (segs, kvs))"

lemma plain_nat_str: "plain (nat_str n)"
  using nat_str_digits [of _ n] by (fastforce simp: plain_def plain_char_def digit_simps)

lemma activity_url:
  assumes "url_ok b"
  shows "b_url b (''/api/transactions?limit='' @ nat_str allLedgerLimit @ ''&offset='' @ nat_str off) =
    ([''api'', ''transactions''], [(''limit'', nat_str 50), (''offset'', nat_str off)])"
proof -
  have "plain ''api''" "plain ''transactions''" "plain ''limit''" "plain ''offset''" by (simp_all add: plain_def plain_char_def)
  with assms plain_nat_str have "b_url b (url_text [''api'', ''transactions''] [(''limit'', nat_str 50), (''offset'', nat_str off)]) =
    ([''api'', ''transactions''], [(''limit'', nat_str 50), (''offset'', nat_str off)])"
    unfolding url_ok_def by simp
  then show ?thesis by (simp add: url_text_def allLedgerLimit_def)
qed

subsection \<open>The panel of all transactions\<close>

lemma amounts_have_text:
  assumes "payload_ok p" "m \<in> set (amounts p)"
  shows "Money_MarshalJSON m \<noteq> None"
proof -
  have "money_ok m"
    using assms by (cases p) (auto simp: txn_ok_def entries_ok_def audit_amount_ok_def map_filter_def)
  then show ?thesis using Money_String_parse [of m] by (auto simp: Money_MarshalJSON_def)
qed

text \<open>A call that reaches the server, and one that fails.\<close>

lemma apiFetch_data:
  assumes "b_fate b (calls t) = Proceed" "b_url b path = (segs, q)"
    and "mux_serve env \<lparr>r_method = meth, r_path = segs, r_headers = (''Content-Type'', ''application/json'') # hs, r_query = q,
        r_body = body\<rparr> (srv t) = (Inr (ApiReply resp), w)"
    and "200 \<le> status resp" "status resp \<le> 299" "payload resp \<noteq> PNone" "payload_ok (payload resp)"
  shows "apiFetch b env meth path body hs t = (Inr (payload resp), t\<lparr>srv := w, calls := calls t + 1\<rparr>)"
proof -
  have "res_json (ApiReply resp) = Some (payload resp)" using assms(6,7) amounts_have_text by (auto simp: res_json_def)
  with assms(1-5) show ?thesis by (simp add: apiFetch_def bindJ_def fetch_def res_ok_def returnJ_def Let_def)
qed

lemma apiFetch_fails:
  assumes "b_fate b (calls t) = Fail_before e"
  shows "apiFetch b env meth path body hs t = (Inl e, t\<lparr>calls := calls t + 1\<rparr>)"
  using assms by (simp add: apiFetch_def bindJ_def fetch_def Let_def split: prod.splits)

lemma activity_call:
  assumes env: "calm env" "env_ok env" "ledger_ok (wdb (srv t))" and b: "url_ok b" "b_fate b (calls t) = Proceed"
    and off: "off = p * 50" "off < 2 ^ 63"
  obtains ts w where
    "apiFetch b env ''GET'' (''/api/transactions?limit='' @ nat_str allLedgerLimit @ ''&offset='' @ nat_str off) None [] t =
      (Inr (PTransactions ts), t\<lparr>srv := w, calls := calls t + 1\<rparr>)"
    "wdb w = wdb (srv t)" "list_all2 (shown (wdb (srv t))) ts (take 50 (drop off (by_age None (wdb (srv t)))))"
proof -
  let ?r = "\<lparr>r_method = ''GET'', r_path = [''api'', ''transactions''], r_headers = [(''Content-Type'', ''application/json'')],
    r_query = [(''limit'', nat_str 50), (''offset'', nat_str off)], r_body = None\<rparr>"
  have "page_request 50 [] p ?r" using off(1) by (simp add: page_request_def get_value_def)
  from page_run [OF env _ this] off obtain ts w where
    s: "serve env ?r (srv t) = (Inr (writeJSON 200 (PTransactions ts)), w)" "wdb w = wdb (srv t)"
    "list_all2 (shown (wdb (srv t))) ts (take 50 (drop off (by_age None (wdb (srv t)))))"
    by (auto simp: kind_of_def)
  have m: "mux_serve env ?r (srv t) = (Inr (ApiReply (writeJSON 200 (PTransactions ts))), w)"
    using s(1) by (simp add: mux_serve_def run_eval)
  have "payload_ok (PTransactions ts)"
    using serve_return [of env ?r] s(1) unfolding returns_def by (metis payload_writes(1))
  then have "apiFetch b env ''GET'' (''/api/transactions?limit='' @ nat_str allLedgerLimit @ ''&offset='' @ nat_str off) None [] t =
      (Inr (payload (writeJSON 200 (PTransactions ts))), t\<lparr>srv := w, calls := calls t + 1\<rparr>)"
    by (intro apiFetch_data [OF b(2) activity_url [OF b(1)] m]) (simp_all add: writeJSON_def)
  from that [OF this [unfolded payload_writes(1)] s(2,3)] show ?thesis .
qed

lemma activity_run:
  assumes "calm env" "env_ok env" "ledger_ok (wdb (srv t))" "url_ok b" "b_fate b (calls t) = Proceed"
    and "allLedgerOffset (doc t) = p * 50" "allLedgerOffset (doc t) < 2 ^ 63"
  obtains ts w where
    "fetchLedgerActivity b env add_rows t = (Inr (), t\<lparr>srv := w, calls := calls t + 1,
       doc := (doc t)\<lparr>all_txns_body := (if add_rows then all_txns_body (doc t) else []) @ map (txn_line_of b) ts,
         load_more_hidden := length ts < 50\<rparr>\<rparr>)"
    "wdb w = wdb (srv t)"
    "list_all2 (shown (wdb (srv t))) ts (take 50 (drop (allLedgerOffset (doc t)) (by_age None (wdb (srv t)))))"
proof -
  obtain ts w where c: "apiFetch b env ''GET'' (''/api/transactions?limit='' @ nat_str allLedgerLimit @ ''&offset='' @
      nat_str (allLedgerOffset (doc t))) None [] t = (Inr (PTransactions ts), t\<lparr>srv := w, calls := calls t + 1\<rparr>)"
    and w: "wdb w = wdb (srv t)"
      "list_all2 (shown (wdb (srv t))) ts (take 50 (drop (allLedgerOffset (doc t)) (by_age None (wdb (srv t)))))"
    by (rule activity_call [OF assms])
  from c have "fetchLedgerActivity b env add_rows t = (Inr (), t\<lparr>srv := w, calls := calls t + 1,
       doc := (doc t)\<lparr>all_txns_body := (if add_rows then all_txns_body (doc t) else []) @ map (txn_line_of b) ts,
         load_more_hidden := length ts < 50\<rparr>\<rparr>)"
    by (simp add: fetchLedgerActivity_def catchJ_def bindJ_def getJ_def thenJ_def setJ_def renderTransactions_def
        allLedgerLimit_def Let_def not_le)
  then show ?thesis using w by (rule that)
qed

lemma loadMore_run:
  "loadMoreLedger b env t = fetchLedgerActivity b env True (t\<lparr>doc := (doc t)\<lparr>allLedgerOffset := allLedgerOffset (doc t) + 50\<rparr>\<rparr>)"
  by (simp add: loadMoreLedger_def thenJ_def bindJ_def setJ_def allLedgerLimit_def)

text \<open>The panel after the first page and \<open>k\<close> more of them.\<close>

lemma pages_shown:
  assumes env: "calm env" "env_ok env" and b: "url_ok b" "\<forall>n. b_fate b n = Proceed"
    and t: "ledger_ok (wdb (srv t))" "allLedgerOffset (doc t) = 0" and D: "D = wdb (srv t)"
  shows "50 * (k + 1) < 2 ^ 63 \<Longrightarrow> t' = ((\<lambda>t. snd (loadMoreLedger b env t)) ^^ k) (snd (fetchLedgerActivity b env False t)) \<Longrightarrow>
    wdb (srv t') = D \<and> allLedgerOffset (doc t') = 50 * k \<and> (load_more_hidden (doc t') \<longleftrightarrow> length (by_age None D) < 50 * (k + 1)) \<and>
    (\<exists>ts. all_txns_body (doc t') = map (txn_line_of b) ts \<and> list_all2 (shown D) ts (take (50 * (k + 1)) (by_age None D)))"
proof (induction k arbitrary: t')
  case 0
  obtain ts w where "fetchLedgerActivity b env False t = (Inr (), t\<lparr>srv := w, calls := calls t + 1,
       doc := (doc t)\<lparr>all_txns_body := (if False then all_txns_body (doc t) else []) @ map (txn_line_of b) ts,
         load_more_hidden := length ts < 50\<rparr>\<rparr>)" "wdb w = wdb (srv t)"
    "list_all2 (shown (wdb (srv t))) ts (take 50 (drop (allLedgerOffset (doc t)) (by_age None (wdb (srv t)))))"
    by (rule activity_run [where add_rows = False and p = 0, OF env t(1) b(1)]) (use b(2) t(2) in simp_all)
  with 0 t(2) D show ?case by (auto dest: list_all2_lengthD)
next
  case (Suc k)
  define u where "u = ((\<lambda>t. snd (loadMoreLedger b env t)) ^^ k) (snd (fetchLedgerActivity b env False t))"
  from Suc.IH [OF _ u_def] Suc.prems(1) obtain ts where
    u: "wdb (srv u) = D" "allLedgerOffset (doc u) = 50 * k" "all_txns_body (doc u) = map (txn_line_of b) ts"
    "list_all2 (shown D) ts (take (50 * (k + 1)) (by_age None D))" by auto
  let ?u = "u\<lparr>doc := (doc u)\<lparr>allLedgerOffset := allLedgerOffset (doc u) + 50\<rparr>\<rparr>"
  obtain ts' w where f: "fetchLedgerActivity b env True ?u = (Inr (), ?u\<lparr>srv := w, calls := calls ?u + 1,
       doc := (doc ?u)\<lparr>all_txns_body := (if True then all_txns_body (doc ?u) else []) @ map (txn_line_of b) ts',
         load_more_hidden := length ts' < 50\<rparr>\<rparr>)" "wdb w = wdb (srv ?u)"
    "list_all2 (shown (wdb (srv ?u))) ts' (take 50 (drop (allLedgerOffset (doc ?u)) (by_age None (wdb (srv ?u)))))"
    by (rule activity_run [where t = ?u and add_rows = True and p = "k + 1", OF env _ b(1)]) (use b(2) u(1,2) t(1) D Suc.prems(1) in simp_all)
  have "t' = snd (loadMoreLedger b env u)" using Suc.prems(2) by (simp add: u_def)
  then have t': "t' = snd (fetchLedgerActivity b env True ?u)" by (simp add: loadMore_run)
  have "take (50 * (Suc k + 1)) (by_age None D) = take (50 * (k + 1)) (by_age None D) @ take 50 (drop (50 * (k + 1)) (by_age None D))"
    by (simp add: take_add [symmetric] add.commute)
  with f u have "list_all2 (shown D) (ts @ ts') (take (50 * (Suc k + 1)) (by_age None D))" by (simp add: list_all2_appendI add.commute)
  moreover have "length ts' = min 50 (length (by_age None D) - 50 * (k + 1))"
    using f(3) u(1,2) by (auto dest!: list_all2_lengthD simp: min.commute add.commute)
  ultimately show ?case using f(1,2) u unfolding t' by (auto intro!: exI [of _ "ts @ ts'"])
qed

subsection \<open>What is accepted is posted\<close>

text \<open>A response that is no error means that the ledger has a transaction under the key.\<close>

definition accepted_posts :: "string \<Rightarrow> response M \<Rightarrow> bool" where
  "accepted_posts key m \<longleftrightarrow> (\<forall>w resp w'. ledger_ok (wdb w) \<and> m w = (Inr resp, w') \<and> status resp \<le> 299 \<longrightarrow>
     key \<in> tr_idempotency_key ` set (transactions (wdb w')))"

lemma posts_return: "299 < status resp \<Longrightarrow> accepted_posts key (returnM resp)"
  by (auto simp: accepted_posts_def returnM_def)

lemma posts_bind:
  assumes "\<And>w x w'. m w = (x, w') \<Longrightarrow> wdb w' = wdb w" "\<And>x. accepted_posts key (f x)"
  shows "accepted_posts key (bindM m f)"
  unfolding accepted_posts_def
proof (intro allI impI, elim conjE)
  fix w resp w' assume a: "ledger_ok (wdb w)" "bindM m f w = (Inr resp, w')" "status resp \<le> 299"
  then obtain x w1 where "m w = (Inr x, w1)" "f x w1 = (Inr resp, w')" by (auto simp: run_simps)
  with a assms show "key \<in> tr_idempotency_key ` set (transactions (wdb w'))" unfolding accepted_posts_def by metis
qed

lemma posts_op:
  assumes env: "env_ok env" and m: "keyed_op env key m"
  shows "accepted_posts key (bindM (tryM m) (\<lambda>res. returnM
    (case res of Inl err \<Rightarrow> mapError err | Inr (txn, _) \<Rightarrow> writeJSON 201 (PTransaction txn))))"
  unfolding accepted_posts_def
proof (intro allI impI, elim conjE)
  fix w resp w'
  assume L: "ledger_ok (wdb w)" and ok: "status resp \<le> 299"
    and "bindM (tryM m) (\<lambda>res. returnM
      (case res of Inl err \<Rightarrow> mapError err | Inr (txn, _) \<Rightarrow> writeJSON 201 (PTransaction txn))) w = (Inr resp, w')"
  then obtain res where run: "m w = (res, w')"
    and resp: "resp = (case res of Inl err \<Rightarrow> mapError err | Inr (txn, _) \<Rightarrow> writeJSON 201 (PTransaction txn))"
    by (auto simp: run_simps)
  show "key \<in> tr_idempotency_key ` set (transactions (wdb w'))"
  proof (cases res)
    case (Inl e)
    with resp ok mapError_status [of e] show ?thesis by auto
  next
    case (Inr x)
    obtain txn f t a where "op_outcome rely txn f t a (wdb w) (Inr x) (wdb w')" "tIdempotencyKey txn = key"
      using keyed_outcome [OF env L m run] Inr by blast
    then show ?thesis using outcome_row [OF _ L] by (metis imageI)
  qed
qed

lemma keyed_ops:
  "money_like a \<Longrightarrow> keyed_op env key (Transfer env (Store_Storer env) src dst a key rid)"
  "money_like a \<Longrightarrow> keyed_op env key (Deposit env (Store_Storer env) dst a key rid)"
  "keyed_op env key (Reverse env (Store_Storer env) orig key rid)"
  unfolding keyed_op_def by blast+

lemma parse_refused:
  "parseUUIDField s f = Inl resp \<Longrightarrow> 299 < status resp" "parseUUID s = Inl resp \<Longrightarrow> 299 < status resp"
  by (auto simp: parseUUIDField_def parseUUID_def writeError_def writeJSON_def split: if_splits sum.splits)

lemma serve_posts:
  assumes env: "env_ok env" and r: "r_method r = ''POST''"
    "r_path r \<in> {[''api'', ''transfers''], [''api'', ''deposits'']} \<or> (\<exists>i. r_path r = [''api'', ''transfers'', i, ''reverse''])"
  shows "accepted_posts (get_value ''Idempotency-Key'' (r_headers r)) (serve env r)"
proof -
  note ps = posts_return posts_bind [OF resolveRequestID_db] posts_op [OF env] keyed_ops
  have "accepted_posts (get_value ''Idempotency-Key'' (r_headers r)) (createTransfer env (Store_Storer env) r)"
    "accepted_posts (get_value ''Idempotency-Key'' (r_headers r)) (createDeposit env (Store_Storer env) r)"
    "accepted_posts (get_value ''Idempotency-Key'' (r_headers r)) (reverseTransfer env (Store_Storer env) i r)" for i
    unfolding createTransfer_def createDeposit_def reverseTransfer_def Let_def
    by (auto intro!: ps simp: writeError_def writeJSON_def split: option.splits sum.splits dest: decode_body_like parse_refused)
  then show ?thesis
    using r by (auto simp: serve_def RegisterRoutes_def intro!: posts_return simp: writeJSON_def)
qed

text \<open>A call that came back, and a submission: either it failed and only the banner is new, or it was posted.\<close>

lemma apiFetch_cases:
  assumes "apiFetch b env meth path body hs t = (x, t')" "b_url b path = (segs, q)"
  obtains (failed) e where "x = Inl e" "doc t' = doc t"
  | (answered) resp where "doc t' = doc t" "status resp \<le> 299"
      "mux_serve env \<lparr>r_method = meth, r_path = segs, r_headers = (''Content-Type'', ''application/json'') # hs, r_query = q,
        r_body = body\<rparr> (srv t) = (Inr (ApiReply resp), srv t')"
  using assms
  by (fastforce simp: apiFetch_def fetch_def bindJ_def throwJ_def returnJ_def res_json_def res_ok_def Let_def
      split: prod.splits sum.splits fate.splits option.splits if_splits reply.splits)

lemma mux_posts:
  assumes "env_ok env" "ledger_ok (wdb w)" "segs \<in> {[''api'', ''transfers''], [''api'', ''deposits'']}" "status resp \<le> 299"
    "mux_serve env \<lparr>r_method = ''POST'', r_path = segs, r_headers = [(''Content-Type'', ''application/json''), (''Idempotency-Key'', key)],
       r_query = q, r_body = body\<rparr> w = (Inr (ApiReply resp), w')"
  shows "key \<in> tr_idempotency_key ` set (transactions (wdb w'))"
proof -
  let ?r = "\<lparr>r_method = ''POST'', r_path = segs, r_headers = [(''Content-Type'', ''application/json''), (''Idempotency-Key'', key)],
       r_query = q, r_body = body\<rparr>"
  have "accepted_posts (get_value ''Idempotency-Key'' (r_headers ?r)) (serve env ?r)"
    by (rule serve_posts [OF assms(1)]) (use assms(3) in auto)
  moreover have "serve env ?r w = (Inr resp, w')" using assms(3,5) by (auto simp: mux_serve_def run_simps)
  ultimately show ?thesis using assms(2,4) by (auto simp: accepted_posts_def get_value_def)
qed

lemma submission:
  assumes env: "env_ok env" "ledger_ok (wdb (srv t))" and u: "b_url b path = (segs, q)" "segs \<in> {[''api'', ''transfers''], [''api'', ''deposits'']}"
    and k: "keepsJ tab_kept (\<lambda>_. True) k"
    and run: "catchJ (bindJ (new_key b) (\<lambda>key. thenJ (apiFetch b env ''POST'' path body [(''Idempotency-Key'', key)]) k))
      (\<lambda>err. showBanner (msg @ err) True) t = (r, t')"
  obtains (failed) m c where "doc t' = (doc t)\<lparr>banner_msg := m, banner_class := c\<rparr>"
  | (posted) "b_randomUUID b (calls t) \<in> tr_idempotency_key ` set (transactions (wdb (srv t')))"
proof -
  let ?key = "b_randomUUID b (calls t)" and ?h = "\<lambda>err. showBanner (msg @ err) True"
  obtain x t1 where a: "apiFetch b env ''POST'' path body [(''Idempotency-Key'', ?key)] t = (x, t1)" by fastforce
  from a u(1) show thesis
  proof (cases rule: apiFetch_cases)
    case (failed e)
    with run a have "doc t' = (doc t)\<lparr>banner_msg := msg @ e, banner_class := ''banner banner-error''\<rparr>"
      by (auto simp: catchJ_def bindJ_def thenJ_def new_key_def showBanner_def setJ_def)
    then show ?thesis by (rule that(1))
  next
    case (answered resp)
    have p: "?key \<in> tr_idempotency_key ` set (transactions (wdb (srv t1)))" by (rule mux_posts [OF env u(2) answered(2,3)])
    have L1: "ledger_ok (wdb (srv t1))"
      using keepsD [OF mux_keeps [OF env(1)] answered(3)] relyD(1) env(2) by (simp add: lift_db_def)
    have "tab_kept t1 t'"
    proof (cases x)
      case (Inl e)
      with run a have "?h e t1 = (r, t')" by (simp add: catchJ_def bindJ_def thenJ_def new_key_def)
      with renders_keep(1) show ?thesis unfolding keepsJ_def by blast
    next
      case (Inr d)
      with run a have "catchJ k ?h t1 = (r, t')" by (simp add: catchJ_def bindJ_def thenJ_def new_key_def)
      moreover have "keepsJ tab_kept (\<lambda>_. True) (catchJ k ?h)" by (intro tp.keeps_catchJ k renders_keep(1))
      ultimately show ?thesis unfolding keepsJ_def by blast
    qed
    then have "set (transactions (wdb (srv t1))) \<subseteq> set (transactions (wdb (srv t')))"
      using relyD(2) [OF _ L1] by (auto simp: tab_kept_def)
    with p show ?thesis by (intro that(2)) blast
  qed
qed

lemma bind_getJ: "bindJ (getJ f) g t = g (f (doc t)) t"
  by (simp add: bindJ_def getJ_def)

lemma operation_urls:
  assumes "url_ok b"
  shows "b_url b ''/api/transfers'' = ([''api'', ''transfers''], [])" "b_url b ''/api/deposits'' = ([''api'', ''deposits''], [])"
proof -
  have p: "plain ''api''" "plain ''transfers''" "plain ''deposits''" by (simp_all add: plain_def plain_char_def)
  have "b_url b (url_text [''api'', s] []) = ([''api'', s], [])" if "plain s" for s
    using assms p(1) that unfolding url_ok_def by simp
  from this [OF p(2)] this [OF p(3)] show "b_url b ''/api/transfers'' = ([''api'', ''transfers''], [])"
    "b_url b ''/api/deposits'' = ([''api'', ''deposits''], [])" by (simp_all add: url_text_def)
qed

subsection \<open>A browser\<close>

text \<open>A parser of URLs that takes apart what \<open>url_text\<close> puts together.\<close>

fun split_on :: "char \<Rightarrow> string \<Rightarrow> string list" where
  "split_on c [] = [[]]"
| "split_on c (x # xs) =
     (case split_on c xs of
        [] \<Rightarrow> [[x]]
      | s # ss \<Rightarrow> if x = c then [] # s # ss else (x # s) # ss)"

definition cut :: "char \<Rightarrow> string \<Rightarrow> string \<times> string" where
  "cut c s = (takeWhile (\<lambda>x. x \<noteq> c) s, drop 1 (dropWhile (\<lambda>x. x \<noteq> c) s))"

definition sample_browser :: browser where
  "sample_browser = \<lparr>b_fate = (\<lambda>_. Proceed),
     b_url = (\<lambda>s. let (path, query) = cut (CHR ''?'') s in
       (split_on (CHR ''/'') (drop 1 path), if query = [] then [] else map (cut (CHR ''='')) (split_on (CHR ''&'') query))),
     b_randomUUID = (\<lambda>n. ''k'' @ nat_str (n + 1)), b_toLocaleString = (\<lambda>_. ''today''), b_in_order = (\<lambda>_. True),
     b_not_json = ''not JSON'', b_not_iterable = ''not iterable''\<rparr>"

lemma split_on_plain: "c \<notin> set s \<Longrightarrow> split_on c s = [s]"
  by (induction s) auto

lemma split_on_append: "c \<notin> set s \<Longrightarrow> split_on c (s @ c # r) = s # split_on c r"
proof (induction s)
  case Nil
  have "split_on c r \<noteq> []" by (cases r) (auto split: list.splits)
  then show ?case by (auto split: list.splits)
qed auto

lemma split_join: "ss \<noteq> [] \<Longrightarrow> \<forall>s\<in>set ss. c \<notin> set s \<Longrightarrow> split_on c (join c ss) = ss"
  by (induction c ss rule: join.induct) (simp_all add: split_on_plain split_on_append)

lemma cut_append: "c \<notin> set s \<Longrightarrow> cut c (s @ c # r) = (s, r)"
  by (induction s) (auto simp: cut_def)

lemma cut_plain: "c \<notin> set s \<Longrightarrow> cut c s = (s, [])"
  by (induction s) (auto simp: cut_def)

lemma plain_free: "plain s \<Longrightarrow> CHR ''/'' \<notin> set s \<and> CHR ''?'' \<notin> set s \<and> CHR ''&'' \<notin> set s \<and> CHR ''='' \<notin> set s"
proof -
  have "\<not> plain_char (CHR ''/'')" "\<not> plain_char (CHR ''?'')" "\<not> plain_char (CHR ''&'')" "\<not> plain_char (CHR ''='')"
    by (simp_all add: plain_char_def digit_val_def)
  then show "plain s \<Longrightarrow> ?thesis" unfolding plain_def by blast
qed

lemma set_join: "set (join c ss) \<subseteq> insert c (\<Union> (set ` set ss))"
  by (induction c ss rule: join.induct) auto

lemma sample_url: "url_ok sample_browser"
  unfolding url_ok_def
proof (intro allI impI, elim conjE)
  fix segs kvs assume segs: "segs \<noteq> []" "\<forall>s\<in>set segs. plain s" and kvs: "\<forall>(k, v)\<in>set kvs. plain k \<and> plain v"
  let ?p = "join (CHR ''/'') segs" and ?kv = "map (\<lambda>(k, v). k @ ''='' @ v) kvs"
  have "CHR ''?'' \<notin> set (''/'' @ ?p)" using set_join [of "CHR ''/''" segs] segs(2) plain_free by fastforce
  then have c: "cut (CHR ''?'') (url_text segs kvs) = (''/'' @ ?p, if kvs = [] then [] else join (CHR ''&'') ?kv)"
    using cut_append [of "CHR ''?''" "''/'' @ ?p"] cut_plain [of "CHR ''?''" "''/'' @ ?p"] by (simp add: url_text_def)
  have p: "split_on (CHR ''/'') ?p = segs" using split_join [OF segs(1)] segs(2) plain_free by blast
  have "kvs \<noteq> [] \<Longrightarrow> split_on (CHR ''&'') (join (CHR ''&'') ?kv) = ?kv"
    by (rule split_join) (use kvs plain_free in fastforce)+
  moreover have "map (cut (CHR ''='')) ?kv = kvs"
    using kvs by (induction kvs) (auto simp: cut_append plain_free)
  moreover have "join (CHR ''&'') ?kv \<noteq> []" if "kvs \<noteq> []"
    using that kvs by (cases kvs rule: list.exhaust; cases "tl kvs") (auto simp: plain_def)
  ultimately show "b_url sample_browser (url_text segs kvs) = (segs, kvs)"
    using c p by (simp add: sample_browser_def)
qed

definition sample_tab :: tab where
  "sample_tab = \<lparr>doc = empty_page, srv = sample_world, calls = 0\<rparr>"

lemma sample_tab_simps [simp]: "doc sample_tab = empty_page" "srv sample_tab = sample_world" "calls sample_tab = 0"
  by (simp_all add: sample_tab_def)

subsection \<open>Properties\<close>

text \<open>
  C16: whatever the user does on the page, in whatever order, whatever calls fail and whatever the server's
  other clients do: the ledger stays correct, and the page is well formed: pages of the ledger panel
  begin at multiples of fifty, exactly the transfers have a button to reverse them, every balance shown
  is the text of a scaled amount, every list shows one of its options or nothing, and an audit row
  has the colour of its outcome.
\<close>

theorem page_safe:
  assumes "env_ok env" "ledger_ok (wdb (srv t))" "doc t = empty_page" "(page_step b env)\<^sup>*\<^sup>* t t'"
  shows "ledger_ok (wdb (srv t')) \<and> page_ok (doc t')"
proof -
  have "page_ok empty_page" by (simp add: page_ok_def empty_page_def dropdown_ok_def Let_def)
  with steps_keep [OF assms(4,1)] assms(2,3) relyD(1) show ?thesis by (auto simp: tab_kept_def)
qed

theorem page_safe_witness:
  "\<exists>t'. (page_step sample_browser sample_env)\<^sup>*\<^sup>* sample_tab t' \<and> ledger_ok (wdb (srv t')) \<and> page_ok (doc t')"
proof -
  obtain r t' where run: "init_page sample_browser sample_env (sample_tab\<lparr>doc := empty_page\<rparr>) = (r, t')" by fastforce
  then have step: "(page_step sample_browser sample_env)\<^sup>*\<^sup>* sample_tab t'" using page_step.load by blast
  with step page_safe [OF sample_env_ok _ _ step] sample_ledger show ?thesis by auto
qed

text \<open>
  C21: the panel of all transactions is complete: while nobody writes and no call fails, the first page and
  \<open>k\<close> clicks on Load more show the newest \<open>50 * (k + 1)\<close> transactions, newest first, each once and with its
  legs; and the button is hidden exactly when all of them are shown and the last page was not full.
\<close>

theorem ledger_panel:
  assumes "calm env" "env_ok env" "ledger_ok (wdb (srv t))" "url_ok b" "\<forall>n. b_fate b n = Proceed"
    "allLedgerOffset (doc t) = 0" "50 * (k + 1) < 2 ^ 63"
    "t' = ((\<lambda>t. snd (loadMoreLedger b env t)) ^^ k) (snd (fetchLedgerActivity b env False t))"
  shows "\<exists>ts rows. all_txns_body (doc t') = map (txn_line_of b) ts \<and> list_all2 (shown (wdb (srv t))) ts rows \<and>
    rows = take (50 * (k + 1)) (by_age None (wdb (srv t))) \<and> sorted_wrt not_older rows \<and>
    (load_more_hidden (doc t') \<longleftrightarrow> length (transactions (wdb (srv t))) < 50 * (k + 1)) \<and>
    (load_more_hidden (doc t') \<longrightarrow> mset rows = mset (transactions (wdb (srv t))))"
proof -
  let ?D = "wdb (srv t)"
  have all: "of_kind None ?D = transactions ?D" by (simp add: of_kind_def)
  note by_age_props [of None ?D, unfolded all]
  with pages_shown [OF assms(1,2,4,5,3,6) refl assms(7,8)] show ?thesis
    by (auto simp: sorted_wrt_take)
qed

theorem ledger_panel_witness:
  "\<exists>ts rows. all_txns_body (doc (snd (fetchLedgerActivity sample_browser sample_env False sample_tab))) = map (txn_line_of sample_browser) ts \<and>
     list_all2 (shown (seed_db 0)) ts rows \<and> mset rows = mset (transactions (seed_db 0))"
proof -
  have "wdb sample_world = seed_db 0" "length (transactions (seed_db 0)) < 50" "allLedgerOffset empty_page = 0"
    "\<forall>n. b_fate sample_browser n = Proceed"
    by (simp_all add: sample_world_def seed_db_eq empty_page_def Let_def sample_browser_def)
  with ledger_panel [OF sample_calm sample_env_ok _ sample_url, of sample_tab 0] sample_ledger show ?thesis by auto
qed

text \<open>
  C32: a page that could not be loaded is skipped: when a click on Load more fails, the page shows an error
  and nothing else changes, but the offset has moved on; the next click, which succeeds, adds the fifty
  transactions after the fifty that are missing.
\<close>

theorem failed_page_skipped:
  assumes "calm env" "env_ok env" "ledger_ok (wdb (srv t))" "url_ok b"
    "b_fate b (calls t) = Fail_before e" "b_fate b (calls t + 1) = Proceed"
    "allLedgerOffset (doc t) = 50 * p" "50 * (p + 2) < 2 ^ 63"
  shows "\<exists>t1 t2 ts. loadMoreLedger b env t = (Inr (), t1) \<and> all_txns_body (doc t1) = all_txns_body (doc t) \<and>
    load_more_hidden (doc t1) = load_more_hidden (doc t) \<and> banner_class (doc t1) = ''banner banner-error'' \<and>
    loadMoreLedger b env t1 = (Inr (), t2) \<and> all_txns_body (doc t2) = all_txns_body (doc t) @ map (txn_line_of b) ts \<and>
    list_all2 (shown (wdb (srv t))) ts (take 50 (drop (50 * (p + 2)) (by_age None (wdb (srv t)))))"
proof -
  let ?u = "t\<lparr>doc := (doc t)\<lparr>allLedgerOffset := allLedgerOffset (doc t) + 50\<rparr>\<rparr>"
  define t1 where "t1 = ?u\<lparr>calls := calls t + 1, doc := (doc ?u)\<lparr>banner_msg := ''Failed to load ledger activity: '' @ e,
    banner_class := ''banner banner-error''\<rparr>\<rparr>"
  have 1: "loadMoreLedger b env t = (Inr (), t1)"
    unfolding loadMore_run fetchLedgerActivity_def t1_def using assms(5)
    by (simp add: catchJ_def bindJ_def getJ_def apiFetch_fails showBanner_def setJ_def)
  let ?v = "t1\<lparr>doc := (doc t1)\<lparr>allLedgerOffset := allLedgerOffset (doc t1) + 50\<rparr>\<rparr>"
  have v: "allLedgerOffset (doc ?v) = 50 * (p + 2)" "srv ?v = srv t" "calls ?v = calls t + 1" "all_txns_body (doc ?v) = all_txns_body (doc t)"
    using assms(7) by (simp_all add: t1_def)
  obtain ts w where 2: "fetchLedgerActivity b env True ?v = (Inr (), ?v\<lparr>srv := w, calls := calls ?v + 1,
       doc := (doc ?v)\<lparr>all_txns_body := (if True then all_txns_body (doc ?v) else []) @ map (txn_line_of b) ts,
         load_more_hidden := length ts < 50\<rparr>\<rparr>)"
    "list_all2 (shown (wdb (srv ?v))) ts (take 50 (drop (allLedgerOffset (doc ?v)) (by_age None (wdb (srv ?v)))))"
    by (rule activity_run [where t = ?v and add_rows = True and p = "p + 2", OF assms(1,2) _ assms(4)])
      (use assms(3,6,8) v in \<open>simp_all add: mult.commute\<close>)
  have "all_txns_body (doc t1) = all_txns_body (doc t)" "load_more_hidden (doc t1) = load_more_hidden (doc t)"
    "banner_class (doc t1) = ''banner banner-error''" by (simp_all add: t1_def)
  moreover have "loadMoreLedger b env t1 = (Inr (), snd (fetchLedgerActivity b env True ?v))"
    unfolding loadMore_run 2(1) by simp
  moreover have "all_txns_body (doc (snd (fetchLedgerActivity b env True ?v))) = all_txns_body (doc t) @ map (txn_line_of b) ts"
    unfolding 2(1) using v(4) by simp
  ultimately show ?thesis using 1 2(2) [unfolded v(1,2)] by blast
qed

theorem failed_page_skipped_witness:
  "\<exists>t1 t2 ts. loadMoreLedger (sample_browser\<lparr>b_fate := (\<lambda>n. if n = 0 then Fail_before ''offline'' else Proceed)\<rparr>) sample_env sample_tab = (Inr (), t1) \<and>
     banner_class (doc t1) = ''banner banner-error'' \<and>
     loadMoreLedger (sample_browser\<lparr>b_fate := (\<lambda>n. if n = 0 then Fail_before ''offline'' else Proceed)\<rparr>) sample_env t1 = (Inr (), t2) \<and>
     list_all2 (shown (seed_db 0)) ts (take 50 (drop 100 (by_age None (seed_db 0))))"
proof -
  let ?b = "sample_browser\<lparr>b_fate := (\<lambda>n. if n = 0 then Fail_before ''offline'' else Proceed)\<rparr>"
  have "url_ok ?b" using sample_url by (simp add: url_ok_def)
  moreover have "wdb sample_world = seed_db 0" "allLedgerOffset empty_page = 0"
    by (simp_all add: sample_world_def empty_page_def Let_def)
  ultimately show ?thesis
    using failed_page_skipped [OF sample_calm sample_env_ok, of sample_tab ?b "''offline''" 0] sample_ledger by auto
qed

text \<open>
  C17: a transfer or a deposit that the page treats as done is in the ledger: the amount is cleared from the
  form only when the ledger has a transaction under the key of this submission, whatever fails before,
  during or after it and whatever other clients do.
\<close>

theorem cleared_is_posted:
  assumes "env_ok env" "ledger_ok (wdb (srv t))" "url_ok b"
    "handleTransfer b env t = (r, t') \<and> transfer_amount (doc t) \<noteq> [] \<and> transfer_amount (doc t') = [] \<or>
     handleDeposit b env t = (r, t') \<and> deposit_amount (doc t) \<noteq> [] \<and> deposit_amount (doc t') = []"
  shows "b_randomUUID b (calls t) \<in> tr_idempotency_key ` set (transactions (wdb (srv t')))"
proof -
  have rest: "keepsJ tab_kept (\<lambda>_. True) (thenJ (showBanner m False) (thenJ (setJ f) (thenJ (fetchAccounts b env) (refreshOpenHistory b env))))"
    if "\<And>p. page_ok p \<Longrightarrow> page_ok (f p)" for m f
    by (intro kept.writes keeps_setJ kept.loads_keep kept.refresh_keeps assms(1) that)
  note sub = submission [OF assms(1,2) operation_urls(1) [OF assms(3)]] submission [OF assms(1,2) operation_urls(2) [OF assms(3)]]
  from assms(4) show ?thesis
  proof (elim disjE conjE)
    assume run: "handleTransfer b env t = (r, t')" and a: "transfer_amount (doc t) \<noteq> []" "transfer_amount (doc t') = []"
    show ?thesis
      by (rule sub(1) [OF _ rest run [unfolded handleTransfer_def bind_getJ]]) (use a in \<open>auto simp: page_ok_def\<close>)
  next
    assume run: "handleDeposit b env t = (r, t')" and a: "deposit_amount (doc t) \<noteq> []" "deposit_amount (doc t') = []"
    show ?thesis
      by (rule sub(2) [OF _ rest run [unfolded handleDeposit_def bind_getJ]]) (use a in \<open>auto simp: page_ok_def\<close>)
  qed
qed

text \<open>Alice sends Bob one unit from the page.\<close>

definition transfer_tab :: tab where
  "transfer_tab = sample_tab\<lparr>doc := empty_page\<lparr>transfer_src := \<lparr>options = [], sel_value = ''00000000-0000-0000-0000-000000000002''\<rparr>,
     transfer_dst := \<lparr>options = [], sel_value = ''00000000-0000-0000-0000-000000000003''\<rparr>, transfer_amount := ''1''\<rparr>\<rparr>"

lemma sample_second_id:
  "fst (UUID_NewV7 (snd (UUID_NewV7 (lastV7time sample_world) (clock sample_env k) (random sample_env k))) (clock sample_env n) (random sample_env n)) =
     Inr [1, 139, 207, 229, 104, 0, 112, 1, 137, 10, 11, 12, 13, 14, 15, 16]"
  unfolding sample_world_def sample_env_def by code_simp

lemma sample_posts:
  obtains txn w where "mux_serve sample_env \<lparr>r_method = ''POST'', r_path = [''api'', ''transfers''],
      r_headers = [(''Content-Type'', ''application/json''), (''Idempotency-Key'', ''k1'')], r_query = [],
      r_body = Some (stringify [(''src_account_id'', ''00000000-0000-0000-0000-000000000002''),
        (''dst_account_id'', ''00000000-0000-0000-0000-000000000003''), (''amount'', ''1'')])\<rparr> sample_world =
    (Inr (ApiReply (writeJSON 201 (PTransaction txn))), w)"
proof -
  let ?body = "Some (stringify [(''src_account_id'', ''00000000-0000-0000-0000-000000000002''),
        (''dst_account_id'', ''00000000-0000-0000-0000-000000000003''), (''amount'', ''1'')])"
  let ?r = "\<lparr>r_method = ''POST'', r_path = [''api'', ''transfers''],
      r_headers = [(''Content-Type'', ''application/json''), (''Idempotency-Key'', ''k1'')], r_query = [], r_body = ?body\<rparr>"
  obtain b where b: "decode_body [''src_account_id'', ''dst_account_id'', ''amount''] ?body = Some b"
    "parseUUIDField (SrcID b) ''src_account_id'' = Inr alice_id" "parseUUIDField (DstID b) ''dst_account_id'' = Inr bob_id" "Amount b = one"
    by (simp add: decode_body_def stringify_def js_quote_def js_escape_def set_field_def names_field_def decode_string_def decode_money_def
        transfer_body_zero_def parseUUIDField_def go_eval seed_ids one_def of_units_def)
  obtain i t where n: "NewV7 sample_env sample_world = (Inr i, sample_world\<lparr>lastV7time := t, tick := tick sample_world + 1\<rparr>)"
    by (rule calm_NewV7 [OF sample_calm sample_env_ok])
  let ?w = "sample_world\<lparr>lastV7time := t, tick := tick sample_world + 1\<rparr>"
  have t: "t = snd (UUID_NewV7 (lastV7time sample_world) (clock sample_env (tick sample_world)) (random sample_env (tick sample_world)))"
    using n by (auto simp: NewV7_def split: prod.splits dest: arg_cong [where f = lastV7time])
  have fr: "fresh_id sample_env ?w 1"
    by (simp add: fresh_id_def t sample_second_id) (simp add: sample_world_def seed_db_eq seed_ids)
  have rid: "resolveRequestID sample_env ?r sample_world = (Inr (UUID_String i), ?w)"
    by (simp add: resolveRequestID_def get_value_def run_eval n)
  obtain res w' where T: "Transfer sample_env (Store_Storer sample_env) alice_id bob_id one ''k1'' (UUID_String i) ?w = (res, w')" by fastforce
  have "\<exists>x. res = Inr x"
    using Transfer_decided [OF sample_calm sample_env_ok _ one_like(1) _ fr T] sample_ledger sample_room(1) sample_verdicts(1)
    by (auto simp: meets_def)
  then obtain txn es where "res = Inr (txn, es)" by force
  then have "serve sample_env ?r sample_world = (Inr (writeJSON 201 (PTransaction txn)), w')"
    using rid b T by (simp add: serve_def RegisterRoutes_def createTransfer_def get_value_def run_eval Let_def)
  then show ?thesis by (intro that) (simp add: mux_serve_def run_eval)
qed

theorem cleared_is_posted_witness:
  "\<exists>r t'. handleTransfer sample_browser sample_env transfer_tab = (r, t') \<and> transfer_amount (doc t') = [] \<and>
     ''k1'' \<in> tr_idempotency_key ` set (transactions (wdb (srv t')))"
proof -
  let ?body = "Some (stringify [(''src_account_id'', ''00000000-0000-0000-0000-000000000002''),
        (''dst_account_id'', ''00000000-0000-0000-0000-000000000003''), (''amount'', ''1'')])"
  have key: "b_randomUUID sample_browser (calls transfer_tab) = ''k1''"
    by (simp add: sample_browser_def transfer_tab_def go_eval)
  have tab: "srv transfer_tab = sample_world" "transfer_amount (doc transfer_tab) = ''1''"
    "sel_value (transfer_src (doc transfer_tab)) = ''00000000-0000-0000-0000-000000000002''"
    "sel_value (transfer_dst (doc transfer_tab)) = ''00000000-0000-0000-0000-000000000003''"
    by (simp_all add: transfer_tab_def)
  obtain txn w where m: "mux_serve sample_env \<lparr>r_method = ''POST'', r_path = [''api'', ''transfers''],
      r_headers = [(''Content-Type'', ''application/json''), (''Idempotency-Key'', ''k1'')], r_query = [], r_body = ?body\<rparr> (srv transfer_tab) =
    (Inr (ApiReply (writeJSON 201 (PTransaction txn))), w)" unfolding tab(1) by (rule sample_posts)
  have "payload_ok (PTransaction txn)" using mux_amounts m unfolding returns_def by (metis payload_writes(1))
  then have f: "apiFetch sample_browser sample_env ''POST'' ''/api/transfers'' ?body [(''Idempotency-Key'', ''k1'')] transfer_tab =
      (Inr (payload (writeJSON 201 (PTransaction txn))), transfer_tab\<lparr>srv := w, calls := calls transfer_tab + 1\<rparr>)"
    by (intro apiFetch_data [OF _ operation_urls(1) [OF sample_url] m]) (simp_all add: writeJSON_def sample_browser_def)
  obtain r t' where run: "handleTransfer sample_browser sample_env transfer_tab = (r, t')" by fastforce
  let ?k = "thenJ (fetchAccounts sample_browser sample_env) (refreshOpenHistory sample_browser sample_env)"
    and ?h = "\<lambda>err. showBanner (''Transfer failed: '' @ err) True"
  define t1 where "t1 = snd (setJ (\<lambda>p. p\<lparr>transfer_amount := []\<rparr>)
    (snd (showBanner ''Transfer successful'' False (transfer_tab\<lparr>srv := w, calls := calls transfer_tab + 1\<rparr>))))"
  have "trim ''1'' = ''1''" by (simp add: trim_def js_space_def)
  then have "catchJ ?k ?h t1 = (r, t')"
    using run f key unfolding handleTransfer_def bind_getJ tab
    by (simp add: catchJ_def bindJ_def thenJ_def new_key_def showBanner_def setJ_def t1_def)
  moreover have "keepsJ form_kept (\<lambda>_. True) (catchJ ?k ?h)"
    by (intro form.writes form.loads_keep form.refresh_keeps TrueI)
  ultimately have "form_kept t1 t'" unfolding keepsJ_def by blast
  then have "transfer_amount (doc t') = []" by (simp add: form_kept_def t1_def setJ_def)
  with cleared_is_posted [OF sample_env_ok _ sample_url, of transfer_tab r t'] run tab(1,2) key sample_ledger show ?thesis by auto
qed

end
