(* ===== verification/Spec2Isabelle.thy ===== *)
theory Spec2Isabelle
  imports Locking Races Loadtest Oversized Web_Properties
begin

text \<open>
  A verification of the banking service: a double-entry ledger over PostgreSQL with an HTTP API.

  \<^bold>\<open>The program.\<close> A request comes in through \<^verbatim>\<open>internal/httpapi/handlers.go\<close>, which decodes and validates
  it. The three operations that move money (transfer, deposit, reversal) are in
  \<^verbatim>\<open>internal/ledger/service.go\<close>; they run inside one database transaction that \<^verbatim>\<open>internal/store\<close> opens and
  commits: lock the two accounts, check the funds, write the two balances, the transaction row and
  its two legs. A second request with the same idempotency key gets the stored transaction. The schema
  of \<^verbatim>\<open>migrations/\<close> adds constraints and a deferred trigger. Amounts are decimals of four places
  (\<^verbatim>\<open>internal/money\<close> over the vendored \<^verbatim>\<open>shopspring/decimal\<close>), identifiers are UUIDs (vendored
  \<^verbatim>\<open>google/uuid\<close>), and columns are read through the vendored \<^verbatim>\<open>pgx\<close>. \<^verbatim>\<open>cmd/server/main.go\<close> migrates the database
  with the vendored \<^verbatim>\<open>golang-migrate\<close>, opens the pool and serves the API and the web page;
  \<^verbatim>\<open>cmd/loadtest/main.go\<close> is a client that sends transfers from many workers and checks the balances.

  \<^bold>\<open>The theories.\<close>
  \<^item> \<open>Go_Prelude\<close>: what the code uses of Go's standard library (integer division, \<^verbatim>\<open>strconv\<close>, digits).
  \<^item> \<open>Decimal\<close>, \<open>Money\<close>: arbitrary-precision decimals and amounts: parsing, rounding, printing, arithmetic,
    the JSON form. Locale \<open>fixed_point\<close> states what a scaled amount is; amounts provide it.
  \<^item> \<open>UUID\<close>: parsing, printing, and the generators of versions 4 and 7 with their process state.
  \<^item> \<open>Numeric\<close>: the binary NUMERIC codec of pgx, on bytes.
  \<^item> \<open>Ledger_Types\<close>: the types and errors of \<^verbatim>\<open>internal/ledger\<close>.
  \<^item> \<open>Database\<close>: the tables, the statements the program sends with the constraints they meet, and the
    state-and-error monad. \<open>Ledger\<close>: the invariant \<open>ledger_ok\<close>, the abstract posting, the relation \<open>rely\<close>.
  \<^item> \<open>Exec\<close>: reasoning about runs; locales \<open>world_preorder\<close> and \<open>interference\<close>.
  \<^item> \<open>Service\<close>: \<^verbatim>\<open>Transfer\<close>, \<^verbatim>\<open>Deposit\<close>, \<^verbatim>\<open>Reverse\<close> over the interface \<^verbatim>\<open>Storer\<close>; locale \<open>storer\<close> is what the
    service relies on.
  \<^item> \<open>Store\<close>, \<open>Store_Contract\<close>: the queries and transactions of \<^verbatim>\<open>internal/store\<close>, and the proof that they
    provide \<open>storer\<close>, once for a shared database (\<open>pg\<close>) and once for a private one (\<open>solo\<close>).
  \<^item> \<open>Handlers\<close>: the nine routes. \<open>Migrations\<close>: the SQL seeds, up and down.
  \<^item> \<open>Operations\<close>, \<open>Outcomes\<close>: the operations when nothing fails or interferes, decided by verdicts computed
    from the tables. \<open>Guarantees\<close>: what holds whatever fails. \<open>Sample\<close>: a concrete environment and states.
  \<^item> \<open>Locking\<close>: interleaved transactions and their locks; locale \<open>ordered_locks\<close>, which the postings provide.
  \<^item> \<open>Races\<close>: a transfer that waits for its locks while another client commits.
  \<^item> \<open>Queries\<close>: what the listings show: pages, histories, a new account. \<open>Oversized\<close>: amounts no column can hold.
    \<open>Responses\<close>: the amounts a response carries.
  \<^item> \<open>Migrator\<close>: \<^verbatim>\<open>Up\<close> of \<^verbatim>\<open>golang-migrate\<close> over the version row and the three up files. \<open>Server\<close>: the start of
    \<^verbatim>\<open>main\<close>, the mux, and the process as the step relation \<open>server_step\<close>.
  \<^item> \<open>Loadtest\<close>: the load test, its workers under any schedule; a third interpretation of \<open>storer\<close> (\<open>pair\<close>), with
    the relation that keeps the sum of two balances.
  \<^item> \<open>Webclient\<close>, \<open>Web_Properties\<close>: \<^verbatim>\<open>web/app.js\<close>: the page as a record, its handlers over the mux, and the user as
    the step relation \<open>page_step\<close>; locales \<open>tab_preorder\<close> and \<open>page_writes\<close>, the latter provided twice.

  \<^bold>\<open>State and effects.\<close> A computation is a function on \<open>world\<close>: the database as the program sees it, the
  database a rollback goes back to, the pending trigger events, the last time used by the generator of
  identifiers and the number of interactions so far. Everything the program does not control is the
  record \<open>env\<close>, indexed by that number: whether a call fails (before or after its effect), what other
  clients have committed meanwhile, the clock, the random source, the order of tied rows, collation,
  the sequences and the wire form of numbers. \<open>env_ok\<close> is what the program relies on of it.

  \<^bold>\<open>Isolation.\<close> Other clients act between any two calls outside a transaction, and while a transaction
  waits for its locks. After that its rows are locked; what others commit to other rows, and to the
  unique indexes, is ordered before the lock or after the commit.

  \<^bold>\<open>What is shown.\<close> Whatever requests arrive, whatever fails and whatever other instances do, the ledger
  stays correct (\<open>requests_keep_ledger\<close>) and append-only (\<open>ledger_append_only\<close>); each operation is all or
  nothing (\<open>Transfer_all_or_nothing\<close> and its kin); undisturbed, each does exactly what its rules say, audit
  row included (\<open>Transfer_correct\<close> and its kin); a key names one transaction (\<open>key_names_one_transaction\<close>); a
  reversal cancels its original, once (\<open>reversals_cancel\<close>). Concurrent postings never deadlock
  (\<open>postings_never_deadlock\<close>), and a transfer that waited for its locks is decided by what it finds then
  (\<open>Transfer_race\<close>). A start, however it fails, leaves the schema at a version or marked dirty
  (\<open>start_safe\<close>), a dirty one is refused (\<open>dirty_start_refused\<close>), and a process that listens does so over a
  correct ledger (\<open>server_run_safe\<close>). Pages show every transaction once (\<open>pages_cover\<close>), and the load
  test finds the sum it started with (\<open>loadtest_sound\<close>). Whatever the user does on the page, it stays well
  formed (\<open>page_safe\<close>), what it treats as done is in the ledger (\<open>cleared_is_posted\<close>), and its panel shows
  every transaction (\<open>ledger_panel\<close>) unless a page failed to load (\<open>failed_page_skipped\<close>). The rest: every request is answered; reads and
  rejected requests change nothing; instances compose; the seeds are correct; amounts, decimals,
  identifiers and numeric columns survive their round trips exactly.

  \<^bold>\<open>Termination.\<close> No definition has fuel: loops are recursions over lists, the loop of \<^verbatim>\<open>readUp\<close> ends
  because the versions it has yet to read get fewer, and the life of the process and the interleavings
  of transactions are step relations.

  \<^bold>\<open>Not modelled.\<close> Logging; the JSON text of responses (their content is); timestamps beyond what orders
  rows; contexts and deadlines, which are calls that fail; memory limits; \<^verbatim>\<open>Close\<close> of the pool and the
  draining of requests at shutdown; the markup and style of the page, what the file server finds
  below \<^verbatim>\<open>web/\<close>, and two handlers of the page that overlap; the browser (its parser of URLs, its random UUIDs,
  the text of dates), which is the record \<open>browser\<close> with \<open>url_ok\<close> as what is relied on; the flags of the load
  test, which are parameters, and the times it prints.
\<close>

subsection \<open>A request to evaluate\<close>

text \<open>Alice sends Bob one unit.\<close>

definition sample_request :: "string \<Rightarrow> request" where
  "sample_request key = \<lparr>r_method = ''POST'', r_path = [''api'', ''transfers''],
     r_headers = [(''Idempotency-Key'', key), (''X-Request-ID'', ''r1'')], r_query = [],
     r_body = Some (JObject ''{}'' [
       (''src_account_id'', JString ''x'' ''00000000-0000-0000-0000-000000000002''),
       (''dst_account_id'', JString ''x'' ''00000000-0000-0000-0000-000000000003''),
       (''amount'', JNumber ''1'')])\<rparr>"

subsection \<open>Requests that have no effect\<close>

text \<open>The database is untouched whenever the response has status 400.\<close>

definition rejects_cleanly :: "response M \<Rightarrow> bool" where
  "rejects_cleanly m \<longleftrightarrow> (\<forall>w resp w'. m w = (Inr resp, w') \<and> status resp = 400 \<longrightarrow> wdb w' = wdb w)"

lemma rejects_return: "rejects_cleanly (returnM resp)"
  by (simp add: rejects_cleanly_def returnM_def)

lemma rejects_tried: "(\<And>res. status (g res) \<noteq> 400) \<Longrightarrow> rejects_cleanly (bindM (tryM m) (\<lambda>res. returnM (g res)))"
  by (auto simp: rejects_cleanly_def run_simps)

lemma rejects_bind:
  assumes "\<And>w r w'. m w = (r, w') \<Longrightarrow> wdb w' = wdb w" "\<And>x. rejects_cleanly (f x)"
  shows "rejects_cleanly (bindM m f)"
  unfolding rejects_cleanly_def
proof (intro allI impI, elim conjE)
  fix w w' resp assume "bindM m f w = (Inr resp, w')" "status resp = 400"
  then obtain x w1 where "m w = (Inr x, w1)" "f x w1 = (Inr resp, w')" by (auto simp: run_simps)
  then show "wdb w' = wdb w" using assms \<open>status resp = 400\<close> by (metis rejects_cleanly_def)
qed

lemma not_400:
  "status (mapError e) \<noteq> 400" "status (internalError e) \<noteq> 400"
  "status (writeJSON s p) = s" "status (writeError s c t) = s"
  using mapError_status [of e] by (auto simp: internalError_def writeError_def writeJSON_def)

lemma serve_rejects: "rejects_cleanly (serve env r)"
proof -
  have "rejects_cleanly (listAccounts env r)" "rejects_cleanly (createAccount env r)"
    "rejects_cleanly (getAccount env i r)" "rejects_cleanly (createTransfer env S r)"
    "rejects_cleanly (reverseTransfer env S i r)" "rejects_cleanly (createDeposit env S r)"
    "rejects_cleanly (listTransactions env i r)" "rejects_cleanly (listAllTransactions env r)"
    "rejects_cleanly (listAudit env i r)" for i S
    unfolding listAccounts_def createAccount_def getAccount_def createTransfer_def reverseTransfer_def
      createDeposit_def listTransactions_def listAllTransactions_def listAudit_def Let_def
    by (auto intro!: rejects_tried rejects_return rejects_bind [OF resolveRequestID_db] simp: not_400
        split: option.splits sum.splits)
  then show ?thesis
    unfolding serve_def Let_def by (auto intro: rejects_return split: sum.splits route.splits)
qed

subsection \<open>A transfer through the API\<close>

lemma UUID_Parse_nonempty: "UUID_Parse s = Inr i \<Longrightarrow> s \<noteq> []"
  by (auto simp: UUID_Parse_def)

lemma transfer_response:
  assumes "r_method r = ''POST''" "r_path r = [''api'', ''transfers'']"
    "get_value ''Idempotency-Key'' (r_headers r) = key" "key \<noteq> []"
    "get_value ''X-Request-ID'' (r_headers r) = rid" "rid \<noteq> []"
    "decode_body [''src_account_id'', ''dst_account_id'', ''amount''] (r_body r) = Some b"
    "UUID_Parse (SrcID b) = Inr src" "UUID_Parse (DstID b) = Inr dst"
    and t: "Transfer env (Store_Storer env) src dst (Amount b) key rid w = (res, w')"
  shows "serve env r w = (Inr (case res of Inl err \<Rightarrow> mapError err
    | Inr (txn, _) \<Rightarrow> writeJSON 201 (PTransaction txn)), w')"
proof -
  have ne: "SrcID b \<noteq> []" "DstID b \<noteq> []" using assms(8,9) UUID_Parse_nonempty by blast+
  have "serve env r = createTransfer env (Store_Storer env) r"
    using assms(1,2) by (simp add: serve_def RegisterRoutes_def Let_def)
  then show ?thesis
    using assms ne by (simp add: createTransfer_def resolveRequestID_def parseUUIDField_def run_eval Let_def)
qed

lemma decode_transfer:
  assumes "Money_UnmarshalJSON (json_text v) = Inr amount"
  shows "decode_body [''src_account_id'', ''dst_account_id'', ''amount'']
    (Some (JObject obj [(''src_account_id'', JString x s), (''dst_account_id'', JString y d), (''amount'', v)])) =
    Some \<lparr>SrcID = s, DstID = d, Amount = amount\<rparr>"
  using assms by (simp add: decode_body_def set_field_def names_field_def decode_string_def decode_money_def transfer_body_zero_def
      ascii_lower_def)

lemma stored_two:
  assumes "ledger_ok D" "stored D row res"
  shows "length (tEntries (fst res)) = 2"
proof -
  have "two_legs (legs (tr_id row) (entries D))"
    using assms by (auto simp: stored_def ledger_ok_def transaction_ok_def Let_def)
  then have "length (legs (tr_id row) (entries D)) = 2" by (elim two_legs_cases) simp
  moreover have "length (tEntries (fst res)) = length (legs (tr_id row) (entries D))"
    using assms(2) by (auto simp: stored_def dest: list_all2_lengthD)
  ultimately show ?thesis by simp
qed

subsection \<open>Properties\<close>

text \<open>
  C1: whatever requests the server handles, whatever fails on the way and whatever other clients do,
  a correct ledger stays correct: every balance is the sum of the account's legs, the balances sum to
  zero, no user account is overdrawn, and the legs of every transaction balance.
\<close>

theorem requests_keep_ledger:
  assumes "env_ok env" "ledger_ok (wdb w)" "serve_all env rs w = (resps, w')"
  shows "ledger_ok (wdb w') \<and> total_balance (wdb w') = 0 \<and>
    (\<forall>r\<in>set (accounts (wdb w')). ar_balance r = account_net (ar_id r) (entries (wdb w')) \<and>
       (ar_is_system r \<or> 0 \<le> ar_balance r)) \<and>
    (\<forall>t. check_double_entry_balance t (wdb w'))"
proof -
  have L: "ledger_ok (wdb w')" using relyD(1) [OF serve_all_keeps [OF assms(1,3)] assms(2)] .
  then have "\<forall>r\<in>set (accounts (wdb w')). account_ok (wdb w') r" by (simp add: ledger_ok_def)
  with L ledger_total [OF L] ledger_check [OF L] show ?thesis by (auto simp: account_ok_def)
qed

theorem requests_keep_ledger_witness:
  "ledger_ok (wdb (snd (serve_all sample_env [sample_request ''k1''] sample_world)))"
  using requests_keep_ledger [OF sample_env_ok sample_ledger prod.collapse [symmetric]] by blast

text \<open>
  C10: the ledger is append-only: a transaction, its legs, an account and an audit row that are there
  before the requests are there afterwards, unchanged but for the balance of the account.
\<close>

theorem ledger_append_only:
  assumes "env_ok env" "ledger_ok (wdb w)" "serve_all env rs w = (resps, w')"
  shows "set (transactions (wdb w)) \<subseteq> set (transactions (wdb w')) \<and>
    (\<forall>t\<in>set (transactions (wdb w)). legs (tr_id t) (entries (wdb w')) = legs (tr_id t) (entries (wdb w))) \<and>
    (\<forall>r\<in>set (accounts (wdb w)). \<exists>r'\<in>set (accounts (wdb w')). same_account r r') \<and>
    set (audit_log (wdb w)) \<subseteq> set (audit_log (wdb w'))"
  using relyD(2-5) [OF serve_all_keeps [OF assms(1,3)] assms(2)] by blast

theorem ledger_append_only_witness:
  "p_txn paid \<in> set (transactions (wdb (snd (serve_all sample_env [sample_request ''k1''] paid_world))))"
proof -
  have "p_txn paid \<in> set (transactions (wdb paid_world))" by (simp add: paid_db)
  then show ?thesis
    using ledger_append_only [OF sample_env_ok paid_ledger prod.collapse [symmetric]] by blast
qed







text \<open>
  C5: when nothing fails or interferes, a transfer does exactly what the rules say, in the order the
  code applies them: it refuses with the error of the first rule that is broken and leaves one audit
  row saying so; it returns the transaction already stored under the key and changes nothing; or it
  posts the amount, returns the new transaction and leaves one audit row naming it.
\<close>

theorem Transfer_correct:
  assumes "calm env" "env_ok env" "ledger_ok (wdb w)" "money_like amount"
    "room src dst (units amount) (wdb w)" "fresh_id env w 1"
    "Transfer env (Store_Storer env) src dst amount key rid w = (r, w')"
  shows "meets ''TRANSFER'' (\<lambda>i. mk_Transaction i KindTransfer key None) (Some (src, dst, units amount)) rid
    (Transfer_verdict src dst (units amount) key (wdb w)) (wdb w) r (wdb w')"
  using assms by (rule Transfer_decided)

theorem Transfer_correct_witness:
  "\<exists>r w'. meets ''TRANSFER'' (\<lambda>i. mk_Transaction i KindTransfer ''k1'' None) (Some (alice_id, bob_id, 10000)) ''r1''
    Post (wdb sample_world) r w'"
  using Transfer_correct [OF sample_calm sample_env_ok sample_ledger one_like(1) _ sample_fresh prod.collapse [symmetric],
      of alice_id bob_id "''k1''" "''r1''"] sample_room(1) sample_verdicts(1) by auto

text \<open>C7: the same for a deposit.\<close>

theorem Deposit_correct:
  assumes "calm env" "env_ok env" "ledger_ok (wdb w)" "money_like amount"
    "room ExternalAccountID dst (units amount) (wdb w)" "fresh_id env w 1"
    "Deposit env (Store_Storer env) dst amount key rid w = (r, w')"
  shows "meets ''DEPOSIT'' (\<lambda>i. mk_Transaction i KindDeposit key None) (Some (ExternalAccountID, dst, units amount)) rid
    (Deposit_verdict dst (units amount) key (wdb w)) (wdb w) r (wdb w')"
  using assms by (rule Deposit_decided)

theorem Deposit_correct_witness:
  "\<exists>r w'. meets ''DEPOSIT'' (\<lambda>i. mk_Transaction i KindDeposit ''k1'' None) (Some (ExternalAccountID, bob_id, 10000)) ''r1''
    Post (wdb sample_world) r w'"
  using Deposit_correct [OF sample_calm sample_env_ok sample_ledger one_like(1) _ sample_fresh prod.collapse [symmetric],
      of bob_id "''k1''" "''r1''"] sample_room(2) sample_verdicts(3) by auto

text \<open>
  C6: the same for a reversal. The order of the rules is that of the code: the funds of the original
  recipient are looked at before it is found that the transfer was already reversed.
\<close>

theorem Reverse_correct:
  assumes "calm env" "env_ok env" "ledger_ok (wdb w)"
    "case reverse_move orig (wdb w) of None \<Rightarrow> True | Some (f, t, a) \<Rightarrow> room f t a (wdb w)" "fresh_id env w 4"
    "Reverse env (Store_Storer env) orig key rid w = (r, w')"
  shows "meets ''REVERSAL'' (\<lambda>i. mk_Transaction i KindReversal key (Some orig)) (reverse_move orig (wdb w)) rid
    (Reverse_verdict orig key (wdb w)) (wdb w) r (wdb w')"
  using assms by (rule Reverse_decided)

theorem Reverse_correct_witness:
  "\<exists>r w'. meets ''REVERSAL'' (\<lambda>i. mk_Transaction i KindReversal ''k1'' (Some paid_id)) (Some (bob_id, alice_id, 10000)) ''r1''
    Post (wdb paid_world) r w'"
  using Reverse_correct [OF sample_calm sample_env_ok paid_ledger _ paid_fresh prod.collapse [symmetric],
      of paid_id "''k1''" "''r1''"] paid_move paid_room(1) paid_verdict(1) by auto

text \<open>
  C8: an idempotency key names one transaction for good: if two operations, of any kinds and with any
  arguments, are given the same key and both succeed, the second returns the transaction of the first
  and no new transaction has that key, whatever happens before, between and during the two.
\<close>

theorem key_names_one_transaction:
  assumes "env_ok env" "ledger_ok (wdb w)" "keyed_op env key m1" "m1 w = (Inr res1, w1)"
    "rely (wdb w1) (wdb w2)" "keyed_op env key m2" "m2 w2 = (Inr res2, w3)"
  shows "tID (fst res2) = tID (fst res1) \<and>
    (\<forall>t\<in>set (transactions (wdb w3)). tr_idempotency_key t = key \<longrightarrow> t \<in> set (transactions (wdb w1)))"
proof -
  obtain txn1 f1 t1 a1 where o1: "op_outcome rely txn1 f1 t1 a1 (wdb w) (Inr res1) (wdb w1)" "tIdempotencyKey txn1 = key"
    by (rule keyed_outcome [OF assms(1-4)])
  have "ledger_ok (wdb w2)" using relyD(1) [OF outcome_rely [OF o1(1)] assms(2)] relyD(1) [OF assms(5)] by blast
  then obtain txn2 f2 t2 a2 where o2: "op_outcome rely txn2 f2 t2 a2 (wdb w2) (Inr res2) (wdb w3)" "tIdempotencyKey txn2 = key"
    by (rule keyed_outcome [OF assms(1) _ assms(6,7)])
  from key_once [OF assms(2) o1(1) assms(5) o2(1)] o1(2) o2(2) show ?thesis by simp
qed

lemma paid_replay:
  obtains res w' where "Transfer sample_env (Store_Storer sample_env) alice_id bob_id one ''k0'' rid paid_world = (Inr res, w')"
    "wdb w' = wdb paid_world" "stored (wdb paid_world) (p_txn paid) res"
proof -
  obtain r w' where run: "Transfer sample_env (Store_Storer sample_env) alice_id bob_id one ''k0'' rid paid_world = (r, w')"
    by fastforce
  from Transfer_decided [OF sample_calm sample_env_ok paid_ledger one_like(1) _ paid_fresh run] paid_room(2) paid_verdict(2) that run
  show ?thesis by (auto simp: meets_def)
qed

theorem key_names_one_transaction_witness:
  "\<exists>res1 res2 w1 w3.
     Transfer sample_env (Store_Storer sample_env) alice_id bob_id one ''k0'' ''r1'' paid_world = (Inr res1, w1) \<and>
     Transfer sample_env (Store_Storer sample_env) alice_id bob_id one ''k0'' ''r2'' paid_world = (Inr res2, w3) \<and>
     tID (fst res2) = tID (fst res1)"
proof -
  obtain res1 w1 where a: "Transfer sample_env (Store_Storer sample_env) alice_id bob_id one ''k0'' ''r1'' paid_world = (Inr res1, w1)"
    "wdb w1 = wdb paid_world" by (rule paid_replay)
  obtain res2 w3 where b: "Transfer sample_env (Store_Storer sample_env) alice_id bob_id one ''k0'' ''r2'' paid_world = (Inr res2, w3)"
    by (rule paid_replay)
  have k: "keyed_op sample_env ''k0'' (Transfer sample_env (Store_Storer sample_env) alice_id bob_id one ''k0'' rid)" for rid
    unfolding keyed_op_def using one_like(1) by blast
  have "rely (wdb w1) (wdb paid_world)" using a(2) by simp
  from key_names_one_transaction [OF sample_env_ok paid_ledger k a(1) this k b] a(1) b show ?thesis by blast
qed

text \<open>
  C9: after any requests, a transaction that reverses another reverses a transfer, is the only one to
  do so, and cancels it: on every account the legs of the two sum to zero.
\<close>

theorem reversals_cancel:
  assumes "env_ok env" "ledger_ok (wdb w)" "serve_all env rs w = (resps, w')"
    "t \<in> set (transactions (wdb w'))" "tr_reverses_transaction_id t = Some i"
  shows "(\<exists>orig\<in>set (transactions (wdb w')). tr_id orig = i \<and> tr_kind orig = KindTransfer \<and>
      (\<forall>a. account_net a (legs i (entries (wdb w'))) + account_net a (legs (tr_id t) (entries (wdb w'))) = 0)) \<and>
    (\<forall>t'\<in>set (transactions (wdb w')). tr_reverses_transaction_id t' = Some i \<longrightarrow> t' = t)"
proof -
  have L: "ledger_ok (wdb w')" using relyD(1) [OF serve_all_keeps [OF assms(1,3)] assms(2)] .
  show ?thesis using reversal_cancels [OF L assms(4,5)] by blast
qed

theorem reversals_cancel_witness:
  "\<exists>w :: world. ledger_ok (wdb w) \<and> (\<exists>t\<in>set (transactions (wdb w)). tr_reverses_transaction_id t = Some paid_id \<and>
     (\<forall>a. account_net a (legs paid_id (entries (wdb w))) + account_net a (legs (tr_id t) (entries (wdb w))) = 0))"
proof -
  obtain r w' where run: "Reverse sample_env (Store_Storer sample_env) paid_id ''k1'' ''r1'' paid_world = (r, w')" by fastforce
  from Reverse_decided [OF sample_calm sample_env_ok paid_ledger _ paid_fresh run] paid_move paid_room(1) paid_verdict(1)
  obtain f t a i P b where P: "posting_of (mk_Transaction i KindReversal ''k1'' (Some paid_id)) f t (of_units a) P"
    "posting_ok P (wdb paid_world)" "wdb w' = add_audit b (apply_posting P (wdb paid_world))"
    by (auto simp: meets_def)
  have L: "ledger_ok (wdb w')" using ledger_ok_posting [OF paid_ledger P(2)] by (simp add: P(3) ledger_ok_add_audit)
  have t: "p_txn P \<in> set (transactions (wdb w'))" "tr_reverses_transaction_id (p_txn P) = Some paid_id"
    using P(1) by (simp_all add: P(3) add_audit_def posting_of_def mk_Transaction_def)
  have "serve_all sample_env [] w' = ([], w')" by simp
  from reversals_cancel [OF sample_env_ok L this t] L t show ?thesis by blast
qed



text \<open>C26: a GET or HEAD request changes nothing in the database.\<close>

theorem reads_write_nothing:
  assumes "alone env" "is_get (r_method r)" "serve env r w = (resp, w')"
  shows "wdb w' = wdb w"
  using keepsD [OF GET_keeps [OF assms(1,2)] assms(3)] by (simp add: lift_db_def)

theorem reads_write_nothing_witness:
  "wdb (snd (serve sample_env ((sample_request ''k1'')\<lparr>r_method := ''GET'', r_path := [''api'', ''accounts'']\<rparr>) sample_world)) = seed_db 0"
  using reads_write_nothing [OF calmD(4) [OF sample_calm] _ prod.collapse [symmetric]]
  by (simp add: sample_world_def is_get_def)

text \<open>
  C25: a request answered with status 400 (a missing header, a body that does not decode, an id that is
  no UUID, an unknown kind) has not touched the database.
\<close>

theorem bad_requests_have_no_effect:
  assumes "serve env r w = (Inr resp, w')" "status resp = 400"
  shows "wdb w' = wdb w"
  using serve_rejects assms unfolding rejects_cleanly_def by blast

theorem bad_requests_have_no_effect_witness:
  "\<exists>resp w'. serve sample_env (sample_request []) sample_world = (Inr resp, w') \<and> status resp = 400 \<and>
     wdb w' = wdb sample_world"
proof -
  let ?resp = "writeError 400 ''missing_idempotency_key'' ''Idempotency-Key header is required''"
  have "serve sample_env (sample_request []) sample_world = (Inr ?resp, sample_world)"
    by (simp add: serve_def sample_request_def RegisterRoutes_def createTransfer_def get_value_def returnM_def)
  moreover have "status ?resp = 400" by (simp add: not_400)
  ultimately show ?thesis using bad_requests_have_no_effect by blast
qed



text \<open>
  C18: a transfer through the API. The response of POST /api/transfers is decided by the same rules:
  201 and the new transaction after exactly one posting, 201 and the stored transaction with its two
  legs and an unchanged database, or the response for the error and unchanged books.
\<close>

theorem transfer_request:
  assumes "calm env" "env_ok env" "ledger_ok (wdb w)"
    and r: "r_method r = ''POST''" "r_path r = [''api'', ''transfers'']"
      "get_value ''Idempotency-Key'' (r_headers r) = key" "key \<noteq> []"
      "get_value ''X-Request-ID'' (r_headers r) = rid" "rid \<noteq> []"
      "r_body r = Some (JObject obj [(''src_account_id'', JString x s), (''dst_account_id'', JString y d), (''amount'', v)])"
      "UUID_Parse s = Inr src" "UUID_Parse d = Inr dst" "Money_UnmarshalJSON (json_text v) = Inr amount"
    and fits: "room src dst (units amount) (wdb w)" "fresh_id env w 1"
  shows "\<exists>resp w'. serve env r w = (Inr resp, w') \<and>
    (case Transfer_verdict src dst (units amount) key (wdb w) of
       Refuse e \<Rightarrow> resp = mapError e \<and> books_kept (wdb w) (wdb w')
     | Replay row \<Rightarrow> wdb w' = wdb w \<and> status resp = 201 \<and>
         (\<exists>t. payload resp = PTransaction t \<and> tID t = tr_id row \<and> length (tEntries t) = 2)
     | Post \<Rightarrow> \<exists>P a. posting_ok P (wdb w) \<and> wdb w' = add_audit a (apply_posting P (wdb w)) \<and>
         p_src P = src \<and> p_dst P = dst \<and> p_amount P = units amount \<and>
         tr_idempotency_key (p_txn P) = key \<and> status resp = 201 \<and>
         (\<exists>t. payload resp = PTransaction t \<and> tID t = tr_id (p_txn P) \<and> tEntries t = []))"
proof -
  obtain res w' where run: "Transfer env (Store_Storer env) src dst amount key rid w = (res, w')" by fastforce
  note body = decode_transfer [where obj = obj and x = x and s = s and y = y and d = d, OF r(10)]
  note resp = transfer_response [OF r(1-6) body [folded r(7)], simplified, OF r(8,9) run]
  have m: "money_like amount" using decode_body_like [OF body] by simp
  show ?thesis
  proof (cases "Transfer_verdict src dst (units amount) key (wdb w)")
    case (Refuse e)
    then show ?thesis using Transfer_decided [OF assms(1-3) m fits run] resp
      by (auto simp: meets_def books_kept_add_audit)
  next
    case (Replay row)
    then obtain t es where "res = Inr (t, es)" "stored (wdb w) row (t, es)" "wdb w' = wdb w"
      using Transfer_decided [OF assms(1-3) m fits run] by (fastforce simp: meets_def)
    then show ?thesis using Replay resp stored_two [OF assms(3)]
      by (fastforce simp: writeJSON_def stored_def)
  next
    case Post
    then show ?thesis using Transfer_decided [OF assms(1-3) m fits run] resp
      by (fastforce simp: meets_def writeJSON_def posted_result_def posting_of_def mk_Transaction_def)
  qed
qed

theorem transfer_request_witness:
  "\<exists>resp w'. serve sample_env (sample_request ''k1'') sample_world = (Inr resp, w') \<and> status resp = 201 \<and>
     (\<exists>t. payload resp = PTransaction t \<and> tEntries t = [])"
proof -
  have "room alice_id bob_id (units one) (wdb sample_world)" using sample_room(1) by simp
  moreover have "UUID_Parse ''00000000-0000-0000-0000-000000000002'' = Inr alice_id"
    "UUID_Parse ''00000000-0000-0000-0000-000000000003'' = Inr bob_id" by (simp_all add: go_eval seed_ids)
  moreover have "Money_UnmarshalJSON (json_text (JNumber ''1'')) = Inr one" by (simp add: go_eval one_def of_units_def)
  ultimately show ?thesis
    using transfer_request [OF sample_calm sample_env_ok sample_ledger, of "sample_request ''k1''" "''k1''" "''r1''" "''{}''" "''x''"
        "''00000000-0000-0000-0000-000000000002''" "''x''" "''00000000-0000-0000-0000-000000000003''" "JNumber ''1''" alice_id bob_id one]
      sample_fresh sample_verdicts(1) by (auto simp: sample_request_def get_value_def)
qed

text \<open>
  C33: the text of an internal error never reaches a client: a response with status 500 carries the
  fixed message, and an error gets another status only if it is or wraps a sentinel of the ledger, whose
  status depends on the sentinel alone.
\<close>

theorem mapError_table:
  "(status (mapError err) = 500 \<longrightarrow>
     payload (mapError err) = PError ''internal_error'' ''an internal error occurred'') \<and>
   (status (mapError err) \<noteq> 500 \<longrightarrow> (\<exists>e. is_sentinel e \<and> errors_Is err e)) \<and>
   status (mapError (Wrap m err)) = status (mapError err) \<and>
   map (\<lambda>e. status (mapError e)) [ErrAccountNotFound, ErrTransactionNotFound, ErrAlreadyReversed,
       ErrIdempotencyConflict, ErrInsufficientFunds, ErrNotReversible, ErrSelfTransfer, ErrSystemAccount,
       ErrInvalidAmount, PgError p, DriverError s] = [404, 404, 409, 409, 422, 422, 422, 422, 422, 500, 500]"
proof -
  have "\<exists>e. is_sentinel e \<and> errors_Is err e" if "status (mapError err) \<noteq> 500"
    using that unfolding mapError_def
    by (auto simp: internalError_def not_400 split: if_splits intro: exI [of _ ErrAccountNotFound] exI [of _ ErrTransactionNotFound]
        exI [of _ ErrAlreadyReversed] exI [of _ ErrIdempotencyConflict] exI [of _ ErrInsufficientFunds]
        exI [of _ ErrNotReversible] exI [of _ ErrSelfTransfer] exI [of _ ErrSystemAccount] exI [of _ ErrInvalidAmount])
  then show ?thesis
    by (auto simp: mapError_def writeError_def writeJSON_def internalError_def)
qed

theorem mapError_table_witness:
  "status (mapError (Wrap ''store.GetAccount'' (DriverError ''connection refused''))) = 500 \<and>
   payload (mapError (Wrap ''store.GetAccount'' (DriverError ''connection refused''))) =
     PError ''internal_error'' ''an internal error occurred'' \<and>
   errors_Is (Wrap ''service.Transfer lock'' ErrAccountNotFound) ErrAccountNotFound"
  using mapError_table [of "DriverError ''connection refused''" "''store.GetAccount''"]
    mapError_table [of "Wrap ''store.GetAccount'' (DriverError ''connection refused'')"] by simp



end
